(* ===== verification/Prelude.thy ===== *)
theory Prelude
  imports Main "HOL-Library.Word"
begin

unbundle bit_operations_syntax

section \<open>Shared vocabulary of the development\<close>

text \<open>
  This theory holds what every component uses: the names of the C integer types of the
  i386 target, the computations a C function denotes (a value, a fault, or no return),
  byte arrays, the flat 32-bit memory with block reads and writes, and the little-endian
  view of bytes that the processor has. No line of the program is modelled here.
\<close>

type_synonym u8 = "8 word"
type_synonym u16 = "16 word"
type_synonym u32 = "32 word"
type_synonym u64 = "64 word"

text \<open>
  The collections the component proofs pass to the simplifier: \<open>comp_simps\<close> evaluates
  computations, \<open>mem_simps\<close> reads through block writes, \<open>frame_simps\<close> says which parts
  of the machine state an operation leaves alone.
\<close>

named_theorems comp_simps
named_theorems mem_simps
named_theorems frame_simps

subsection \<open>Computations\<close>

text \<open>
  A C call either returns, or runs into behaviour the C standard leaves undefined (a
  fault), or never returns. \<^term>\<open>None\<close> is "never returns"; it is the value that
  \<^theory_text>\<open>partial_function (option)\<close> gives a loop that does not end.
\<close>

datatype fault =
    NullDeref       \<comment> \<open>a null pointer is read or written\<close>
  | OutOfBounds     \<comment> \<open>an array is accessed outside its bounds\<close>
  | DivByZero       \<comment> \<open>integer division by zero\<close>
  | BadShift        \<comment> \<open>a shift by at least the width of its operand\<close>
  | BadVararg       \<comment> \<open>a variadic argument is missing or of another type\<close>
  | Uninitialised   \<comment> \<open>an indeterminate value is used\<close>
  | Overflow        \<comment> \<open>a signed integer leaves its range\<close>
  | PageFault       \<comment> \<open>an address has no translation\<close>

type_synonym 'a comp = "(fault + 'a) option"

definition ret :: "'a \<Rightarrow> 'a comp" where
  "ret x = Some (Inr x)"

definition stuck :: "fault \<Rightarrow> 'a comp" where
  "stuck e = Some (Inl e)"

definition bnd :: "'a comp \<Rightarrow> ('a \<Rightarrow> 'b comp) \<Rightarrow> 'b comp" where
  "bnd m f = (case m of None \<Rightarrow> None | Some (Inl e) \<Rightarrow> Some (Inl e) | Some (Inr x) \<Rightarrow> f x)"

definition returns :: "'a comp \<Rightarrow> bool" where
  "returns m \<longleftrightarrow> (\<exists>x. m = ret x)"

lemma bnd_ret [simp, comp_simps]: "bnd (ret x) f = f x"
  by (simp add: bnd_def ret_def)

lemma bnd_stuck [simp, comp_simps]: "bnd (stuck e) f = stuck e"
  by (simp add: bnd_def stuck_def)

lemma bnd_None [simp, comp_simps]: "bnd None f = None"
  by (simp add: bnd_def)

lemma ret_inject [simp]: "ret x = ret y \<longleftrightarrow> x = y"
  by (simp add: ret_def)

lemma stuck_inject [simp]: "stuck x = stuck y \<longleftrightarrow> x = y"
  by (simp add: stuck_def)

lemma ret_not_stuck [simp]: "ret x \<noteq> stuck e" "stuck e \<noteq> ret x"
  by (simp_all add: ret_def stuck_def)

lemma ret_not_None [simp]: "ret x \<noteq> None" "None \<noteq> ret x"
  by (simp_all add: ret_def)

lemma stuck_not_None [simp]: "stuck e \<noteq> None" "None \<noteq> stuck e"
  by (simp_all add: stuck_def)

lemma bnd_assoc: "bnd (bnd m f) g = bnd m (\<lambda>x. bnd (f x) g)"
  by (auto simp: bnd_def split: option.split sum.split)

lemma bnd_cong [fundef_cong]:
  "m = m' \<Longrightarrow> (\<And>x. m' = ret x \<Longrightarrow> f x = g x) \<Longrightarrow> bnd m f = bnd m' g"
  by (cases m' rule: option.exhaust) (auto simp: bnd_def ret_def split: sum.split)

lemma bnd_eq_ret:
  "bnd m f = ret y \<longleftrightarrow> (\<exists>x. m = ret x \<and> f x = ret y)"
  by (auto simp: bnd_def ret_def split: option.split sum.split)

lemma returns_ret [simp]: "returns (ret x)"
  by (simp add: returns_def)

lemma returnsE: "returns m \<Longrightarrow> (\<And>x. m = ret x \<Longrightarrow> P) \<Longrightarrow> P"
  by (auto simp: returns_def)

lemma comp_cases [case_names ret stuck diverge]:
  fixes m :: "'a comp"
  obtains x where "m = ret x" | e where "m = stuck e" | "m = None"
proof (cases m)
  case (Some r)
  then show ?thesis
    using that by (cases r) (auto simp: ret_def stuck_def)
qed (use that in blast)

text \<open>With this rule \<^theory_text>\<open>partial_function (option)\<close> accepts recursive calls under
  \<^const>\<open>bnd\<close>.\<close>

lemma bnd_mono [partial_function_mono]:
  assumes mf: "mono_option B" and mg: "\<And>y. mono_option (\<lambda>f. C y f)"
  shows "mono_option (\<lambda>f. bnd (B f) (\<lambda>y. C y f))"
proof (rule monotoneI)
  fix f g :: "'a \<Rightarrow> 'b option"
  assume fg: "fun_ord option_ord f g"
  have B: "option_ord (B f) (B g)" using mf by (rule monotoneD) (rule fg)
  have C: "option_ord (C y f) (C y g)" for y using mg by (rule monotoneD) (rule fg)
  show "option_ord (bnd (B f) (\<lambda>y. C y f)) (bnd (B g) (\<lambda>y. C y g))"
  proof (cases "B f" rule: comp_cases)
    case (ret x)
    with B have "B g = ret x" by (auto simp: flat_ord_def)
    with ret C show ?thesis by simp
  next
    case (stuck e)
    with B have "B g = stuck e" by (auto simp: flat_ord_def)
    with stuck show ?thesis by (simp add: flat_ord_def)
  qed (simp add: flat_ord_def)
qed

subsection \<open>Loops and signed integers\<close>

text \<open>\<open>for_loop i n f\<close>: \<open>n\<close> rounds of a counting loop from \<open>i\<close> on; \<open>forever f\<close>: a loop without
  exit.\<close>

primrec for_loop :: "nat \<Rightarrow> nat \<Rightarrow> (nat \<Rightarrow> 's \<Rightarrow> 's comp) \<Rightarrow> 's \<Rightarrow> 's comp" where
  "for_loop i 0 f s = ret s"
| "for_loop i (Suc n) f s = bnd (f i s) (for_loop (Suc i) n f)"

partial_function (option) forever :: "('s \<Rightarrow> 's comp) \<Rightarrow> 's \<Rightarrow> 't comp" where
  "forever f s = bnd (f s) (forever f)"

lemma forever_never_returns: "forever f s \<noteq> ret t"
proof
  assume "forever f s = ret t"
  then have "forever f s = Some (Inr t)" by (simp add: ret_def)
  then have "\<exists>e. Inr t = (Inl e :: fault + _)"
    by (rule forever.raw_induct [rotated, where P = "\<lambda>_ _ r. \<exists>e. r = Inl e"])
      (auto simp: bnd_def split: option.splits sum.splits)
  then show False by simp
qed

text \<open>An invariant of the rounds, for a loop whose rounds all return.\<close>

lemma for_loop_inv:
  assumes "P i s" "\<And>j u. i \<le> j \<Longrightarrow> j < i + n \<Longrightarrow> P j u \<Longrightarrow> \<exists>v. f j u = ret v \<and> P (Suc j) v"
  shows "\<exists>t. for_loop i n f s = ret t \<and> P (i + n) t"
  using assms
proof (induction n arbitrary: i s)
  case (Suc n)
  obtain v where "f i s = ret v" "P (Suc i) v" using Suc.prems(2) [of i s] Suc.prems(1) by auto
  then show ?case using Suc.IH [of "Suc i" v] Suc.prems(2) by auto
qed simp

lemma for_loop_returns_inv:
  assumes "for_loop i n f s = ret t" "P s" "\<And>j u v. P u \<Longrightarrow> f j u = ret v \<Longrightarrow> P v"
  shows "P t"
  using assms by (induction n arbitrary: i s) (auto simp: bnd_eq_ret)

text \<open>The result of a signed operation, if it fits the 32 bits of an \<open>int\<close>.\<close>

definition c_int :: "int \<Rightarrow> int comp" where
  "c_int n = (if - (2 ^ 31) \<le> n \<and> n < 2 ^ 31 then ret n else stuck Overflow)"

subsection \<open>C arrays\<close>

text \<open>An array is the list of its elements; an access outside it is a fault.\<close>

definition aget :: "'a list \<Rightarrow> nat \<Rightarrow> 'a comp" where
  "aget xs i = (if i < length xs then ret (xs ! i) else stuck OutOfBounds)"

definition aput :: "'a list \<Rightarrow> nat \<Rightarrow> 'a \<Rightarrow> 'a list comp" where
  "aput xs i v = (if i < length xs then ret (xs[i := v]) else stuck OutOfBounds)"

text \<open>Overwriting the array from position \<open>i\<close> on with a block of values.\<close>

definition ablit :: "'a list \<Rightarrow> nat \<Rightarrow> 'a list \<Rightarrow> 'a list comp" where
  "ablit xs i ys =
     (if i + length ys \<le> length xs then ret (take i xs @ ys @ drop (i + length ys) xs)
      else stuck OutOfBounds)"

lemma aget_ret [comp_simps]: "i < length xs \<Longrightarrow> aget xs i = ret (xs ! i)"
  by (simp add: aget_def)

lemma aput_ret [comp_simps]: "i < length xs \<Longrightarrow> aput xs i v = ret (xs[i := v])"
  by (simp add: aput_def)

lemma ablit_ret [comp_simps]:
  "i + length ys \<le> length xs \<Longrightarrow> ablit xs i ys = ret (take i xs @ ys @ drop (i + length ys) xs)"
  by (simp add: ablit_def)

lemma ablit_length: "ablit xs i ys = ret zs \<Longrightarrow> length zs = length xs"
  by (auto simp: ablit_def split: if_splits)

text \<open>The bytes of a C string literal, without and with its terminating NUL.\<close>

definition lit :: "string \<Rightarrow> u8 list" where
  "lit s = map of_char s"

definition cstr :: "string \<Rightarrow> u8 list" where
  "cstr s = lit s @ [0]"

lemma length_lit [simp]: "length (lit s) = length s"
  by (simp add: lit_def)

subsection \<open>Pointers to variables\<close>

text \<open>
  A pointer parameter through which a function hands back a value: NULL, or the address of a
  variable of the caller, whose value may still be indeterminate.
\<close>

datatype 'a ref = Null | Ref "'a option"

definition deref :: "'a ref \<Rightarrow> 'a comp" where
  "deref r = (case r of Null \<Rightarrow> stuck NullDeref | Ref None \<Rightarrow> stuck Uninitialised | Ref (Some v) \<Rightarrow> ret v)"

definition assign :: "'a ref \<Rightarrow> 'a \<Rightarrow> 'a ref" where
  "assign r v = (if r = Null then Null else Ref (Some v))"

lemma deref_simps [simp]:
  "deref Null = stuck NullDeref" "deref (Ref None) = stuck Uninitialised" "deref (Ref (Some v)) = ret v"
  by (simp_all add: deref_def)

lemma assign_simps [simp]: "assign Null v = Null" "assign (Ref x) v = Ref (Some v)"
  by (simp_all add: assign_def)

subsection \<open>Memory\<close>

text \<open>The processor's flat address space: one byte per 32-bit address, with wrap-around.\<close>

type_synonym mem = "u32 \<Rightarrow> u8"

definition mem_read :: "mem \<Rightarrow> u32 \<Rightarrow> nat \<Rightarrow> u8 list" where
  "mem_read m a n = map (\<lambda>i. m (a + of_nat i)) [0..<n]"

definition mem_write :: "mem \<Rightarrow> u32 \<Rightarrow> u8 list \<Rightarrow> mem" where
  "mem_write m a bs = (\<lambda>x. if unat (x - a) < length bs then bs ! unat (x - a) else m x)"

text \<open>\<open>in_block a n x\<close>: the address \<open>x\<close> is one of the \<open>n\<close> addresses from \<open>a\<close> on.\<close>

definition in_block :: "u32 \<Rightarrow> nat \<Rightarrow> u32 \<Rightarrow> bool" where
  "in_block a n x \<longleftrightarrow> unat (x - a) < n"

lemma length_mem_read [simp]: "length (mem_read m a n) = n"
  by (simp add: mem_read_def)

lemma nth_mem_read [simp]: "i < n \<Longrightarrow> mem_read m a n ! i = m (a + of_nat i)"
  by (simp add: mem_read_def)

lemma mem_write_in [mem_simps]:
  "in_block a (length bs) x \<Longrightarrow> mem_write m a bs x = bs ! unat (x - a)"
  by (simp add: mem_write_def in_block_def)

lemma mem_write_out [mem_simps]:
  "\<not> in_block a (length bs) x \<Longrightarrow> mem_write m a bs x = m x"
  by (simp add: mem_write_def in_block_def)

lemma mem_write_Nil [simp]: "mem_write m a [] = m"
  by (simp add: mem_write_def)

lemma unat_of_nat32 [simp]: "i < 2 ^ 32 \<Longrightarrow> unat (of_nat i :: u32) = i"
  by (simp add: unat_of_nat)

lemma unat_u8_less [simp]: "unat (x :: u8) < 256"
  using unsigned_less [of x, where ?'a = nat] by simp

lemma unat_u16_less [simp]: "unat (x :: u16) < 65536"
  using unsigned_less [of x, where ?'a = nat] by simp

lemma unat_u32_less [simp]: "unat (x :: u32) < 4294967296"
  using unsigned_less [of x, where ?'a = nat] by simp

lemma unat_ucast_wide: "unat (ucast (x :: u8) :: u32) = unat x"
  using less_trans [of "unat x" 256 4294967296] by (simp add: unsigned_ucast_eq take_bit_nat_eq_self_iff)

lemma unat_ucast_wide16: "unat (ucast (x :: u16) :: u32) = unat x"
  using less_trans [of "unat x" 65536 4294967296] by (simp add: unsigned_ucast_eq take_bit_nat_eq_self_iff)

lemma unat_diff_eq:
  "k < 2 ^ 32 \<Longrightarrow> unat (x - a :: u32) = k \<longleftrightarrow> x = a + of_nat k"
  by (metis add.commute add_diff_cancel_left' diff_add_cancel unat_of_nat32 word_unat_eq_iff)

lemma in_block_offset [simp]:
  "i < 2 ^ 32 \<Longrightarrow> in_block a n (a + of_nat i) \<longleftrightarrow> i < n"
  by (simp add: in_block_def)

lemma mem_write_offset [simp]:
  "i < length bs \<Longrightarrow> length bs \<le> 2 ^ 32 \<Longrightarrow> mem_write m a bs (a + of_nat i) = bs ! i"
  by (simp add: mem_write_def)

lemma mem_read_write_same [mem_simps]:
  "length bs \<le> 2 ^ 32 \<Longrightarrow> mem_read (mem_write m a bs) a (length bs) = bs"
  by (rule nth_equalityI) (auto simp: mem_write_offset)

lemma mem_write_read_id [mem_simps]: "n \<le> 2 ^ 32 \<Longrightarrow> mem_write m a (mem_read m a n) = m"
  by (auto simp: fun_eq_iff mem_write_def mem_read_def)

lemma mem_write_twice [mem_simps]:
  "length cs = length bs \<Longrightarrow> mem_write (mem_write m a bs) a cs = mem_write m a cs"
  by (auto simp: fun_eq_iff mem_write_def)

lemma mem_read_cong:
  "(\<And>i. i < n \<Longrightarrow> m (a + of_nat i) = m' (a + of_nat i)) \<Longrightarrow> mem_read m a n = mem_read m' a n"
  by (simp add: mem_read_def)

lemma take_mem_read: "take k (mem_read m a n) = mem_read m a (min k n)"
  by (rule nth_equalityI) auto

lemma drop_mem_read: "drop k (mem_read m a n) = mem_read m (a + of_nat k) (n - k)"
  by (rule nth_equalityI) (auto simp: add.assoc)

lemma mem_read_append: "mem_read m a (i + j) = mem_read m a i @ mem_read m (a + of_nat i) j"
  by (rule nth_equalityI) (auto simp: nth_append algebra_simps)

text \<open>Two blocks of addresses, each given by its first address and its length, are apart.\<close>

definition apart :: "u32 \<Rightarrow> nat \<Rightarrow> u32 \<Rightarrow> nat \<Rightarrow> bool" where
  "apart a n b k \<longleftrightarrow> (\<forall>x. \<not> (in_block a n x \<and> in_block b k x))"

lemma in_block_unat:
  assumes "unat a + n \<le> 2 ^ 32"
  shows "in_block a n x \<longleftrightarrow> unat a \<le> unat x \<and> unat x < unat a + n"
proof
  assume "in_block a n x"
  then obtain y where "x = a + y" "unat y < n"
    using that [of "x - a"] by (simp add: in_block_def)
  moreover from this have "unat x = unat a + unat y"
    using assms by (simp add: unat_word_ariths)
  ultimately show "unat a \<le> unat x \<and> unat x < unat a + n" by simp
next
  assume *: "unat a \<le> unat x \<and> unat x < unat a + n"
  then have "unat (x - a) = unat x - unat a"
    by (simp add: unat_sub word_le_nat_alt)
  with * show "in_block a n x" by (auto simp: in_block_def)
qed

lemma in_block_shift:
  assumes "in_block (a + i) k x" "unat i + k \<le> n" "n \<le> 2 ^ 32"
  shows "in_block a n x"
proof -
  define y where "y = x - (a + i)"
  have x: "x - a = i + y" by (simp add: y_def)
  have "unat y < k" using assms(1) by (simp add: in_block_def y_def)
  then have "unat (i + y) = unat i + unat y"
    using assms(2,3) by (simp add: unat_word_ariths)
  with assms(2) \<open>unat y < k\<close> show ?thesis unfolding in_block_def x by simp
qed

lemma apart_below:
  "unat a + n \<le> unat b \<Longrightarrow> unat b + k \<le> 2 ^ 32 \<Longrightarrow> apart a n b k \<and> apart b k a n"
  using unat_u32_less [of b] by (auto simp: apart_def in_block_unat simp del: unat_u32_less)

lemma apart_strides:
  assumes "a + n \<le> b" "b + k \<le> 2 ^ 32"
  shows "apart (p + of_nat a) n (p + of_nat b) k"
proof (cases "k = 0")
  case True
  then show ?thesis by (simp add: apart_def in_block_def)
next
  case False
  then have "unat (of_nat a :: u32) = a" "unat (of_nat b :: u32) = b" using assms by simp_all
  then have "apart (of_nat a) n (of_nat b) k" using apart_below [of "of_nat a" n "of_nat b" k] assms by simp
  moreover have "in_block (p + c) l x \<longleftrightarrow> in_block c l (x - p)" for c l x
    by (simp add: in_block_def diff_diff_add)
  ultimately show ?thesis by (simp add: apart_def)
qed

lemma mem_read_write_apart [mem_simps]:
  "apart a (length bs) b n \<Longrightarrow> n \<le> 2 ^ 32 \<Longrightarrow> mem_read (mem_write m a bs) b n = mem_read m b n"
proof (rule mem_read_cong)
  fix i
  assume "apart a (length bs) b n" "n \<le> 2 ^ 32" "i < n"
  then have "in_block b n (b + of_nat i)"
    by simp
  with \<open>apart a (length bs) b n\<close> show "mem_write m a bs (b + of_nat i) = m (b + of_nat i)"
    by (auto simp: apart_def intro: mem_write_out)
qed

subsection \<open>Little-endian values in memory\<close>

text \<open>The two- and four-byte values the processor reads and writes at a byte offset.\<close>

definition le16 :: "u8 \<Rightarrow> u8 \<Rightarrow> u16" where
  "le16 b0 b1 = ucast b0 OR push_bit 8 (ucast b1)"

definition le32 :: "u8 \<Rightarrow> u8 \<Rightarrow> u8 \<Rightarrow> u8 \<Rightarrow> u32" where
  "le32 b0 b1 b2 b3 =
     ucast b0 OR push_bit 8 (ucast b1) OR push_bit 16 (ucast b2) OR push_bit 24 (ucast b3)"

definition bytes16 :: "u16 \<Rightarrow> u8 list" where
  "bytes16 w = [ucast w, ucast (drop_bit 8 w)]"

definition bytes32 :: "u32 \<Rightarrow> u8 list" where
  "bytes32 w = [ucast w, ucast (drop_bit 8 w), ucast (drop_bit 16 w), ucast (drop_bit 24 w)]"

definition get16 :: "u8 list \<Rightarrow> nat \<Rightarrow> u16" where
  "get16 bs i = le16 (bs ! i) (bs ! (i + 1))"

definition get32 :: "u8 list \<Rightarrow> nat \<Rightarrow> u32" where
  "get32 bs i = le32 (bs ! i) (bs ! (i + 1)) (bs ! (i + 2)) (bs ! (i + 3))"

lemma length_bytes16 [simp]: "length (bytes16 w) = 2"
  by (simp add: bytes16_def)

lemma length_bytes32 [simp]: "length (bytes32 w) = 4"
  by (simp add: bytes32_def)

lemma bit_u8_high: "8 \<le> n \<Longrightarrow> \<not> bit (b :: u8) n"
  using bit_imp_le_length [of b n] by auto

lemma ucast_and_0xFF [simp]: "ucast (w AND 0xFF :: u16) = (ucast w :: u8)"
proof -
  have m: "(0xFF :: u16) = mask 8"
    by (simp add: mask_eq_exp_minus_1)
  show ?thesis
    unfolding m by (auto simp: bit_simps intro: bit_word_eqI)
qed

lemma ucast_of_nat32: "n < 2 ^ 32 \<Longrightarrow> ucast (of_nat n :: u32) = of_nat n"
  by (simp add: unsigned_of_nat take_bit_nat_eq_self)

lemma le16_bytes16: "le16 (ucast w) (ucast (drop_bit 8 w)) = w"
  by (rule bit_word_eqI)
    (auto simp: le16_def bit_simps)

lemma le32_bytes32:
  "le32 (ucast w) (ucast (drop_bit 8 w)) (ucast (drop_bit 16 w)) (ucast (drop_bit 24 w)) = w"
proof (rule bit_word_eqI)
  fix n
  assume "n < LENGTH(32)"
  then consider "n < 8" | "8 \<le> n" "n < 16" | "16 \<le> n" "n < 24" | "24 \<le> n" "n < 32"
    by fastforce
  then show "bit (le32 (ucast w) (ucast (drop_bit 8 w)) (ucast (drop_bit 16 w))
      (ucast (drop_bit 24 w))) n = bit w n"
    by cases (auto simp: le32_def bit_simps)
qed

lemma bytes16_le16: "bytes16 (le16 b0 b1) = [b0, b1]"
  by (auto simp: bytes16_def le16_def bit_simps bit_u8_high intro!: bit_word_eqI)

lemma bytes32_le32: "bytes32 (le32 b0 b1 b2 b3) = [b0, b1, b2, b3]"
  by (auto simp: bytes32_def le32_def bit_simps bit_u8_high intro!: bit_word_eqI)

text \<open>The processor's 32-bit load and store.\<close>

definition peek32 :: "mem \<Rightarrow> u32 \<Rightarrow> u32" where
  "peek32 m a = le32 (m a) (m (a + 1)) (m (a + 2)) (m (a + 3))"

definition poke32 :: "u32 \<Rightarrow> u32 \<Rightarrow> mem \<Rightarrow> mem" where
  "poke32 a v m = mem_write m a (bytes32 v)"

lemma poke32_bytes:
  "poke32 a v m = m(a := ucast v, a + 1 := ucast (drop_bit 8 v),
    a + 2 := ucast (drop_bit 16 v), a + 3 := ucast (drop_bit 24 v))"
proof
  fix x
  have "unat (x - a) < 4 \<longleftrightarrow> x = a \<or> x = a + 1 \<or> x = a + 2 \<or> x = a + 3"
    using unat_diff_eq [of 0 x a] unat_diff_eq [of 1 x a] unat_diff_eq [of 2 x a] unat_diff_eq [of 3 x a]
    by auto
  then show "poke32 a v m x = (m(a := ucast v, a + 1 := ucast (drop_bit 8 v),
      a + 2 := ucast (drop_bit 16 v), a + 3 := ucast (drop_bit 24 v))) x"
    by (auto simp: poke32_def mem_write_def bytes32_def)
qed

lemma peek32_mem_read: "peek32 m a = get32 (mem_read m a 4) 0"
  by (simp add: peek32_def get32_def)

lemma peek32_poke32 [simp]: "peek32 (poke32 a v m) a = v"
  using mem_read_write_same [of "bytes32 v" m a]
  by (simp add: peek32_mem_read poke32_def) (simp add: get32_def bytes32_def le32_bytes32)

lemma peek32_poke32_apart: "apart a 4 b 4 \<Longrightarrow> peek32 (poke32 a v m) b = peek32 m b"
  by (simp add: peek32_mem_read poke32_def mem_read_write_apart)

lemma poke32_outside: "\<not> in_block a 4 x \<Longrightarrow> poke32 a v m x = m x"
  by (simp add: poke32_def mem_write_out)

text \<open>The processor's 16-bit load and store, and an array of 16-bit cells at an address.\<close>

definition peek16 :: "mem \<Rightarrow> u32 \<Rightarrow> u16" where
  "peek16 m a = le16 (m a) (m (a + 1))"

definition poke16 :: "u32 \<Rightarrow> u16 \<Rightarrow> mem \<Rightarrow> mem" where
  "poke16 a v m = m(a := ucast v, a + 1 := ucast (drop_bit 8 v))"

lemma peek16_poke16 [simp]: "peek16 (poke16 a v m) a = v"
  by (simp add: peek16_def poke16_def le16_bytes16)

lemma double_of_nat: "(2 :: u32) * of_nat i = of_nat (2 * i)"
  by simp

lemma of_nat32_inject:
  "i < 2 ^ 32 \<Longrightarrow> j < 2 ^ 32 \<Longrightarrow> (of_nat i :: u32) = of_nat j \<longleftrightarrow> i = j"
  by (metis unat_of_nat32)

lemma cell_apart:
  assumes "i < 2 ^ 31" "j < 2 ^ 31" "i \<noteq> j"
  shows "b + 2 * of_nat i \<noteq> b + (2 * of_nat j :: u32)" "b + 2 * of_nat i + 1 \<noteq> b + (2 * of_nat j :: u32)"
proof -
  have "(of_nat (2 * i) :: u32) \<noteq> of_nat (2 * j)" "(of_nat (2 * i + 1) :: u32) \<noteq> of_nat (2 * j)"
    using assms by (subst of_nat32_inject; (simp | presburger))+
  then show "b + 2 * of_nat i \<noteq> b + (2 * of_nat j :: u32)" "b + 2 * of_nat i + 1 \<noteq> b + (2 * of_nat j :: u32)"
    by (simp_all add: add.assoc add.commute [of _ 1])
qed

lemma peek16_poke16_other:
  assumes "i < 2 ^ 31" "j < 2 ^ 31" "i \<noteq> j"
  shows "peek16 (poke16 (b + 2 * of_nat i) v m) (b + 2 * of_nat j) = peek16 m (b + 2 * of_nat j)"
  using cell_apart [OF assms, of b] cell_apart [OF assms(2,1) not_sym [OF assms(3)], of b]
  by (simp add: peek16_def poke16_def)

lemma poke16_outside:
  assumes "i < n" "n \<le> 2 ^ 31" "\<not> in_block b (2 * n) x"
  shows "poke16 (b + 2 * of_nat i) v m x = m x"
proof -
  have "in_block b (2 * n) (b + of_nat (2 * i))" "in_block b (2 * n) (b + of_nat (2 * i + 1))"
    using assms(1,2) by (subst in_block_offset; simp)+
  then have "x \<noteq> b + 2 * of_nat i" "x \<noteq> b + 2 * of_nat i + 1"
    using assms(3) by (auto simp: algebra_simps)
  then show ?thesis by (simp add: poke16_def)
qed

lemma fill16:
  assumes "n \<le> 2 ^ 31"
  shows "fold (\<lambda>i. poke16 (b + 2 * of_nat i) v) [0..<n] m =
    (\<lambda>x. if in_block b (2 * n) x
         then if even (unat (x - b)) then ucast v else ucast (drop_bit 8 v) else m x)"
  using assms
proof (induction n)
  case 0
  then show ?case by (simp add: in_block_def)
next
  case (Suc n)
  have n: "2 * n + 1 < 2 ^ 32" using Suc.prems by simp
  have in_Suc: "in_block b (2 * Suc n) x \<longleftrightarrow>
      in_block b (2 * n) x \<or> x = b + 2 * of_nat n \<or> x = b + 2 * of_nat n + 1" for x
  proof -
    have "unat (x - b) < 2 * Suc n \<longleftrightarrow>
        unat (x - b) < 2 * n \<or> unat (x - b) = 2 * n \<or> unat (x - b) = 2 * n + 1"
      by auto
    then show ?thesis
      using n unat_diff_eq [of "2 * n" x b] unat_diff_eq [of "2 * n + 1" x b]
      by (simp add: in_block_def algebra_simps)
  qed
  have at: "unat (b + 2 * of_nat n - b) = 2 * n" "unat (b + 2 * of_nat n + 1 - b) = 2 * n + 1"
    using n unat_diff_eq [of "2 * n" "b + 2 * of_nat n" b]
      unat_diff_eq [of "2 * n + 1" "b + 2 * of_nat n + 1" b]
    by (simp_all add: algebra_simps)
  show ?case
  proof
    fix x
    have "fold (\<lambda>i. poke16 (b + 2 * of_nat i) v) [0..<Suc n] m x =
        poke16 (b + 2 * of_nat n) v (fold (\<lambda>i. poke16 (b + 2 * of_nat i) v) [0..<n] m) x"
      by simp
    also have "\<dots> = (if in_block b (2 * Suc n) x
        then if even (unat (x - b)) then ucast v else ucast (drop_bit 8 v) else m x)"
      using Suc.prems unfolding Suc.IH [OF Suc_leD [OF Suc.prems]] poke16_def in_Suc
      using at by (auto simp: algebra_simps)
    finally show "fold (\<lambda>i. poke16 (b + 2 * of_nat i) v) [0..<Suc n] m x = \<dots>" .
  qed
qed

lemma peek16_fill16:
  assumes "i < n" "n \<le> 2 ^ 31"
  shows "peek16 (fold (\<lambda>i. poke16 (b + 2 * of_nat i) v) [0..<n] m) (b + 2 * of_nat i) = v"
proof -
  have "unat (b + 2 * of_nat i - b) = 2 * i" "unat (b + 2 * of_nat i + 1 - b) = 2 * i + 1"
    using assms unat_diff_eq [of "2 * i" "b + 2 * of_nat i" b]
      unat_diff_eq [of "2 * i + 1" "b + 2 * of_nat i + 1" b]
    by (simp_all add: algebra_simps)
  then show ?thesis
    unfolding fill16 [OF assms(2)] peek16_def
    using assms by (simp add: in_block_def le16_bytes16)
qed

text \<open>Two nested counting loops over rows and columns are one loop over the cells.\<close>

lemma fold_rows:
  "fold (\<lambda>y. fold (\<lambda>x. f (y * w + x)) [0..<w]) [0..<h] = fold f [0..<h * w]"
proof (induction h)
  case (Suc h)
  have "fold (\<lambda>x. f (h * w + x)) [0..<w] = fold f (map (\<lambda>x. x + h * w) [0..<w])"
    by (simp add: fold_map comp_def add.commute)
  then have "fold (\<lambda>x. f (h * w + x)) [0..<w] = fold f [h * w..<Suc h * w]"
    by (simp add: map_add_upt)
  moreover have "[0..<Suc h * w] = [0..<h * w] @ [h * w..<Suc h * w]"
    using upt_add_eq_append [of 0 "h * w" w] by (simp add: add.commute)
  ultimately show ?case
    using Suc by simp
qed simp

lemma replicate_numeral: "replicate (numeral k) x = x # replicate (pred_numeral k) x"
  by (simp add: numeral_eq_Suc)

subsection \<open>Sequences of steps\<close>

text \<open>
  The contract of an output operation: every call keeps the invariant of its state and
  stays within a frame, a reflexive and transitive relation between the states before and
  after. A loop of such calls keeps both.
\<close>

locale writer =
  fixes inv :: "'s \<Rightarrow> bool" and frame :: "'s \<Rightarrow> 's \<Rightarrow> bool" and put :: "'a \<Rightarrow> 's \<Rightarrow> 's"
  assumes inv_put: "inv s \<Longrightarrow> inv (put a s)"
    and frame_put: "inv s \<Longrightarrow> frame s (put a s)"
    and frame_refl: "frame s s"
    and frame_trans: "frame s t \<Longrightarrow> frame t u \<Longrightarrow> frame s u"
begin

lemma inv_fold: "inv s \<Longrightarrow> inv (fold put xs s)"
  by (induction xs arbitrary: s) (auto intro: inv_put)

lemma frame_fold: "inv s \<Longrightarrow> frame s (fold put xs s)"
proof (induction xs arbitrary: s)
  case Nil
  then show ?case by (simp add: frame_refl)
next
  case (Cons x xs)
  then show ?case
    using frame_trans [OF frame_put Cons.IH [OF inv_put]] by simp
qed

end

end
