(* ===== verification/Bus.thy ===== *)
theory Bus
  imports Prelude
begin

section \<open>Port input and output\<close>

text \<open>
  The machine's devices sit behind the i386 I/O ports. What they answer is not part of the
  program: a \<open>bus\<close> is a parameter of the model, a record of the four port accesses over
  a device state of any type \<open>'d\<close>. The accessors of \<^verbatim>\<open>kernel/arch/i386/tty.c\<close>
  (\<open>inb\<close>, \<open>outb\<close>, \<open>inw\<close>, \<open>outw\<close>) run an access and store the new device state. The
  record \<open>hw\<close>, the devices and the memory, is the root of the kernel's state; the
  components extend it.
\<close>

record 'd bus =
  bus_inb :: "u16 \<Rightarrow> 'd \<Rightarrow> u8 \<times> 'd"
  bus_outb :: "u16 \<Rightarrow> u8 \<Rightarrow> 'd \<Rightarrow> 'd"
  bus_inw :: "u16 \<Rightarrow> 'd \<Rightarrow> u16 \<times> 'd"
  bus_outw :: "u16 \<Rightarrow> u16 \<Rightarrow> 'd \<Rightarrow> 'd"

record 'd hw =
  dev :: 'd
  ram :: mem

definition inb :: "'d bus \<Rightarrow> u16 \<Rightarrow> ('d, 'z) hw_scheme \<Rightarrow> u8 \<times> ('d, 'z) hw_scheme" where
  "inb B port s = (let (v, d) = bus_inb B port (dev s) in (v, s\<lparr>dev := d\<rparr>))"

definition outb :: "'d bus \<Rightarrow> u16 \<Rightarrow> u8 \<Rightarrow> ('d, 'z) hw_scheme \<Rightarrow> ('d, 'z) hw_scheme" where
  "outb B port v s = s\<lparr>dev := bus_outb B port v (dev s)\<rparr>"

definition inw :: "'d bus \<Rightarrow> u16 \<Rightarrow> ('d, 'z) hw_scheme \<Rightarrow> u16 \<times> ('d, 'z) hw_scheme" where
  "inw B port s = (let (v, d) = bus_inw B port (dev s) in (v, s\<lparr>dev := d\<rparr>))"

definition outw :: "'d bus \<Rightarrow> u16 \<Rightarrow> u16 \<Rightarrow> ('d, 'z) hw_scheme \<Rightarrow> ('d, 'z) hw_scheme" where
  "outw B port v s = s\<lparr>dev := bus_outw B port v (dev s)\<rparr>"

text \<open>
  A busy-wait \<open>while (!ready(inb(port)));\<close> reads the port until the value is ready. It
  need not end, so it is a partial function.
\<close>

partial_function (option) inb_until ::
  "'d bus \<Rightarrow> u16 \<Rightarrow> (u8 \<Rightarrow> bool) \<Rightarrow> ('d, 'z) hw_scheme \<Rightarrow> (u8 \<times> ('d, 'z) hw_scheme) comp" where
  "inb_until B port ready s =
     (let (v, s') = inb B port s in if ready v then ret (v, s') else inb_until B port ready s')"

declare inb_until.simps [code]

text \<open>The device state after \<open>k\<close> reads of a port.\<close>

primrec polled :: "'d bus \<Rightarrow> u16 \<Rightarrow> nat \<Rightarrow> 'd \<Rightarrow> 'd" where
  "polled B port 0 d = d"
| "polled B port (Suc k) d = polled B port k (snd (bus_inb B port d))"

text \<open>A busy-wait returns when some later read of the port is ready, with the first such value.\<close>

lemma inb_until_returns:
  assumes "\<And>i. i < k \<Longrightarrow> \<not> ready (fst (bus_inb B port (polled B port i (dev s))))"
    and "ready (fst (bus_inb B port (polled B port k (dev s))))"
  shows "inb_until B port ready s =
    ret (fst (bus_inb B port (polled B port k (dev s))), s\<lparr>dev := polled B port (Suc k) (dev s)\<rparr>)"
  using assms
proof (induction k arbitrary: s)
  case 0
  then show ?case
    by (subst inb_until.simps) (simp add: inb_def case_prod_beta Let_def)
next
  case (Suc k)
  let ?s = "s\<lparr>dev := snd (bus_inb B port (dev s))\<rparr>"
  have "\<not> ready (fst (bus_inb B port (dev s)))"
    using Suc.prems(1) [of 0] by simp
  moreover have "inb_until B port ready ?s =
      ret (fst (bus_inb B port (polled B port k (dev ?s))),
        ?s\<lparr>dev := polled B port (Suc k) (dev ?s)\<rparr>)"
  proof (rule Suc.IH)
    fix i
    assume "i < k"
    then show "\<not> ready (fst (bus_inb B port (polled B port i (dev ?s))))"
      using Suc.prems(1) [of "Suc i"] by simp
  next
    show "ready (fst (bus_inb B port (polled B port k (dev ?s))))"
      using Suc.prems(2) by simp
  qed
  ultimately show ?case
    by (subst inb_until.simps) (simp add: inb_def case_prod_beta Let_def)
qed

text \<open>A value a busy-wait returns is ready, and only the device has changed.\<close>

lemma inb_until_ready:
  fixes s s' :: "('a, 'b) hw_scheme"
  assumes "inb_until B port ready s = ret (v, s')"
  shows "ready v \<and> (\<exists>d. s' = s\<lparr>dev := d\<rparr>)"
proof -
  have ret: "inb_until B port ready s = Some (Inr (v, s'))"
    using assms by (simp add: ret_def)
  have "case (Inr (v, s') :: fault + u8 \<times> ('a, 'b) hw_scheme) of Inl _ \<Rightarrow> True | Inr (v, s') \<Rightarrow> ready v \<and> (\<exists>d. s' = s\<lparr>dev := d\<rparr>)"
  proof (rule inb_until.raw_induct [where P = "\<lambda>B port ready s r. case r of Inl _ \<Rightarrow> True
        | Inr (v, s') \<Rightarrow> ready v \<and> (\<exists>d. s' = s\<lparr>dev := d\<rparr>)", OF _ ret], goal_cases)
    case (1 f B port ready s r)
    show ?case
    proof (cases "ready (fst (inb B port s))")
      case True
      with 1 show ?thesis
        by (auto simp: inb_def case_prod_beta Let_def ret_def)
    next
      case False
      with 1(2) have "f B port ready (snd (inb B port s)) = Some r"
        by (simp add: case_prod_beta Let_def)
      from 1(1) [OF this] show ?thesis
        by (fastforce simp: inb_def case_prod_beta Let_def split: sum.splits)
    qed
  qed
  then show ?thesis by simp
qed

end
