(* ===== verification/Terminal.thy ===== *)
theory Terminal
  imports Bus
begin

section \<open>The text terminal\<close>

text \<open>
  The VGA text console of \<^verbatim>\<open>kernel/arch/i386/tty.c\<close> with the colour helpers of
  \<^verbatim>\<open>kernel/arch/i386/vga.h\<close>: the cursor, the drawing of characters, new lines, the
  clearing of the screen, the hardware cursor and the boot log (\<open>addevent\<close>, \<open>task\<close>).
  The console's static variables are a record that extends the machine; the cells of the
  screen are 16-bit values in memory from \<open>terminal_buffer\<close> on. The delay loops that
  \<open>waitwrite\<close> turns on only burn time and are left out.
\<close>

subsection \<open>Colours and cells\<close>

datatype vga_color =
    VGA_COLOR_BLACK | VGA_COLOR_BLUE | VGA_COLOR_GREEN | VGA_COLOR_CYAN
  | VGA_COLOR_RED | VGA_COLOR_MAGENTA | VGA_COLOR_BROWN | VGA_COLOR_LIGHT_GREY
  | VGA_COLOR_DARK_GREY | VGA_COLOR_LIGHT_BLUE | VGA_COLOR_LIGHT_GREEN | VGA_COLOR_LIGHT_CYAN
  | VGA_COLOR_LIGHT_RED | VGA_COLOR_LIGHT_MAGENTA | VGA_COLOR_LIGHT_BROWN | VGA_COLOR_WHITE

primrec color_code :: "vga_color \<Rightarrow> u32" where
  "color_code VGA_COLOR_BLACK = 0"
| "color_code VGA_COLOR_BLUE = 1"
| "color_code VGA_COLOR_GREEN = 2"
| "color_code VGA_COLOR_CYAN = 3"
| "color_code VGA_COLOR_RED = 4"
| "color_code VGA_COLOR_MAGENTA = 5"
| "color_code VGA_COLOR_BROWN = 6"
| "color_code VGA_COLOR_LIGHT_GREY = 7"
| "color_code VGA_COLOR_DARK_GREY = 8"
| "color_code VGA_COLOR_LIGHT_BLUE = 9"
| "color_code VGA_COLOR_LIGHT_GREEN = 10"
| "color_code VGA_COLOR_LIGHT_CYAN = 11"
| "color_code VGA_COLOR_LIGHT_RED = 12"
| "color_code VGA_COLOR_LIGHT_MAGENTA = 13"
| "color_code VGA_COLOR_LIGHT_BROWN = 14"
| "color_code VGA_COLOR_WHITE = 15"

definition vga_entry_color :: "u32 \<Rightarrow> u32 \<Rightarrow> u8" where
  "vga_entry_color fg bg = ucast (fg OR push_bit 4 bg)"

definition vga_entry :: "u8 \<Rightarrow> u8 \<Rightarrow> u16" where
  "vga_entry uc color = ucast uc OR push_bit 8 (ucast color)"

text \<open>The attribute byte for two colours of the enumeration.\<close>

abbreviation attribute :: "vga_color \<Rightarrow> vga_color \<Rightarrow> u8" where
  "attribute fg bg \<equiv> vga_entry_color (color_code fg) (color_code bg)"

subsection \<open>State\<close>

text \<open>
  An entry of the event log: the text a \<open>char*\<close> points to, or the integer that \<open>task\<close>
  passes where a \<open>char*\<close> is expected.
\<close>

datatype event = EventText "u8 list" | EventInt int

record 'd tty = "'d hw" +
  terminal_row :: u32
  terminal_column :: u32
  terminal_color :: u8
  terminal_buffer :: u32
  havebeeninitbefore :: bool
  waitwrite :: bool
  eventlog :: "event list"

definition VGA_WIDTH :: nat where "VGA_WIDTH = 80"
definition VGA_HEIGHT :: nat where "VGA_HEIGHT = 25"
definition VGA_MEMORY :: u32 where "VGA_MEMORY = 0xB8000"
definition MAX_EVENTS :: nat where "MAX_EVENTS = 10000"

subsection \<open>Operations\<close>

text \<open>The store \<open>terminal_buffer[index] = entry\<close>.\<close>

definition put_cell :: "u32 \<Rightarrow> u16 \<Rightarrow> ('d, 'z) tty_scheme \<Rightarrow> ('d, 'z) tty_scheme" where
  "put_cell index entry s = s\<lparr>ram := poke16 (terminal_buffer s + 2 * index) entry (ram s)\<rparr>"

text \<open>The two nested loops that fill the screen with blanks of the current colour.\<close>

definition fill_screen :: "('d, 'z) tty_scheme \<Rightarrow> ('d, 'z) tty_scheme" where
  "fill_screen s =
     fold (\<lambda>y. fold (\<lambda>x s. put_cell (of_nat (y * VGA_WIDTH + x)) (vga_entry 0x20 (terminal_color s)) s)
       [0..<VGA_WIDTH]) [0..<VGA_HEIGHT] s"

text \<open>
  The last statement of \<open>terminal_initialize\<close> compares the pointer it has just set to
  \<open>0xB8000\<close> with \<open>0xB8005\<close> and is never taken.
\<close>

definition terminal_initialize :: "('d, 'z) tty_scheme \<Rightarrow> ('d, 'z) tty_scheme" where
  "terminal_initialize s =
     (let s = s\<lparr>terminal_row := 1\<rparr>;
          s = (if \<not> havebeeninitbefore s
               then s\<lparr>terminal_color := attribute VGA_COLOR_BLACK VGA_COLOR_LIGHT_GREY\<rparr> else s);
          s = fill_screen (s\<lparr>terminal_buffer := 0xB8000\<rparr>);
          s = s\<lparr>terminal_color := attribute VGA_COLOR_WHITE VGA_COLOR_BLACK\<rparr>;
          s = fill_screen (s\<lparr>terminal_buffer := 0xB8000\<rparr>)
      in s\<lparr>havebeeninitbefore := True\<rparr>)"

definition terminal_setcolor :: "u8 \<Rightarrow> ('d, 'z) tty_scheme \<Rightarrow> ('d, 'z) tty_scheme" where
  "terminal_setcolor color s = s\<lparr>terminal_color := color\<rparr>"

definition enable_cursor :: "'d bus \<Rightarrow> u8 \<Rightarrow> u8 \<Rightarrow> ('d, 'z) hw_scheme \<Rightarrow> ('d, 'z) hw_scheme" where
  "enable_cursor B cursor_start cursor_end s =
     (let s = outb B 0x3D4 0x0A s;
          (v, s) = inb B 0x3D5 s;
          s = outb B 0x3D5 (v AND 0xC0 OR cursor_start) s;
          s = outb B 0x3D4 0x0B s;
          (v, s) = inb B 0x3D5 s
      in outb B 0x3D5 (v AND 0xE0 OR cursor_end) s)"

definition disable_cursor :: "'d bus \<Rightarrow> ('d, 'z) hw_scheme \<Rightarrow> ('d, 'z) hw_scheme" where
  "disable_cursor B s = outb B 0x3D5 0x20 (outb B 0x3D4 0x0A s)"

definition update_cursor :: "'d bus \<Rightarrow> u32 \<Rightarrow> u32 \<Rightarrow> ('d, 'z) hw_scheme \<Rightarrow> ('d, 'z) hw_scheme" where
  "update_cursor B x y s =
     (let pos = ucast (y * of_nat VGA_WIDTH + x) :: u16;
          s = outb B 0x3D4 0x0F s;
          s = outb B 0x3D5 (ucast (pos AND 0xFF)) s;
          s = outb B 0x3D4 0x0E s
      in outb B 0x3D5 (ucast (drop_bit 8 pos AND 0xFF)) s)"

definition get_cursor_position :: "'d bus \<Rightarrow> ('d, 'z) hw_scheme \<Rightarrow> u16 \<times> ('d, 'z) hw_scheme" where
  "get_cursor_position B s =
     (let s = outb B 0x3D4 0x0F s;
          (v, s) = inb B 0x3D5 s;
          pos = 0 OR ucast v :: u16;
          s = outb B 0x3D4 0x0E s;
          (v, s) = inb B 0x3D5 s
      in (pos OR push_bit 8 (ucast v), s))"

definition terminal_putentryat ::
  "'d bus \<Rightarrow> u8 \<Rightarrow> u8 \<Rightarrow> u32 \<Rightarrow> u32 \<Rightarrow> ('d, 'z) tty_scheme \<Rightarrow> ('d, 'z) tty_scheme" where
  "terminal_putentryat B c color x y s =
     update_cursor B (x + 1) y (put_cell (y * of_nat VGA_WIDTH + x) (vga_entry c color) s)"

definition terminal_scroll :: "('d, 'z) tty_scheme \<Rightarrow> ('d, 'z) tty_scheme" where
  "terminal_scroll s = terminal_initialize s"

definition terminal_putchar :: "'d bus \<Rightarrow> u8 \<Rightarrow> ('d, 'z) tty_scheme \<Rightarrow> ('d, 'z) tty_scheme" where
  "terminal_putchar B c s =
     (let s = (if terminal_row s = of_nat (VGA_HEIGHT - 1) then terminal_scroll s else s);
          s = terminal_putentryat B c (terminal_color s) (terminal_column s) (terminal_row s) s;
          s = s\<lparr>terminal_column := terminal_column s + 1\<rparr>
      in if terminal_column s = of_nat VGA_WIDTH then
           let s = s\<lparr>terminal_column := 0, terminal_row := terminal_row s + 1\<rparr>
           in if terminal_row s = of_nat VGA_HEIGHT then s\<lparr>terminal_row := 0\<rparr> else s
         else s)"

text \<open>
  \<open>terminal_write\<close> takes the bytes it is to write; \<open>terminal_writestring\<close> takes the
  contents of the C string, the bytes before its NUL.
\<close>

definition terminal_write :: "'d bus \<Rightarrow> u8 list \<Rightarrow> ('d, 'z) tty_scheme \<Rightarrow> ('d, 'z) tty_scheme" where
  "terminal_write B data s = fold (terminal_putchar B) data s"

definition terminal_writestring ::
  "'d bus \<Rightarrow> u8 list \<Rightarrow> ('d, 'z) tty_scheme \<Rightarrow> ('d, 'z) tty_scheme" where
  "terminal_writestring B data s = terminal_write B data s"

definition terminal_newline :: "('d, 'z) tty_scheme \<Rightarrow> ('d, 'z) tty_scheme" where
  "terminal_newline s =
     (let s = s\<lparr>terminal_row := terminal_row s + 1, terminal_column := 0\<rparr>
      in if terminal_row s = of_nat VGA_HEIGHT
         then (fill_screen (s\<lparr>terminal_buffer := 0xB8000\<rparr>))\<lparr>terminal_row := 0, terminal_column := 0\<rparr>
         else s)"

definition addevent :: "event \<Rightarrow> ('d, 'z) tty_scheme \<Rightarrow> ('d, 'z) tty_scheme" where
  "addevent new_event s =
     (if length (eventlog s) < MAX_EVENTS then s\<lparr>eventlog := eventlog s @ [new_event]\<rparr> else s)"

text \<open>\<open>task\<close>: a line of the boot log with its state, 0 waiting, 1 ok, 2 failed.\<close>

definition task :: "'d bus \<Rightarrow> string \<Rightarrow> int \<Rightarrow> ('d, 'z) tty_scheme \<Rightarrow> ('d, 'z) tty_scheme" where
  "task B name state s =
     (let s = terminal_newline s;
          s = addevent (EventInt state) s;
          s = addevent (EventText (lit name)) s
      in if state = 0 then
           let s = terminal_writestring B (lit ''[      ] '') s
           in terminal_writestring B (lit name) s
         else if state = 1 then
           let s = terminal_writestring B (lit ''[  '') s;
               s = s\<lparr>terminal_color := attribute VGA_COLOR_LIGHT_GREEN VGA_COLOR_BLACK\<rparr>;
               s = terminal_writestring B (lit ''OK'') s;
               s = s\<lparr>terminal_color := attribute VGA_COLOR_WHITE VGA_COLOR_BLACK\<rparr>;
               s = terminal_writestring B (lit ''  ] '') s
           in terminal_writestring B (lit name) s
         else if state = 2 then
           let s = terminal_writestring B (lit ''[ '') s;
               s = s\<lparr>terminal_color := attribute VGA_COLOR_LIGHT_RED VGA_COLOR_BLACK\<rparr>;
               s = terminal_writestring B (lit ''FAIL'') s;
               s = s\<lparr>terminal_color := attribute VGA_COLOR_WHITE VGA_COLOR_BLACK\<rparr>;
               s = terminal_writestring B (lit '' ] '') s
           in terminal_writestring B (lit name) s
         else s)"

subsection \<open>The invariant and the frame\<close>

text \<open>
  The cursor is on the screen and the buffer pointer is the start of the text memory, of
  4000 bytes. No operation of the console writes any other byte.
\<close>

definition tty_ok :: "('d, 'z) tty_scheme \<Rightarrow> bool" where
  "tty_ok s \<longleftrightarrow> terminal_row s < 25 \<and> terminal_column s < 80 \<and> terminal_buffer s = VGA_MEMORY"

definition screen_frame :: "('d, 'z) tty_scheme \<Rightarrow> ('d, 'z) tty_scheme \<Rightarrow> bool" where
  "screen_frame s s' \<longleftrightarrow> (\<forall>a. \<not> in_block VGA_MEMORY 4000 a \<longrightarrow> ram s' a = ram s a)
     \<and> tty.more s' = tty.more s"

lemmas vga_simps = VGA_WIDTH_def VGA_HEIGHT_def VGA_MEMORY_def

lemma outb_frame [simp, frame_simps]:
  fixes s :: "('d, 'z) tty_scheme"
  shows "ram (outb B p v s) = ram s" "tty.more (outb B p v s) = tty.more s"
    "terminal_row (outb B p v s) = terminal_row s" "terminal_column (outb B p v s) = terminal_column s"
    "terminal_color (outb B p v s) = terminal_color s" "terminal_buffer (outb B p v s) = terminal_buffer s"
    "waitwrite (outb B p v s) = waitwrite s" "eventlog (outb B p v s) = eventlog s"
    "havebeeninitbefore (outb B p v s) = havebeeninitbefore s"
  by (simp_all add: outb_def)

lemma update_cursor_frame [simp, frame_simps]:
  fixes s :: "('d, 'z) tty_scheme"
  shows "ram (update_cursor B x y s) = ram s" "tty.more (update_cursor B x y s) = tty.more s"
    "terminal_row (update_cursor B x y s) = terminal_row s"
    "terminal_column (update_cursor B x y s) = terminal_column s"
    "terminal_color (update_cursor B x y s) = terminal_color s"
    "terminal_buffer (update_cursor B x y s) = terminal_buffer s"
    "waitwrite (update_cursor B x y s) = waitwrite s" "eventlog (update_cursor B x y s) = eventlog s"
    "havebeeninitbefore (update_cursor B x y s) = havebeeninitbefore s"
  by (simp_all add: update_cursor_def Let_def)

lemma screen_frame_refl [simp]: "screen_frame s s"
  by (simp add: screen_frame_def)

lemma screen_frame_trans: "screen_frame s t \<Longrightarrow> screen_frame t u \<Longrightarrow> screen_frame s u"
  by (auto simp: screen_frame_def)

text \<open>Filling the screen in closed form.\<close>

lemma fill_screen_eq:
  "fill_screen s = s\<lparr>ram := fold (\<lambda>i. poke16 (terminal_buffer s + 2 * of_nat i)
     (vga_entry 0x20 (terminal_color s))) [0..<2000] (ram s)\<rparr>"
proof -
  let ?f = "\<lambda>i s. put_cell (of_nat i) (vga_entry 0x20 (terminal_color s)) s"
  have "fold ?f xs s = s\<lparr>ram := fold (\<lambda>i. poke16 (terminal_buffer s + 2 * of_nat i)
      (vga_entry 0x20 (terminal_color s))) xs (ram s)\<rparr>" for xs
    by (induction xs arbitrary: s) (simp_all add: put_cell_def)
  moreover have "fill_screen s = fold ?f [0..<2000] s"
    using fun_cong [OF fold_rows [of ?f 80 25], of s] by (simp add: fill_screen_def vga_simps)
  ultimately show ?thesis by simp
qed

lemma fill_screen_frame [simp, frame_simps]:
  "terminal_row (fill_screen s) = terminal_row s" "terminal_column (fill_screen s) = terminal_column s"
  "terminal_color (fill_screen s) = terminal_color s" "terminal_buffer (fill_screen s) = terminal_buffer s"
  "waitwrite (fill_screen s) = waitwrite s" "eventlog (fill_screen s) = eventlog s"
  "havebeeninitbefore (fill_screen s) = havebeeninitbefore s" "tty.more (fill_screen s) = tty.more s"
  "dev (fill_screen s) = dev s"
  by (simp_all add: fill_screen_eq)

text \<open>The cells of the screen.\<close>

definition cell :: "('d, 'z) hw_scheme \<Rightarrow> nat \<Rightarrow> u16" where
  "cell s i = peek16 (ram s) (VGA_MEMORY + 2 * of_nat i)"

lemma fill_screen_cell:
  "i < 2000 \<Longrightarrow> terminal_buffer s = VGA_MEMORY \<Longrightarrow>
     cell (fill_screen s) i = vga_entry 0x20 (terminal_color s)"
  by (simp add: fill_screen_eq cell_def peek16_fill16)

lemma fill_screen_outside:
  "terminal_buffer s = VGA_MEMORY \<Longrightarrow> \<not> in_block VGA_MEMORY 4000 a \<Longrightarrow> ram (fill_screen s) a = ram s a"
  by (simp add: fill_screen_eq fill16)

lemma put_cell_cell:
  "i < 2000 \<Longrightarrow> j < 2000 \<Longrightarrow> terminal_buffer s = VGA_MEMORY \<Longrightarrow>
     cell (put_cell (of_nat i) v s) j = (if j = i then v else cell s j)"
  using peek16_poke16_other [of i j VGA_MEMORY v "ram s"] by (simp add: put_cell_def cell_def)

lemma put_cell_outside:
  "i < 2000 \<Longrightarrow> terminal_buffer s = VGA_MEMORY \<Longrightarrow> \<not> in_block VGA_MEMORY 4000 a \<Longrightarrow>
     ram (put_cell (of_nat i) v s) a = ram s a"
  by (simp add: put_cell_def poke16_outside [where n = 2000])

lemma put_cell_frame [simp, frame_simps]:
  "terminal_row (put_cell i v s) = terminal_row s" "terminal_column (put_cell i v s) = terminal_column s"
  "terminal_color (put_cell i v s) = terminal_color s" "terminal_buffer (put_cell i v s) = terminal_buffer s"
  "waitwrite (put_cell i v s) = waitwrite s" "eventlog (put_cell i v s) = eventlog s"
  "havebeeninitbefore (put_cell i v s) = havebeeninitbefore s" "tty.more (put_cell i v s) = tty.more s"
  "dev (put_cell i v s) = dev s"
  by (simp_all add: put_cell_def)

lemma cell_cong [simp]:
  "cell (s\<lparr>terminal_row := r\<rparr>) = cell s" "cell (s\<lparr>terminal_column := c\<rparr>) = cell s"
  "cell (s\<lparr>terminal_color := k\<rparr>) = cell s" "cell (s\<lparr>terminal_buffer := b\<rparr>) = cell s"
  "cell (s\<lparr>havebeeninitbefore := h\<rparr>) = cell s" "cell (s\<lparr>waitwrite := w\<rparr>) = cell s"
  "cell (s\<lparr>eventlog := e\<rparr>) = cell s" "cell (update_cursor B x y s) = cell s"
  by (simp_all add: fun_eq_iff cell_def update_cursor_def outb_def Let_def)

lemma terminal_initialize_state [simp, frame_simps]:
  "terminal_row (terminal_initialize s) = 1"
  "terminal_column (terminal_initialize s) = terminal_column s"
  "terminal_color (terminal_initialize s) = attribute VGA_COLOR_WHITE VGA_COLOR_BLACK"
  "terminal_buffer (terminal_initialize s) = VGA_MEMORY"
  "waitwrite (terminal_initialize s) = waitwrite s" "eventlog (terminal_initialize s) = eventlog s"
  "tty.more (terminal_initialize s) = tty.more s" "dev (terminal_initialize s) = dev s"
  "havebeeninitbefore (terminal_initialize s)"
  by (simp_all add: terminal_initialize_def Let_def vga_simps)

lemma terminal_initialize_cell:
  "i < 2000 \<Longrightarrow>
     cell (terminal_initialize s) i = vga_entry 0x20 (attribute VGA_COLOR_WHITE VGA_COLOR_BLACK)"
  by (simp add: terminal_initialize_def Let_def fill_screen_cell VGA_MEMORY_def)

lemma terminal_initialize_outside:
  "\<not> in_block VGA_MEMORY 4000 a \<Longrightarrow> ram (terminal_initialize s) a = ram s a"
  by (simp add: terminal_initialize_def Let_def fill_screen_outside VGA_MEMORY_def)

subsection \<open>The console refines a cell array with a cursor\<close>

text \<open>
  The abstract console: a cursor position counted in cells, the current attribute and the
  2000 cells. Writing a character in the bottom row first clears the screen, moves to the
  second row and resets the attribute: that is what \<open>terminal_scroll\<close> does.
\<close>

record console =
  cursor :: nat
  attr :: u8
  cells :: "u16 list"

definition blank :: "u8 \<Rightarrow> u16 list" where
  "blank a = replicate 2000 (vga_entry 0x20 a)"

definition console_scroll :: "console \<Rightarrow> console" where
  "console_scroll c =
     (let a = attribute VGA_COLOR_WHITE VGA_COLOR_BLACK
      in \<lparr>cursor = 80 + cursor c mod 80, attr = a, cells = blank a\<rparr>)"

definition console_put :: "u8 \<Rightarrow> console \<Rightarrow> console" where
  "console_put ch c =
     (let c = (if 1920 \<le> cursor c then console_scroll c else c)
      in c\<lparr>cursor := cursor c + 1, cells := (cells c)[cursor c := vga_entry ch (attr c)]\<rparr>)"

definition console_newline :: "console \<Rightarrow> console" where
  "console_newline c =
     (if 1920 \<le> cursor c then c\<lparr>cursor := 0, cells := blank (attr c)\<rparr>
      else c\<lparr>cursor := (cursor c div 80 + 1) * 80\<rparr>)"

definition console_of :: "('d, 'z) tty_scheme \<Rightarrow> console" where
  "console_of s =
     \<lparr>cursor = unat (terminal_row s) * 80 + unat (terminal_column s), attr = terminal_color s,
      cells = map (cell s) [0..<2000]\<rparr>"

lemma tty_okD:
  assumes "tty_ok s"
  shows "unat (terminal_row s) < 25" "unat (terminal_column s) < 80"
    "terminal_row s * of_nat VGA_WIDTH + terminal_column s =
       of_nat (unat (terminal_row s) * 80 + unat (terminal_column s))"
  using assms by (simp_all add: tty_ok_def vga_simps word_less_nat_alt)

lemma blank_map: "(\<And>i. i < 2000 \<Longrightarrow> f i = vga_entry 0x20 a) \<Longrightarrow> map f [0..<2000] = blank a"
  by (auto simp: blank_def list_eq_iff_nth_eq)

lemma console_scroll_refines:
  "tty_ok s \<Longrightarrow> console_of (terminal_scroll s) = console_scroll (console_of s) \<and> tty_ok (terminal_scroll s)"
  using tty_okD [of s]
  by (simp add: console_of_def console_scroll_def terminal_scroll_def terminal_initialize_cell
      blank_map Let_def tty_ok_def)

text \<open>Drawing in a row above the bottom one, and advancing the cursor.\<close>

lemma put_above_bottom:
  assumes ok: "tty_ok s" and r: "unat (terminal_row s) < 24"
  defines "p \<equiv> unat (terminal_row s) * 80 + unat (terminal_column s)"
  shows "console_of (terminal_putchar B c s) = (console_of s)\<lparr>cursor := p + 1,
           cells := (cells (console_of s))[p := vga_entry c (terminal_color s)]\<rparr>"
    "tty_ok (terminal_putchar B c s)" "screen_frame s (terminal_putchar B c s)"
proof -
  note d = tty_okD [OF ok]
  have nb: "terminal_row s \<noteq> of_nat (VGA_HEIGHT - 1)"
    using r by (auto simp: vga_simps word_unat_eq_iff)
  define t where "t = terminal_putentryat B c (terminal_color s) (terminal_column s) (terminal_row s) s"
  have s: "t = update_cursor B (terminal_column s + 1) (terminal_row s)
      (put_cell (of_nat p) (vga_entry c (terminal_color s)) s)"
    using d(3) by (simp add: terminal_putentryat_def p_def t_def)
  have p: "p < 2000" "terminal_buffer s = VGA_MEMORY"
    using d(1,2) ok by (auto simp: p_def tty_ok_def)
  have t: "terminal_row t = terminal_row s" "terminal_column t = terminal_column s"
    "terminal_color t = terminal_color s" "terminal_buffer t = terminal_buffer s"
    by (simp_all add: s)
  have cells: "map (cell t) [0..<2000] = (map (cell s) [0..<2000])[p := vga_entry c (terminal_color s)]"
    using p unfolding s by (auto simp: list_eq_iff_nth_eq nth_list_update put_cell_cell)
  have col: "terminal_column s + 1 = of_nat VGA_WIDTH \<longleftrightarrow> unat (terminal_column s) = 79"
    using d(2) by (auto simp: vga_simps word_unat_eq_iff unat_word_ariths)
  have row: "terminal_row s + 1 \<noteq> of_nat VGA_HEIGHT" "unat (terminal_row s + 1) = unat (terminal_row s) + 1"
    using r by (auto simp: vga_simps word_unat_eq_iff unat_word_ariths)
  have colS: "unat (terminal_column s) \<noteq> 79 \<Longrightarrow> unat (terminal_column s + 1) = unat (terminal_column s) + 1"
    using d(2) by (simp add: unat_word_ariths)
  have eq: "terminal_putchar B c s =
      (if unat (terminal_column s) = 79 then t\<lparr>terminal_column := 0, terminal_row := terminal_row s + 1\<rparr>
       else t\<lparr>terminal_column := terminal_column s + 1\<rparr>)"
    using nb col row by (simp add: terminal_putchar_def Let_def t_def [symmetric] t)
  show "console_of (terminal_putchar B c s) = (console_of s)\<lparr>cursor := p + 1,
      cells := (cells (console_of s))[p := vga_entry c (terminal_color s)]\<rparr>"
    using d row colS cells unfolding eq by (auto simp: console_of_def p_def t)
  show "tty_ok (terminal_putchar B c s)"
    using d row colS ok r unfolding eq by (auto simp: t tty_ok_def word_less_nat_alt)
  show "screen_frame s (terminal_putchar B c s)"
    unfolding eq using p by (auto simp: s screen_frame_def put_cell_outside)
qed

lemma terminal_putchar_scroll:
  assumes "tty_ok s" "terminal_row s = 24"
  shows "terminal_putchar B c s = terminal_putchar B c (terminal_scroll s)"
  using assms by (simp add: terminal_putchar_def vga_simps Let_def terminal_scroll_def)

lemma scroll_frame: "screen_frame s (terminal_scroll s)"
  by (simp add: screen_frame_def terminal_scroll_def terminal_initialize_outside)

lemma terminal_putchar_refines:
  assumes ok: "tty_ok s"
  shows "console_of (terminal_putchar B c s) = console_put c (console_of s)"
    "tty_ok (terminal_putchar B c s)" "screen_frame s (terminal_putchar B c s)"
proof -
  have *: "console_of (terminal_putchar B c s) = console_put c (console_of s)
    \<and> tty_ok (terminal_putchar B c s) \<and> screen_frame s (terminal_putchar B c s)"
  proof (cases "terminal_row s = 24")
    case True
    let ?t = "terminal_scroll s"
    have t: "tty_ok ?t" "console_of ?t = console_scroll (console_of s)" "unat (terminal_row ?t) < 24"
      using console_scroll_refines [OF ok] by (simp_all add: terminal_scroll_def)
    have "1920 \<le> cursor (console_of s)"
      using True by (simp add: console_of_def)
    moreover have "cursor (console_of ?t) = unat (terminal_row ?t) * 80 + unat (terminal_column ?t)"
      "attr (console_of ?t) = terminal_color ?t"
      by (simp_all add: console_of_def)
    ultimately show ?thesis
      using put_above_bottom [OF t(1,3), of B c] screen_frame_trans [OF scroll_frame]
      unfolding terminal_putchar_scroll [OF ok True] by (simp add: console_put_def t(2) Let_def)
  next
    case False
    then have r: "unat (terminal_row s) < 24"
      using tty_okD(1) [OF ok] by (auto simp: word_unat_eq_iff)
    then have "cursor (console_of s) < 1920"
      using tty_okD(2) [OF ok] by (simp add: console_of_def)
    then show ?thesis
      using put_above_bottom [OF ok r, of B c] by (simp add: console_put_def Let_def console_of_def)
  qed
  then show "console_of (terminal_putchar B c s) = console_put c (console_of s)"
    "tty_ok (terminal_putchar B c s)" "screen_frame s (terminal_putchar B c s)"
    by simp_all
qed

lemma terminal_newline_refines:
  assumes ok: "tty_ok s"
  shows "console_of (terminal_newline s) = console_newline (console_of s)"
    "tty_ok (terminal_newline s)" "screen_frame s (terminal_newline s)"
proof -
  note d = tty_okD [OF ok]
  have "terminal_row s + 1 = of_nat VGA_HEIGHT \<longleftrightarrow> unat (terminal_row s) = 24"
    "unat (terminal_row s) \<noteq> 24 \<Longrightarrow> unat (terminal_row s + 1) = unat (terminal_row s) + 1"
    using d(1) by (auto simp: vga_simps word_unat_eq_iff unat_word_ariths)
  moreover have "1920 \<le> unat (terminal_row s) * 80 + unat (terminal_column s) \<longleftrightarrow> unat (terminal_row s) = 24"
    "(unat (terminal_row s) * 80 + unat (terminal_column s)) div 80 = unat (terminal_row s)"
    using d by auto
  ultimately show "console_of (terminal_newline s) = console_newline (console_of s)"
    "tty_ok (terminal_newline s)" "screen_frame s (terminal_newline s)"
    using d ok
    by (auto simp: terminal_newline_def Let_def console_of_def console_newline_def fill_screen_cell
        VGA_MEMORY_def [symmetric] tty_ok_def screen_frame_def fill_screen_outside word_less_nat_alt intro!: blank_map)
qed

text \<open>The console fulfils the contract of an output operation.\<close>

interpretation scr: writer tty_ok screen_frame "terminal_putchar B" for B
  by unfold_locales
    (auto intro: terminal_putchar_refines screen_frame_trans)

lemma terminal_write_ok:
  assumes "tty_ok s"
  shows "tty_ok (terminal_write B cs s)" "screen_frame s (terminal_write B cs s)"
    "console_of (terminal_write B cs s) = fold console_put cs (console_of s)"
proof -
  show "tty_ok (terminal_write B cs s)" "screen_frame s (terminal_write B cs s)"
    using assms scr.inv_fold scr.frame_fold by (auto simp: terminal_write_def)
  show "console_of (terminal_write B cs s) = fold console_put cs (console_of s)"
    using assms by (induction cs arbitrary: s) (simp_all add: terminal_write_def terminal_putchar_refines)
qed

text \<open>Text that ends above the bottom row is laid out from the cursor on.\<close>

lemma console_put_text:
  "cursor c + length cs \<le> 1920 \<Longrightarrow> length (cells c) = 2000 \<Longrightarrow>
     fold console_put cs c = c\<lparr>cursor := cursor c + length cs,
       cells := take (cursor c) (cells c) @ map (\<lambda>ch. vga_entry ch (attr c)) cs
                @ drop (cursor c + length cs) (cells c)\<rparr>"
proof (induction cs arbitrary: c)
  case (Cons ch cs)
  then show ?case
    by (simp add: console_put_def Let_def upd_conv_take_nth_drop add.commute)
qed simp

subsection \<open>Sequences of console operations\<close>

text \<open>
  \<open>console_step s t\<close>: the state \<open>t\<close> is reached from \<open>s\<close> within the frame, with the
  invariant intact. The collection \<open>console_intros\<close> has a rule per operation, so that a
  straight-line sequence of them is checked by applying the rules.
\<close>

definition console_step :: "('d, 'z) tty_scheme \<Rightarrow> ('d, 'z) tty_scheme \<Rightarrow> bool" where
  "console_step s t \<longleftrightarrow> tty_ok t \<and> screen_frame s t"

named_theorems console_intros

lemma console_step_refl [console_intros]: "tty_ok s \<Longrightarrow> console_step s s"
  by (simp add: console_step_def)

lemma console_step_trans: "console_step s t \<Longrightarrow> console_step t u \<Longrightarrow> console_step s u"
  by (auto simp: console_step_def intro: screen_frame_trans)

lemma console_step_extend:
  "console_step s t \<Longrightarrow> (tty_ok t \<Longrightarrow> tty_ok u \<and> screen_frame t u) \<Longrightarrow> console_step s u"
  by (auto simp: console_step_def intro: screen_frame_trans)

lemma console_step_putchar [console_intros]:
  "console_step s t \<Longrightarrow> console_step s (terminal_putchar B c t)"
  by (erule console_step_extend) (simp add: terminal_putchar_refines)

lemma console_step_write [console_intros]:
  "console_step s t \<Longrightarrow> console_step s (terminal_write B cs t)"
  by (erule console_step_extend) (simp add: terminal_write_ok)

lemma console_step_writestring [console_intros]:
  "console_step s t \<Longrightarrow> console_step s (terminal_writestring B cs t)"
  by (simp add: terminal_writestring_def console_step_write)

lemma console_step_newline [console_intros]:
  "console_step s t \<Longrightarrow> console_step s (terminal_newline t)"
  by (erule console_step_extend) (simp add: terminal_newline_refines)

lemma console_step_initialize [console_intros]:
  "console_step s t \<Longrightarrow> console_step s (terminal_initialize t)"
  by (erule console_step_extend)
    (simp add: tty_ok_def screen_frame_def terminal_initialize_outside)

lemma console_step_fill [console_intros]:
  "console_step s t \<Longrightarrow> console_step s (fill_screen t)"
  by (erule console_step_extend) (simp add: tty_ok_def screen_frame_def fill_screen_outside)

lemma console_step_color [console_intros]:
  "console_step s t \<Longrightarrow> console_step s (t\<lparr>terminal_color := k\<rparr>)"
  by (erule console_step_extend) (simp add: tty_ok_def screen_frame_def)

lemma console_step_row [console_intros]:
  "console_step s t \<Longrightarrow> r < 25 \<Longrightarrow> console_step s (t\<lparr>terminal_row := r\<rparr>)"
  by (erule console_step_extend) (simp add: tty_ok_def screen_frame_def)

lemma console_step_column [console_intros]:
  "console_step s t \<Longrightarrow> c < 80 \<Longrightarrow> console_step s (t\<lparr>terminal_column := c\<rparr>)"
  by (erule console_step_extend) (simp add: tty_ok_def screen_frame_def)

lemma console_step_buffer [console_intros]:
  "console_step s t \<Longrightarrow> console_step s (t\<lparr>terminal_buffer := 0xB8000\<rparr>)"
  by (erule console_step_extend) (simp add: tty_ok_def screen_frame_def VGA_MEMORY_def)

lemma console_step_waitwrite [console_intros]:
  "console_step s t \<Longrightarrow> console_step s (t\<lparr>waitwrite := w\<rparr>)"
  by (erule console_step_extend) (simp add: tty_ok_def screen_frame_def)

lemma console_step_event [console_intros]:
  "console_step s t \<Longrightarrow> console_step s (addevent e t)"
  by (erule console_step_extend) (simp add: tty_ok_def screen_frame_def addevent_def)

lemma console_step_outb [console_intros]:
  "console_step s t \<Longrightarrow> console_step s (outb B p v t)"
  by (erule console_step_extend) (simp add: tty_ok_def screen_frame_def)

lemma console_step_cursor [console_intros]:
  "console_step s t \<Longrightarrow> console_step s (update_cursor B x y t)"
  by (erule console_step_extend) (simp add: tty_ok_def screen_frame_def)

lemma console_step_task [console_intros]:
  "console_step s t \<Longrightarrow> console_step s (task B name state t)"
  by (auto simp: task_def Let_def intro!: console_intros)

lemma tty_ok_task: "tty_ok s \<Longrightarrow> tty_ok (task B name state s)"
  using console_step_task [OF console_step_refl, of s B name state] by (simp add: console_step_def)

subsection \<open>The boot log\<close>

text \<open>Drawing never touches the event log, so \<open>task\<close> adds its two entries and nothing else.\<close>

lemma terminal_putchar_eventlog [simp]: "eventlog (terminal_putchar B c s) = eventlog s"
  by (simp add: terminal_putchar_def terminal_putentryat_def terminal_scroll_def Let_def)

lemma terminal_write_eventlog [simp]: "eventlog (terminal_write B cs s) = eventlog s"
  by (induction cs arbitrary: s) (simp_all add: terminal_write_def)

lemma terminal_newline_eventlog [simp]: "eventlog (terminal_newline s) = eventlog s"
  by (simp add: terminal_newline_def Let_def)

lemma task_eventlog:
  assumes "length (eventlog s) + 2 \<le> MAX_EVENTS"
  shows "eventlog (task B name state s) = eventlog s @ [EventInt state, EventText (lit name)]"
  using assms
  by (simp add: task_def Let_def terminal_writestring_def addevent_def)

lemma task_eventlog_bound:
  "length (eventlog s) \<le> MAX_EVENTS \<Longrightarrow> length (eventlog (task B name state s)) \<le> MAX_EVENTS"
  by (simp add: task_def Let_def terminal_writestring_def addevent_def)

subsection \<open>The hardware cursor\<close>

text \<open>
  What the code relies on of the CRT controller: port \<open>0x3D4\<close> selects a register and port
  \<open>0x3D5\<close> reads and writes the selected one.
\<close>

definition crtc :: "'d bus \<Rightarrow> ('d \<Rightarrow> u8) \<Rightarrow> ('d \<Rightarrow> u8 \<Rightarrow> u8) \<Rightarrow> bool" where
  "crtc B sel reg \<longleftrightarrow>
     (\<forall>d v. sel (bus_outb B 0x3D4 v d) = v \<and> reg (bus_outb B 0x3D4 v d) = reg d)
   \<and> (\<forall>d v. sel (bus_outb B 0x3D5 v d) = sel d \<and> reg (bus_outb B 0x3D5 v d) = (reg d)(sel d := v))
   \<and> (\<forall>d. fst (bus_inb B 0x3D5 d) = reg d (sel d) \<and> sel (snd (bus_inb B 0x3D5 d)) = sel d
        \<and> reg (snd (bus_inb B 0x3D5 d)) = reg d)"

text \<open>The position the controller shows its cursor at.\<close>

definition hw_cursor :: "('d \<Rightarrow> u8 \<Rightarrow> u8) \<Rightarrow> ('d, 'z) hw_scheme \<Rightarrow> u16" where
  "hw_cursor reg s = le16 (reg (dev s) 0x0F) (reg (dev s) 0x0E)"

lemma get_cursor_hw:
  assumes "crtc B sel reg"
  shows "fst (get_cursor_position B s) = hw_cursor reg s"
    "hw_cursor reg (snd (get_cursor_position B s)) = hw_cursor reg s"
  using assms
  by (simp_all add: crtc_def get_cursor_position_def hw_cursor_def outb_def inb_def Let_def
      case_prod_beta le16_def)

lemma update_cursor_hw:
  assumes "crtc B sel reg"
  shows "hw_cursor reg (update_cursor B x y s) = ucast (y * 80 + x)"
  using assms
  by (simp add: crtc_def update_cursor_def hw_cursor_def outb_def Let_def vga_simps le16_bytes16)

lemma hw_cursor_cong [simp]:
  "hw_cursor reg (s\<lparr>terminal_row := r\<rparr>) = hw_cursor reg s"
  "hw_cursor reg (s\<lparr>terminal_column := c\<rparr>) = hw_cursor reg s"
  by (simp_all add: hw_cursor_def)

text \<open>After a character is written the two cursors agree.\<close>

lemma putchar_hw_cursor_row:
  assumes "terminal_row s \<noteq> 24"
  shows "hw_cursor reg (terminal_putchar B c s) =
    hw_cursor reg (update_cursor B (terminal_column s + 1) (terminal_row s)
      (put_cell (terminal_row s * 80 + terminal_column s) (vga_entry c (terminal_color s)) s))"
  using assms by (simp add: terminal_putchar_def terminal_putentryat_def vga_simps Let_def)

lemma putchar_hw_cursor:
  assumes crtc: "crtc B sel reg" and ok: "tty_ok s"
  shows "hw_cursor reg (terminal_putchar B c s) = of_nat (cursor (console_of (terminal_putchar B c s)))"
proof -
  have *: "hw_cursor reg (terminal_putchar B c t) = of_nat (cursor (console_of (terminal_putchar B c t)))"
    if t: "tty_ok t" "unat (terminal_row t) < 24" for t :: "('a, 'b) tty_scheme"
  proof -
    have "terminal_row t \<noteq> 24" using t(2) by auto
    moreover have "terminal_row t * 80 + (terminal_column t + 1) =
        of_nat (unat (terminal_row t) * 80 + unat (terminal_column t) + 1)"
      by simp
    then have "ucast (terminal_row t * 80 + (terminal_column t + 1)) =
        (of_nat (unat (terminal_row t) * 80 + unat (terminal_column t) + 1) :: u16)"
      using tty_okD(1,2) [OF t(1)] ucast_of_nat32 [of "unat (terminal_row t) * 80 + unat (terminal_column t) + 1"]
      by (simp add: algebra_simps)
    ultimately show ?thesis
      using put_above_bottom(1) [OF t, of B c]
      by (simp add: putchar_hw_cursor_row update_cursor_hw [OF crtc])
  qed
  show ?thesis
  proof (cases "terminal_row s = 24")
    case True
    then show ?thesis
      using * [of "terminal_scroll s"] console_scroll_refines [OF ok]
      by (simp add: terminal_putchar_scroll [OF ok True] terminal_scroll_def)
  next
    case False
    then show ?thesis
      using * [OF ok] tty_okD(1) [OF ok] by (auto simp: word_unat_eq_iff)
  qed
qed

subsection \<open>Other devices\<close>

text \<open>A part of the device state that the two ports of the display controller do not reach is not
  touched by terminal output.\<close>

definition off_video :: "'d bus \<Rightarrow> ('d \<Rightarrow> 'a) \<Rightarrow> bool" where
  "off_video B f \<longleftrightarrow> (\<forall>v d. f (bus_outb B 0x3D4 v d) = f d \<and> f (bus_outb B 0x3D5 v d) = f d)"

lemma off_video_outb:
  assumes "off_video B f" "p = 0x3D4 \<or> p = 0x3D5"
  shows "f (dev (outb B p v s)) = f (dev s)"
  using assms by (auto simp: off_video_def outb_def)

lemma dev_terminal_newline [simp]: "dev (terminal_newline s) = dev s"
  by (simp add: terminal_newline_def Let_def)

lemma dev_addevent [simp]: "dev (addevent e s) = dev s"
  by (simp add: addevent_def)

lemma more_terminal_newline [simp]: "tty.more (terminal_newline s) = tty.more s"
  by (simp add: terminal_newline_def terminal_scroll_def Let_def)

lemma more_addevent [simp]: "tty.more (addevent e s) = tty.more s"
  by (simp add: addevent_def)

lemma more_putchar [simp]: "tty.more (terminal_putchar B c s) = tty.more s"
  by (simp add: terminal_putchar_def terminal_putentryat_def update_cursor_def terminal_scroll_def Let_def)

lemma more_writestring [simp]: "tty.more (terminal_writestring B cs s) = tty.more s"
  by (induction cs arbitrary: s) (simp_all add: terminal_writestring_def terminal_write_def)

lemma more_write [simp]: "tty.more (terminal_write B cs s) = tty.more s"
  using more_writestring [of B cs s] by (simp add: terminal_writestring_def)

lemma more_putentryat [simp]: "tty.more (terminal_putentryat B c k x y s) = tty.more s"
  by (simp add: terminal_putentryat_def)

lemma more_task [simp]: "tty.more (task B name state s) = tty.more s"
  by (simp add: task_def Let_def)

text \<open>
  The interface for the components that extend the state of the console: what they see of their own
  state depends on that extension only. Output, and every change of the console's own variables,
  is then invisible to them.
\<close>

locale client =
  fixes view :: "('d, 'z) tty_scheme \<Rightarrow> 'a"
  assumes extension: "tty.more s = tty.more t \<Longrightarrow> view s = view t"
begin

lemma output_kept [simp]:
  "view (terminal_putchar B c s) = view s" "view (terminal_write B cs s) = view s"
  "view (terminal_writestring B cs s) = view s" "view (terminal_newline s) = view s"
  "view (terminal_initialize s) = view s" "view (fill_screen s) = view s" "view (put_cell j e s) = view s"
  "view (terminal_putentryat B c k x y s) = view s" "view (task B name state s) = view s"
  "view (outb B p v s) = view s" "view (update_cursor B x y s) = view s"
  by (rule extension; simp)+

lemma console_fields_kept [simp]:
  "view (s\<lparr>dev := d\<rparr>) = view s" "view (s\<lparr>ram := m\<rparr>) = view s"
  "view (s\<lparr>terminal_row := a\<rparr>) = view s" "view (s\<lparr>terminal_column := a\<rparr>) = view s"
  "view (s\<lparr>terminal_color := k\<rparr>) = view s" "view (s\<lparr>terminal_buffer := a\<rparr>) = view s"
  "view (s\<lparr>waitwrite := b\<rparr>) = view s"
  by (rule extension; simp)+

end

lemma off_video_putchar:
  assumes "off_video B f"
  shows "f (dev (terminal_putchar B c s)) = f (dev s)"
  by (simp add: terminal_putchar_def terminal_putentryat_def update_cursor_def terminal_scroll_def Let_def
      off_video_outb [OF assms])

lemma off_video_writestring:
  assumes "off_video B f"
  shows "f (dev (terminal_writestring B cs s)) = f (dev s)"
  by (induction cs arbitrary: s) (simp_all add: terminal_writestring_def terminal_write_def off_video_putchar [OF assms])

lemma off_video_task:
  assumes "off_video B f"
  shows "f (dev (task B name state s)) = f (dev s)"
  by (simp add: task_def Let_def off_video_writestring [OF assms])

subsection \<open>Properties\<close>

text \<open>C13: writing a character implements the abstract console. From every state with the cursor
  on the screen, \<open>terminal_putchar\<close> stores the character with the current attribute in the cell
  at the cursor and advances the cursor by one cell; in the bottom row it first clears the
  screen, moves to the second row and resets the attribute. The cursor stays on the screen and
  no byte outside the 4000 bytes of text memory changes.\<close>

theorem putchar_refines_console:
  assumes "tty_ok s"
  shows "console_of (terminal_putchar B c s) = console_put c (console_of s)
    \<and> tty_ok (terminal_putchar B c s)
    \<and> (\<forall>a. \<not> in_block VGA_MEMORY 4000 a \<longrightarrow> ram (terminal_putchar B c s) a = ram s a)"
  using terminal_putchar_refines [OF assms] by (simp add: screen_frame_def)

definition idle_bus :: "unit bus" where
  "idle_bus = \<lparr>bus_inb = \<lambda>_ d. (0, d), bus_outb = \<lambda>_ _ d. d, bus_inw = \<lambda>_ d. (0, d),
     bus_outw = \<lambda>_ _ d. d\<rparr>"

definition boot_tty :: "'d \<Rightarrow> 'd tty" where
  "boot_tty d = terminal_initialize \<lparr>dev = d, ram = \<lambda>_. 0, terminal_row = 0, terminal_column = 0,
     terminal_color = 0, terminal_buffer = 0, havebeeninitbefore = False, waitwrite = False,
     eventlog = [EventText (lit ''test'')]\<rparr>"

lemma boot_tty_ok [simp]: "tty_ok (boot_tty d)"
  by (simp add: boot_tty_def tty_ok_def)

lemma boot_tty_console [simp]:
  "cursor (console_of (boot_tty d)) = 80" "terminal_color (boot_tty d) = 0x0F"
  "length (cells (console_of (boot_tty d))) = 2000"
  by (simp_all add: console_of_def boot_tty_def vga_entry_color_def)

theorem putchar_refines_console_witness:
  "cursor (console_of (terminal_putchar idle_bus 65 (boot_tty ()))) = 81"
  using putchar_refines_console [of "boot_tty ()" idle_bus 65]
  by (simp add: console_put_def Let_def)

text \<open>C15: text that ends above the bottom row is shown as it is. If the cursor and the length of the
  string leave it above the bottom row, then after \<open>terminal_writestring\<close> the cells from the old
  cursor on hold its characters in the current attribute, all other cells are as before and the
  cursor is just after the text.\<close>

theorem writestring_shows_text:
  assumes "tty_ok s" "cursor (console_of s) + length cs \<le> 1920"
  shows "console_of (terminal_writestring B cs s) =
    \<lparr>cursor = cursor (console_of s) + length cs, attr = terminal_color s,
     cells = take (cursor (console_of s)) (cells (console_of s))
       @ map (\<lambda>ch. vga_entry ch (terminal_color s)) cs
       @ drop (cursor (console_of s) + length cs) (cells (console_of s))\<rparr>"
  using terminal_write_ok(3) [OF assms(1), of B cs] console_put_text [OF assms(2)]
  by (simp add: terminal_writestring_def) (simp add: console_of_def)

theorem writestring_shows_text_witness:
  "cells (console_of (terminal_writestring idle_bus (lit ''Hi'') (boot_tty ()))) ! 81 = 0x0F69"
  using writestring_shows_text [of "boot_tty ()" "lit ''Hi''" idle_bus]
  by (simp add: nth_append lit_def vga_entry_def)

text \<open>C16: the two cursors agree. After every character written by \<open>terminal_putchar\<close>, the position that
  \<open>get_cursor_position\<close> reads back from the CRT controller is the cell the console will write next,
  provided the controller's index and data ports behave as documented.\<close>

theorem hardware_cursor_follows_console:
  assumes "crtc B sel reg" "tty_ok s"
  shows "fst (get_cursor_position B (terminal_putchar B c s)) =
    of_nat (cursor (console_of (terminal_putchar B c s)))"
  using putchar_hw_cursor [OF assms, of c] get_cursor_hw(1) [OF assms(1)] by metis

text \<open>A controller with an index register and a register file.\<close>

definition crtc_bus :: "(u8 \<times> (u8 \<Rightarrow> u8)) bus" where
  "crtc_bus = \<lparr>bus_inb = \<lambda>p d. (snd d (fst d), d),
     bus_outb = \<lambda>p v d. if p = 0x3D4 then (v, snd d) else (fst d, (snd d)(fst d := v)),
     bus_inw = \<lambda>_ d. (0, d), bus_outw = \<lambda>_ _ d. d\<rparr>"

theorem hardware_cursor_follows_console_witness:
  "fst (get_cursor_position crtc_bus (terminal_putchar crtc_bus 65 (boot_tty (0, \<lambda>_. 0)))) = 81"
  using hardware_cursor_follows_console [of crtc_bus fst snd "boot_tty (0, \<lambda>_. 0)" 65]
    terminal_putchar_refines(1) [of "boot_tty (0, \<lambda>_. 0)" crtc_bus 65]
  by (simp add: crtc_def crtc_bus_def console_put_def Let_def)

end
