(* ===== verification/CString.thy ===== *)
theory CString
  imports Prelude "HOL-Library.List_Lexorder"
begin

section \<open>Memory blocks and C strings\<close>

text \<open>
  The string library: \<^verbatim>\<open>libc/string/*.c\<close> and the copies that
  \<^verbatim>\<open>kernel/arch/i386/tty.c\<close> carries. The block functions work on the flat memory, so
  that overlapping operands are covered. The string functions work on arrays: a pointer
  into an array is the list of the bytes from there to the array's end, and running off
  that end is a fault.
\<close>

subsection \<open>Block functions (libc/string)\<close>

text \<open>\<open>for (i = 0; i < size; i++) dst[i] = src[i];\<close>\<close>

primrec copy_up :: "nat \<Rightarrow> u32 \<Rightarrow> u32 \<Rightarrow> mem \<Rightarrow> mem" where
  "copy_up 0 dst src m = m"
| "copy_up (Suc n) dst src m = copy_up n (dst + 1) (src + 1) (m(dst := m src))"

text \<open>\<open>for (i = size; i != 0; i--) dst[i-1] = src[i-1];\<close>\<close>

primrec copy_down :: "nat \<Rightarrow> u32 \<Rightarrow> u32 \<Rightarrow> mem \<Rightarrow> mem" where
  "copy_down 0 dst src m = m"
| "copy_down (Suc i) dst src m =
     copy_down i dst src (m(dst + of_nat i := m (src + of_nat i)))"

definition memcpy :: "u32 \<Rightarrow> u32 \<Rightarrow> u32 \<Rightarrow> mem \<Rightarrow> mem" where
  "memcpy dst src sz m = copy_up (unat sz) dst src m"

definition memmove :: "u32 \<Rightarrow> u32 \<Rightarrow> u32 \<Rightarrow> mem \<Rightarrow> mem" where
  "memmove dst src sz m =
     (if dst < src then copy_up (unat sz) dst src m else copy_down (unat sz) dst src m)"

primrec set_up :: "nat \<Rightarrow> u32 \<Rightarrow> u8 \<Rightarrow> mem \<Rightarrow> mem" where
  "set_up 0 buf v m = m"
| "set_up (Suc n) buf v m = set_up n (buf + 1) v (m(buf := v))"

text \<open>The value is an \<open>int\<close> cut to an unsigned char.\<close>

definition memset :: "u32 \<Rightarrow> u32 \<Rightarrow> u32 \<Rightarrow> mem \<Rightarrow> mem" where
  "memset buf v sz m = set_up (unat sz) buf (ucast v) m"

primrec memcmp_loop :: "nat \<Rightarrow> u32 \<Rightarrow> u32 \<Rightarrow> mem \<Rightarrow> int" where
  "memcmp_loop 0 a b m = 0"
| "memcmp_loop (Suc n) a b m =
     (if m a < m b then -1 else if m b < m a then 1 else memcmp_loop n (a + 1) (b + 1) m)"

definition memcmp :: "u32 \<Rightarrow> u32 \<Rightarrow> u32 \<Rightarrow> mem \<Rightarrow> int" where
  "memcmp a b sz m = memcmp_loop (unat sz) a b m"

subsection \<open>String functions\<close>

text \<open>\<open>strlen\<close>, in \<^verbatim>\<open>libc/string/strlen.c\<close> and again in tty.c.\<close>

fun strlen_loop :: "u8 list \<Rightarrow> nat \<Rightarrow> nat comp" where
  "strlen_loop [] len = stuck OutOfBounds"
| "strlen_loop (c # cs) len = (if c = 0 then ret len else strlen_loop cs (len + 1))"

definition strlen :: "u8 list \<Rightarrow> nat comp" where
  "strlen str = strlen_loop str 0"

text \<open>\<open>strcmp\<close> of tty.c: the difference of the first differing bytes, unsigned.\<close>

fun strcmp :: "u8 list \<Rightarrow> u8 list \<Rightarrow> int comp" where
  "strcmp [] t = stuck OutOfBounds"
| "strcmp s [] = stuck OutOfBounds"
| "strcmp (a # s) (b # t) =
     (if a \<noteq> 0 \<and> a = b then strcmp s t else ret (uint a - uint b))"

text \<open>\<open>strncmp\<close> of \<^verbatim>\<open>libc/string/strncmp.c\<close>, which the FAT driver is built against.\<close>

fun strncmp :: "u8 list \<Rightarrow> u8 list \<Rightarrow> nat \<Rightarrow> int comp" where
  "strncmp s t 0 = ret 0"
| "strncmp [] t (Suc n) = stuck OutOfBounds"
| "strncmp s [] (Suc n) = stuck OutOfBounds"
| "strncmp (a # s) (b # t) (Suc n) =
     (if a \<noteq> b then ret (if a < b then -1 else 1)
      else if a = 0 then ret 0
      else strncmp s t n)"

text \<open>The second \<open>strncmp\<close>, in tty.c.\<close>

fun strncmp_tty :: "u8 list \<Rightarrow> u8 list \<Rightarrow> nat \<Rightarrow> int comp" where
  "strncmp_tty s t 0 = ret 0"
| "strncmp_tty [] t (Suc n) = stuck OutOfBounds"
| "strncmp_tty s [] (Suc n) = stuck OutOfBounds"
| "strncmp_tty (a # s) (b # t) (Suc n) =
     (if a = 0 \<or> b = 0 then ret (uint a - uint b)
      else if a \<noteq> b then ret (uint a - uint b)
      else strncmp_tty s t n)"

text \<open>\<open>while ((*dest++ = *src++));\<close> The result is the destination array after the call.\<close>

fun strcpy :: "u8 list \<Rightarrow> u8 list \<Rightarrow> u8 list comp" where
  "strcpy dest [] = stuck OutOfBounds"
| "strcpy [] src = stuck OutOfBounds"
| "strcpy (d # dest) (c # src) =
     (if c = 0 then ret (c # dest) else bnd (strcpy dest src) (\<lambda>r. ret (c # r)))"

text \<open>\<open>while (n--) *dest++ = '\0';\<close>\<close>

fun zero_fill :: "u8 list \<Rightarrow> nat \<Rightarrow> u8 list comp" where
  "zero_fill dest 0 = ret dest"
| "zero_fill [] (Suc n) = stuck OutOfBounds"
| "zero_fill (d # dest) (Suc n) = bnd (zero_fill dest n) (\<lambda>r. ret (0 # r))"

text \<open>\<open>strncpy\<close>: the first loop counts \<open>n\<close> down only after a byte other than NUL.\<close>

fun strncpy :: "u8 list \<Rightarrow> u8 list \<Rightarrow> nat \<Rightarrow> u8 list comp" where
  "strncpy dest src 0 = zero_fill dest 0"
| "strncpy dest [] (Suc n) = stuck OutOfBounds"
| "strncpy [] src (Suc n) = stuck OutOfBounds"
| "strncpy (d # dest) (c # src) (Suc n) =
     (if c = 0 then bnd (zero_fill dest (Suc n)) (\<lambda>r. ret (c # r))
      else bnd (strncpy dest src n) (\<lambda>r. ret (c # r)))"

text \<open>\<open>strchr\<close>: the offset of the first occurrence, or NULL. It never finds the NUL itself.\<close>

fun strchr :: "u8 list \<Rightarrow> u8 \<Rightarrow> nat option comp" where
  "strchr [] c = stuck OutOfBounds"
| "strchr (a # s) c =
     (if a = 0 then ret None
      else if a = c then ret (Some 0)
      else bnd (strchr s c) (\<lambda>r. ret (map_option Suc r)))"

text \<open>
  \<open>strtok\<close> works in place on one array \<open>buf\<close>; its pointers, the static \<open>last\<close>
  included, are positions in that array. The two scanning loops move a position.
\<close>

function tok_skip :: "u8 list \<Rightarrow> u8 list \<Rightarrow> nat \<Rightarrow> nat comp" where
  "tok_skip buf delim i =
     (if i < length buf then
        (if buf ! i = 0 then ret i
         else bnd (strchr delim (buf ! i))
           (\<lambda>r. if r \<noteq> None then tok_skip buf delim (Suc i) else ret i))
      else stuck OutOfBounds)"
  by pat_completeness auto
termination
  by (relation "measure (\<lambda>(buf, delim, i). length buf - i)") auto

function tok_end :: "u8 list \<Rightarrow> u8 list \<Rightarrow> nat \<Rightarrow> nat comp" where
  "tok_end buf delim i =
     (if i < length buf then
        (if buf ! i = 0 then ret i
         else bnd (strchr delim (buf ! i))
           (\<lambda>r. if r = None then tok_end buf delim (Suc i) else ret i))
      else stuck OutOfBounds)"
  by pat_completeness auto
termination
  by (relation "measure (\<lambda>(buf, delim, i). length buf - i)") auto

declare tok_skip.simps [simp del] tok_end.simps [simp del]

text \<open>The result: the token's position or NULL, the new \<open>last\<close> and the new array.\<close>

definition strtok ::
  "u8 list \<Rightarrow> nat option \<Rightarrow> nat option \<Rightarrow> u8 list \<Rightarrow> (nat option \<times> nat option \<times> u8 list) comp" where
  "strtok buf str lst delim =
     (case (case str of None \<Rightarrow> lst | Some i \<Rightarrow> Some i) of
        None \<Rightarrow> stuck NullDeref
      | Some i \<Rightarrow>
          bnd (tok_skip buf delim i) (\<lambda>i.
            if buf ! i = 0 then ret (None, None, buf)
            else bnd (tok_end buf delim i) (\<lambda>j.
              if buf ! j \<noteq> 0 then ret (Some i, Some (j + 1), buf[j := 0])
              else ret (Some i, None, buf))))"

subsection \<open>The contents of a C string\<close>

text \<open>The bytes before the first NUL of an array; a fault if it has none.\<close>

fun contents :: "u8 list \<Rightarrow> u8 list comp" where
  "contents [] = stuck OutOfBounds"
| "contents (c # cs) = (if c = 0 then ret [] else bnd (contents cs) (\<lambda>r. ret (c # r)))"

definition terminated :: "u8 list \<Rightarrow> bool" where
  "terminated s \<longleftrightarrow> 0 \<in> set s"

abbreviation text_of :: "u8 list \<Rightarrow> u8 list" where
  "text_of s \<equiv> takeWhile (\<lambda>c. c \<noteq> 0) s"

subsection \<open>Block functions are correct\<close>

lemma copy_up_Suc_last:
  "copy_up (Suc n) dst src m =
     (let m' = copy_up n dst src m in m'(dst + of_nat n := m' (src + of_nat n)))"
proof (induction n arbitrary: dst src m)
  case 0
  then show ?case by simp
next
  case (Suc n)
  have "copy_up (Suc (Suc n)) dst src m = copy_up (Suc n) (dst + 1) (src + 1) (m(dst := m src))"
    by simp
  also have "\<dots> = (let m' = copy_up n (dst + 1) (src + 1) (m(dst := m src)) in
      m'(dst + 1 + of_nat n := m' (src + 1 + of_nat n)))"
    by (rule Suc.IH)
  finally show ?case by (simp only: Let_def copy_up.simps) (simp add: algebra_simps)
qed

lemma mem_read_Suc: "mem_read m a (Suc n) = mem_read m a n @ [m (a + of_nat n)]"
  by (simp add: mem_read_def)

lemma in_block_Suc:
  "n < 2 ^ 32 \<Longrightarrow> in_block a (Suc n) x \<longleftrightarrow> in_block a n x \<or> x = a + of_nat n"
  by (auto simp: in_block_def less_Suc_eq unat_diff_eq)

lemma mem_write_snoc:
  assumes "length bs < 2 ^ 32"
  shows "mem_write m a (bs @ [b]) = (mem_write m a bs)(a + of_nat (length bs) := b)"
proof
  fix x
  show "mem_write m a (bs @ [b]) x = ((mem_write m a bs)(a + of_nat (length bs) := b)) x"
    using assms
    by (auto simp: mem_write_def nth_append less_Suc_eq unat_diff_eq)
qed

lemma mem_write_upd_apart:
  "\<not> in_block a (length bs) x \<Longrightarrow> mem_write (m(x := v)) a bs = (mem_write m a bs)(x := v)"
  by (auto simp: mem_write_def in_block_def fun_eq_iff)

lemma not_in_block_above:
  assumes "unat a + n \<le> 2 ^ 32" "unat b + n < 2 ^ 32" "a \<le> b"
  shows "\<not> in_block a n (b + of_nat n)"
proof -
  have "unat (b + of_nat n) = unat b + n"
    using assms(2) by (simp add: unat_word_ariths unat_of_nat)
  moreover have "unat a \<le> unat b"
    using assms(3) by (simp add: word_le_nat_alt)
  ultimately have "unat (b + of_nat n - a) = unat b + n - unat a"
    by (subst unat_sub) (auto simp: word_le_nat_alt)
  with \<open>unat a \<le> unat b\<close> show ?thesis
    by (simp add: in_block_def)
qed

lemma copy_up_correct:
  assumes "unat dst + n \<le> 2 ^ 32" "unat src + n \<le> 2 ^ 32" "dst \<le> src"
  shows "copy_up n dst src m = mem_write m dst (mem_read m src n)"
  using assms
proof (induction n)
  case 0
  then show ?case by (simp add: mem_read_def)
next
  case (Suc n)
  let ?m = "mem_write m dst (mem_read m src n)"
  have "n < 2 ^ 32" using Suc.prems(1) by simp
  have IH: "copy_up n dst src m = ?m"
    using Suc by simp
  have "\<not> in_block dst n (src + of_nat n)"
    using Suc.prems by (intro not_in_block_above) auto
  then have "?m (src + of_nat n) = m (src + of_nat n)"
    by (simp add: mem_write_out)
  then show ?case
    unfolding copy_up_Suc_last IH Let_def
    using \<open>n < 2 ^ 32\<close> by (simp add: mem_read_Suc mem_write_snoc)
qed

lemma copy_down_correct:
  assumes "unat dst + n \<le> 2 ^ 32" "unat src + n \<le> 2 ^ 32" "src \<le> dst"
  shows "copy_down n dst src m = mem_write m dst (mem_read m src n)"
  using assms
proof (induction n arbitrary: m)
  case 0
  then show ?case by (simp add: mem_read_def)
next
  case (Suc n)
  let ?v = "m (src + of_nat n)"
  let ?m = "m(dst + of_nat n := ?v)"
  have n: "n < 2 ^ 32" using Suc.prems(1) by simp
  have "\<not> in_block src n (dst + of_nat n)"
    using Suc.prems by (intro not_in_block_above) auto
  then have "src + of_nat i \<noteq> dst + of_nat n" if "i < n" for i
    using that n in_block_offset [of i src n] by fastforce
  then have "mem_read ?m src n = mem_read m src n"
    by (intro mem_read_cong) simp
  moreover have "copy_down n dst src ?m = mem_write ?m dst (mem_read ?m src n)"
    using Suc.prems by (intro Suc.IH) auto
  ultimately have "copy_down (Suc n) dst src m = mem_write ?m dst (mem_read m src n)"
    by (simp only: copy_down.simps)
  also have "\<dots> = (mem_write m dst (mem_read m src n))(dst + of_nat n := ?v)"
    using n by (intro mem_write_upd_apart) (simp add: in_block_offset)
  finally show ?case
    using n by (simp add: mem_read_Suc mem_write_snoc)
qed

lemma memmove_block:
  assumes "unat dst + unat n \<le> 2 ^ 32" "unat src + unat n \<le> 2 ^ 32"
  shows "memmove dst src n m = mem_write m dst (mem_read m src (unat n))"
  using assms copy_up_correct [of dst "unat n" src m] copy_down_correct [of dst "unat n" src m]
  by (auto simp: memmove_def not_less)

lemma memcpy_block:
  assumes "unat dst + unat n \<le> 2 ^ 32" "unat src + unat n \<le> 2 ^ 32"
    and "dst \<le> src \<or> apart dst (unat n) src (unat n)"
  shows "memcpy dst src n m = mem_write m dst (mem_read m src (unat n))"
proof (cases "dst \<le> src")
  case True
  with assms show ?thesis
    by (simp add: memcpy_def copy_up_correct)
next
  case False
  with assms(3) have ap: "apart dst (unat n) src (unat n)" by simp
  have "copy_up k dst src m = mem_write m dst (mem_read m src k)" if "k \<le> unat n" for k
    using that
  proof (induction k)
    case 0
    then show ?case by (simp add: mem_read_def)
  next
    case (Suc k)
    then have k: "k < unat n" by simp
    then have k32: "k < 2 ^ 32"
      using less_trans [of k "unat n" "2 ^ 32"] by simp
    have "\<not> in_block dst (unat n) (src + of_nat k)"
      using ap k k32 in_block_offset [of k src "unat n"] by (auto simp: apart_def)
    then have "\<not> in_block dst k (src + of_nat k)"
      using k by (simp add: in_block_def)
    then show ?case
      using Suc k32 unfolding copy_up_Suc_last Let_def
      by (simp add: mem_read_Suc mem_write_snoc mem_write_out)
  qed
  then show ?thesis by (simp add: memcpy_def)
qed

lemma set_up_block: "n \<le> 2 ^ 32 \<Longrightarrow> set_up n buf v m = mem_write m buf (replicate n v)"
proof (induction n arbitrary: buf m)
  case 0
  then show ?case by simp
next
  case (Suc n)
  have "set_up (Suc n) buf v m = mem_write (m(buf := v)) (buf + 1) (replicate n v)"
    using Suc by (simp del: fun_upd_apply)
  also have "\<dots> = mem_write m buf (replicate (Suc n) v)"
  proof
    fix x
    have "x - buf = x - (buf + 1) + 1" by simp
    then have "x = buf \<or> unat (x - buf) = Suc (unat (x - (buf + 1)))"
      by (metis add.commute eq_iff_diff_eq_0 unatSuc)
    then show "mem_write (m(buf := v)) (buf + 1) (replicate n v) x
        = mem_write m buf (replicate (Suc n) v) x"
      by (auto simp: mem_write_def)
  qed
  finally show ?case .
qed

lemma memset_block: "memset buf v n m = mem_write m buf (replicate (unat n) (ucast v))"
  by (simp add: memset_def set_up_block less_imp_le)

text \<open>The three results of \<open>memcmp\<close> follow the lexicographic order of the two blocks.\<close>

lemma mem_read_Cons: "mem_read m a (Suc n) = m a # mem_read m (a + 1) n"
  using mem_read_append [of m a 1 n] by (simp add: mem_read_def)

lemma memcmp_loop_order:
  "memcmp_loop n a b m =
     (if mem_read m a n < mem_read m b n then -1
      else if mem_read m b n < mem_read m a n then 1 else 0)"
proof (induction n arbitrary: a b)
  case 0
  then show ?case by (simp add: mem_read_def)
next
  case (Suc n)
  then show ?case by (auto simp: mem_read_Cons)
qed

subsection \<open>String functions are correct\<close>

lemma terminated_Cons: "terminated (c # cs) \<longleftrightarrow> c = 0 \<or> terminated cs"
  by (auto simp: terminated_def)

lemma terminated_Nil [simp]: "\<not> terminated []"
  by (simp add: terminated_def)

lemma text_of_append [simp]: "0 \<notin> set u \<Longrightarrow> text_of (u @ v) = u @ text_of v"
  by (induction u) auto

lemma after_text_append [simp]:
  "0 \<notin> set u \<Longrightarrow> dropWhile (\<lambda>c. c \<noteq> 0) (u @ v) = dropWhile (\<lambda>c. c \<noteq> (0 :: u8)) v"
  by (induction u) auto

lemma contents_ret: "terminated s \<Longrightarrow> contents s = ret (text_of s)"
  by (induction s) (auto simp: terminated_Cons)

lemma contents_stuck: "\<not> terminated s \<Longrightarrow> contents s = stuck OutOfBounds"
  by (induction s) (auto simp: terminated_Cons)

lemma strlen_loop_ret: "terminated s \<Longrightarrow> strlen_loop s n = ret (n + length (text_of s))"
  by (induction s arbitrary: n) (auto simp: terminated_Cons)

lemma strlen_loop_stuck: "\<not> terminated s \<Longrightarrow> strlen_loop s n = stuck OutOfBounds"
  by (induction s arbitrary: n) (auto simp: terminated_Cons)

lemma strlen_ret: "terminated s \<Longrightarrow> strlen s = ret (length (text_of s))"
  by (simp add: strlen_def strlen_loop_ret)

lemma text_of_append_NUL [simp]: "0 \<notin> set s \<Longrightarrow> text_of (s @ 0 # r) = s"
  by (subst takeWhile_append2) auto

lemma byte_diff:
  fixes a b :: u8
  shows "uint a - uint b = 0 \<longleftrightarrow> a = b" "uint a - uint b < 0 \<longleftrightarrow> a < b"
    "sgn (uint a - uint b) = (if a = b then 0 else if a < b then -1 else 1)"
  by (auto simp: word_uint_eq_iff word_less_def sgn_if)

lemma strcmp_ret:
  "terminated s \<Longrightarrow> terminated t \<Longrightarrow>
     \<exists>r. strcmp s t = ret r \<and> (r = 0 \<longleftrightarrow> text_of s = text_of t)
       \<and> (r < 0 \<longleftrightarrow> text_of s < text_of t)"
proof (induction s t rule: strcmp.induct)
  case (3 a s b t)
  then show ?case
    using byte_diff [of a b]
    by (cases "a = 0"; cases "b = 0") (auto simp: terminated_Cons)
qed auto

text \<open>The sign of the tty.c \<open>strncmp\<close> is the result of the libc one, on every input.\<close>

lemma strncmp_tty_sgn: "strncmp s t n = bnd (strncmp_tty s t n) (\<lambda>r. ret (sgn r))"
  by (induction s t n rule: strncmp.induct) (auto simp: byte_diff word_gt_0)

lemma strncmp_ret:
  "terminated s \<Longrightarrow> terminated t \<Longrightarrow>
     \<exists>r. strncmp s t n = ret r \<and> (r = 0 \<longleftrightarrow> take n (text_of s) = take n (text_of t))"
  by (induction s t n rule: strncmp.induct) (auto simp: terminated_Cons)

text \<open>Two fixed-width fields without a NUL: equal up to the first \<open>n\<close> bytes.\<close>

lemma strncmp_field:
  "n \<le> length s \<Longrightarrow> n \<le> length t \<Longrightarrow> 0 \<notin> set (take n s) \<Longrightarrow>
     \<exists>r. strncmp s t n = ret r \<and> (r = 0 \<longleftrightarrow> take n s = take n t)"
  by (induction s t n rule: strncmp.induct) auto

lemma strcpy_ret:
  "terminated src \<Longrightarrow> length (text_of src) < length dest \<Longrightarrow>
     strcpy dest src = ret (text_of src @ 0 # drop (Suc (length (text_of src))) dest)"
  by (induction dest src rule: strcpy.induct) (auto simp: terminated_Cons)

lemma strcpy_overflow:
  "length dest \<le> length (text_of src) \<Longrightarrow> strcpy dest src = stuck OutOfBounds"
  by (induction dest src rule: strcpy.induct) auto

lemma zero_fill_ret:
  "n \<le> length dest \<Longrightarrow> zero_fill dest n = ret (replicate n 0 @ drop n dest)"
  by (induction dest n rule: zero_fill.induct) auto

lemma zero_fill_stuck: "length dest < n \<Longrightarrow> zero_fill dest n = stuck OutOfBounds"
  by (induction dest n rule: zero_fill.induct) auto

text \<open>A source of at least \<open>n\<close> bytes: exactly \<open>n\<close> bytes are written.\<close>

lemma strncpy_long:
  "n \<le> length (text_of src) \<Longrightarrow> n \<le> length dest \<Longrightarrow>
     strncpy dest src n = ret (take n src @ drop n dest)"
  by (induction dest src n rule: strncpy.induct) (auto split: if_splits)

text \<open>A shorter source: \<open>n + 1\<close> bytes are written, one more than \<open>n\<close>.\<close>

lemma strncpy_short:
  "terminated src \<Longrightarrow> length (text_of src) < n \<Longrightarrow> n < length dest \<Longrightarrow>
     strncpy dest src n =
       ret (text_of src @ replicate (Suc n - length (text_of src)) 0 @ drop (Suc n) dest)"
proof (induction dest src n rule: strncpy.induct)
  case (4 d dest c src n)
  then show ?case
    by (cases "n - length (text_of src)") (auto simp: terminated_Cons zero_fill_ret Suc_diff_le)
qed (auto simp: terminated_Cons)

lemma strncpy_short_overflow:
  "terminated src \<Longrightarrow> length (text_of src) < n \<Longrightarrow> length dest \<le> n \<Longrightarrow>
     strncpy dest src n = stuck OutOfBounds"
proof (induction dest src n rule: strncpy.induct)
  case (4 d dest c src n)
  then show ?case
    by (auto simp: terminated_Cons zero_fill_stuck)
qed (auto simp: terminated_Cons)

subsection \<open>Tokens\<close>

lemma strchr_ret:
  "terminated s \<Longrightarrow> \<exists>r. strchr s c = ret r \<and> (r \<noteq> None \<longleftrightarrow> c \<in> set (text_of s))"
  by (induction s c rule: strchr.induct) (auto simp: terminated_Cons)

lemma drop_terminated:
  "terminated (drop i buf) \<Longrightarrow>
     i < length buf \<and> drop i buf = buf ! i # drop (Suc i) buf
       \<and> (buf ! i \<noteq> 0 \<longrightarrow> terminated (drop (Suc i) buf))"
  by (cases "i < length buf") (auto simp: Cons_nth_drop_Suc [symmetric] terminated_Cons)

abbreviation delimiters :: "u8 list \<Rightarrow> u8 list \<Rightarrow> u8 list" where
  "delimiters delim s \<equiv> takeWhile (\<lambda>c. c \<noteq> 0 \<and> c \<in> set (text_of delim)) s"

abbreviation token :: "u8 list \<Rightarrow> u8 list \<Rightarrow> u8 list" where
  "token delim s \<equiv> takeWhile (\<lambda>c. c \<noteq> 0 \<and> c \<notin> set (text_of delim)) s"

lemma tok_skip_ret:
  assumes "terminated delim" "terminated (drop i buf)"
  shows "tok_skip buf delim i = ret (i + length (delimiters delim (drop i buf)))"
  using assms(2)
proof (induction "length buf - i" arbitrary: i)
  case 0
  then show ?case by simp
next
  case (Suc k)
  note d = drop_terminated [OF Suc.prems]
  obtain r where r: "strchr delim (buf ! i) = ret r" "r \<noteq> None \<longleftrightarrow> buf ! i \<in> set (text_of delim)"
    using strchr_ret [OF assms(1)] by blast
  have IH: "tok_skip buf delim (Suc i) = ret (Suc i + length (delimiters delim (drop (Suc i) buf)))"
    if "buf ! i \<noteq> 0"
    using that d Suc.hyps by (intro Suc.hyps(1)) auto
  show ?case
    using d r IH by (subst tok_skip.simps) auto
qed

lemma tok_end_ret:
  assumes "terminated delim" "terminated (drop i buf)"
  shows "tok_end buf delim i = ret (i + length (token delim (drop i buf)))"
  using assms(2)
proof (induction "length buf - i" arbitrary: i)
  case 0
  then show ?case by simp
next
  case (Suc k)
  note d = drop_terminated [OF Suc.prems]
  obtain r where r: "strchr delim (buf ! i) = ret r" "r \<noteq> None \<longleftrightarrow> buf ! i \<in> set (text_of delim)"
    using strchr_ret [OF assms(1)] by blast
  have IH: "tok_end buf delim (Suc i) = ret (Suc i + length (token delim (drop (Suc i) buf)))"
    if "buf ! i \<noteq> 0"
    using that d Suc.hyps by (intro Suc.hyps(1)) auto
  show ?case
    using d r IH by (subst tok_end.simps) auto
qed

text \<open>
  A call on a terminated string: NULL when only delimiters are left; otherwise the first
  maximal run of other bytes, which the call terminates with a NUL where a delimiter was.
\<close>

lemma nth_takeWhile_end:
  "length (takeWhile P (drop i xs)) + i < length xs \<Longrightarrow> \<not> P (xs ! (i + length (takeWhile P (drop i xs))))"
  using nth_length_takeWhile [of P "drop i xs"] by (simp add: add.commute)

lemma takeWhile_NUL_bound:
  assumes "terminated (drop i xs)" "\<not> P 0"
  shows "i + length (takeWhile P (drop i xs)) < length xs"
proof -
  have "\<not> (\<forall>c \<in> set (drop i xs). P c)"
    using assms by (auto simp: terminated_def)
  then have "takeWhile P (drop i xs) \<noteq> drop i xs"
    by (metis set_takeWhileD)
  then have "length (takeWhile P (drop i xs)) < length (drop i xs)"
    by (metis length_takeWhile_le le_neq_implies_less takeWhile_eq_take take_all_iff)
  then show ?thesis by simp
qed

lemma terminated_takeWhile:
  assumes "terminated (drop i xs)" "\<not> P 0"
  shows "terminated (drop (i + length (takeWhile P (drop i xs))) xs)"
proof -
  have "drop (i + length (takeWhile P (drop i xs))) xs = dropWhile P (drop i xs)"
    by (simp add: dropWhile_eq_drop add.commute)
  moreover have "0 \<in> set (dropWhile P (drop i xs))"
    using assms set_takeWhileD [of 0 P "drop i xs"]
    by (metis Un_iff set_append takeWhile_dropWhile_id terminated_def)
  ultimately show ?thesis by (simp add: terminated_def)
qed

lemma strtok_ret:
  assumes "terminated delim" "terminated (drop i buf)"
  shows "strtok buf (Some i) lst delim =
    (let k = i + length (delimiters delim (drop i buf));
         j = k + length (token delim (drop k buf))
     in if buf ! k = 0 then ret (None, None, buf)
        else if buf ! j = 0 then ret (Some k, None, buf)
        else ret (Some k, Some (j + 1), buf[j := 0]))"
  using assms terminated_takeWhile [OF assms(2), of "\<lambda>c. c \<noteq> 0 \<and> c \<in> set (text_of delim)"]
  by (auto simp: strtok_def tok_skip_ret tok_end_ret Let_def)

subsection \<open>Properties\<close>

text \<open>C26: \<open>memmove\<close> moves a block of \<open>n\<close> bytes correctly whatever the overlap of
  source and destination: afterwards the destination holds the bytes the source held before,
  and no other byte has changed.\<close>

theorem memmove_moves_block:
  assumes "unat dst + unat n \<le> 2 ^ 32" "unat src + unat n \<le> 2 ^ 32"
  shows "mem_read (memmove dst src n m) dst (unat n) = mem_read m src (unat n)
    \<and> (\<forall>x. \<not> in_block dst (unat n) x \<longrightarrow> memmove dst src n m x = m x)"
  using assms mem_read_write_same [of "mem_read m src (unat n)" m dst]
  by (simp add: memmove_block mem_write_def in_block_def less_imp_le)

theorem memmove_moves_block_witness:
  "mem_read (memmove 102 100 3 (\<lambda>a. ucast a)) 102 3 = [100, 101, 102]
   \<and> memmove 102 100 3 (\<lambda>a. ucast a) 105 = 105"
  using memmove_moves_block [of 102 3 100 "\<lambda>a. ucast a"]
  by (simp add: mem_read_def upt_rec in_block_def)

text \<open>C40: the kernel's \<open>strncpy\<close> may write one byte more than it is asked for. Into a destination of more than
  \<open>n\<close> bytes it copies exactly the first \<open>n\<close> bytes of a string of at least that length. Of a shorter
  string it copies the text and then clears the bytes up to and including the one at index \<open>n\<close>, which is
  behind the \<open>n\<close> bytes it was given. All bytes after these are kept.\<close>

theorem strncpy_clears_one_more:
  assumes "terminated src" "n < length dest"
  shows "strncpy dest src n =
    ret (if n \<le> length (text_of src) then take n (text_of src) @ drop n dest
         else text_of src @ replicate (n - length (text_of src)) 0 @ [0] @ drop (Suc n) dest)"
proof (cases "n \<le> length (text_of src)")
  case True
  have "take n (text_of src) = take n src"
    using True by (subst takeWhile_eq_take) (simp add: min_def)
  then show ?thesis using True assms(2) strncpy_long [OF True, of dest] by simp
next
  case False
  then show ?thesis
    using assms strncpy_short [of src n dest] by (simp add: Suc_diff_le replicate_app_Cons_same)
qed

theorem strncpy_clears_one_more_witness:
  "strncpy [1, 2, 3, 4, 5, 6] (cstr ''ab'') 4 = ret [97, 98, 0, 0, 0, 6]"
  using strncpy_clears_one_more [of "cstr ''ab''" 4 "[1, 2, 3, 4, 5, 6]"]
  by (simp add: terminated_def cstr_def lit_def replicate_numeral)

end
