(* ===== verification/LibC.thy ===== *)
theory LibC
  imports Bus CString "HOL-Library.Signed_Division"
begin

section \<open>The kernel support library\<close>

text \<open>
  \<^verbatim>\<open>kernel/arch/i386/lib_c.c\<close>: letter case, the serial console on port 0x3F8 (input,
  output and its formatted printing), and in-place case conversion of strings. \<open>char\<close> is
  signed on the i386, so character comparisons are signed comparisons of bytes.
\<close>

subsection \<open>Letter case\<close>

definition lowercase :: "u8 \<Rightarrow> u8" where
  "lowercase c = (if 65 \<le> sint c \<and> sint c \<le> 90 then c + (97 - 65) else c)"

definition uppercase :: "u8 \<Rightarrow> u8" where
  "uppercase c = (if 97 \<le> sint c \<and> sint c \<le> 122 then c - (97 - 65) else c)"

definition uppercase_str :: "u8 list \<Rightarrow> u8 list comp" where
  "uppercase_str input =
     bnd (strlen input) (\<lambda>inputLength.
       ret (map (\<lambda>c. if 97 \<le> sint c \<and> sint c \<le> 122 then c - 32 else c) (take inputLength input)
            @ drop inputLength input))"

definition lowercase_str :: "u8 list \<Rightarrow> u8 list comp" where
  "lowercase_str input =
     bnd (strlen input) (\<lambda>inputLength.
       ret (map (\<lambda>c. if 65 \<le> sint c \<and> sint c \<le> 90 then c + 32 else c) (take inputLength input)
            @ drop inputLength input))"

subsection \<open>The serial console\<close>

definition TTY :: u16 where "TTY = 0x03F8"
definition LSR :: u16 where "LSR = 5"

text \<open>Wait for the transmitter (line status bit 5), then send one byte.\<close>

definition putcc_raw :: "'d bus \<Rightarrow> u8 \<Rightarrow> ('d, 'z) hw_scheme \<Rightarrow> ('d, 'z) hw_scheme comp" where
  "putcc_raw B c s =
     bnd (inb_until B (TTY + LSR) (\<lambda>v. v AND 0x20 \<noteq> 0) s) (\<lambda>(_, s). ret (outb B TTY c s))"

definition putcc :: "'d bus \<Rightarrow> u8 \<Rightarrow> ('d, 'z) hw_scheme \<Rightarrow> ('d, 'z) hw_scheme comp" where
  "putcc B c s =
     bnd (if c = 0x0A then putcc_raw B 0x0D s else ret s) (\<lambda>s. putcc_raw B c s)"

definition getcc :: "'d bus \<Rightarrow> bool \<Rightarrow> ('d, 'z) hw_scheme \<Rightarrow> (u8 \<times> ('d, 'z) hw_scheme) comp" where
  "getcc B echo s =
     bnd (inb_until B (TTY + LSR) (\<lambda>v. v AND 0x01 \<noteq> 0) s) (\<lambda>(_, s).
       let (c, s) = inb B TTY s in
       bnd (if echo then putcc B c s else ret s) (\<lambda>s. ret (c, s)))"

fun printss :: "'d bus \<Rightarrow> u8 list \<Rightarrow> ('d, 'z) hw_scheme \<Rightarrow> ('d, 'z) hw_scheme comp" where
  "printss B [] s = stuck OutOfBounds"
| "printss B (c # cs) s = (if c = 0 then ret s else bnd (putcc B c s) (printss B cs))"

fun putstring :: "'d bus \<Rightarrow> u8 list \<Rightarrow> ('d, 'z) hw_scheme \<Rightarrow> ('d, 'z) hw_scheme comp" where
  "putstring B [] s = stuck OutOfBounds"
| "putstring B (c # cs) s = (if c = 0 then ret s else bnd (putcc B c s) (putstring B cs))"

text \<open>The counter \<open>n\<close> is decremented before its old value is tested.\<close>

fun printsss :: "'d bus \<Rightarrow> u8 list \<Rightarrow> nat \<Rightarrow> ('d, 'z) hw_scheme \<Rightarrow> ('d, 'z) hw_scheme comp" where
  "printsss B cs 0 s = ret s"
| "printsss B [] (Suc n) s = stuck OutOfBounds"
| "printsss B (c # cs) (Suc n) s =
     bnd (if 32 < sint c then putcc B c s else putcc B 46 s) (printsss B cs n)"

text \<open>The hexadecimal digit of the value at a shift distance, as a character.\<close>

definition hex_char :: "u32 \<Rightarrow> nat \<Rightarrow> u8" where
  "hex_char num k =
     (let buf = drop_bit (k * 4) num AND 0xF
      in if buf < 10 then ucast (buf + 48) else ucast (buf + (65 - 10)))"

text \<open>\<open>digits\<close> of them, most significant first; a shift of 32 bits or more is undefined.\<close>

primrec printhex :: "'d bus \<Rightarrow> u32 \<Rightarrow> nat \<Rightarrow> ('d, 'z) hw_scheme \<Rightarrow> ('d, 'z) hw_scheme comp" where
  "printhex B num 0 s = ret s"
| "printhex B num (Suc k) s =
     (if 32 \<le> k * 4 then stuck BadShift
      else bnd (putcc B (hex_char num k) s) (printhex B num k))"

text \<open>
  \<open>gethex\<close> returns its result code and the value it stores through \<open>num\<close>; \<open>k\<close> digits
  remain to be read.
\<close>

primrec gethex_loop ::
  "'d bus \<Rightarrow> nat \<Rightarrow> bool \<Rightarrow> u32 \<Rightarrow> ('d, 'z) hw_scheme \<Rightarrow> (int \<times> u32 \<times> ('d, 'z) hw_scheme) comp" where
  "gethex_loop B 0 echo num s = ret (0, num, s)"
| "gethex_loop B (Suc k) echo num s =
     bnd (getcc B echo s) (\<lambda>(c, s).
       let buf = lowercase c in
       if sint buf < 48 \<or> 102 < sint buf \<or> 57 < sint buf \<and> sint buf < 97 then ret (-1, num, s)
       else let buf = (if 57 < sint buf then buf - (97 - 10) else buf - 48)
            in gethex_loop B k echo (push_bit 4 num + scast buf) s)"

definition gethex ::
  "'d bus \<Rightarrow> nat \<Rightarrow> bool \<Rightarrow> ('d, 'z) hw_scheme \<Rightarrow> (int \<times> u32 \<times> ('d, 'z) hw_scheme) comp" where
  "gethex B digits echo s =
     bnd (if echo then printss B (cstr '' '') s else ret s) (gethex_loop B digits echo 0)"

subsection \<open>Formatted printing\<close>

text \<open>
  \<open>_printInt\<close> fills a 32-byte buffer from its end; \<open>room\<close> is the number of free bytes
  before the pointer. C division truncates towards zero.
\<close>

definition int_digit :: "int \<Rightarrow> u8" where
  "int_digit n = (if n < 10 then of_int (n + 48) else of_int (n - 10 + 65))"

primrec printInt_loop :: "nat \<Rightarrow> int \<Rightarrow> int \<Rightarrow> u8 list \<Rightarrow> u8 list comp" where
  "printInt_loop 0 val base buf =
     (if val = 0 then ret buf else if base = 0 then stuck DivByZero else stuck OutOfBounds)"
| "printInt_loop (Suc room) val base buf =
     (if val = 0 then ret buf
      else if base = 0 then stuck DivByZero
      else printInt_loop room (val sdiv base) base (int_digit (val smod base) # buf))"

definition printInt ::
  "'d bus \<Rightarrow> int \<Rightarrow> int \<Rightarrow> ('d, 'z) hw_scheme \<Rightarrow> ('d, 'z) hw_scheme comp" where
  "printInt B val base s = bnd (printInt_loop 31 val base [0]) (\<lambda>ptr. putstring B ptr s)"

text \<open>A variadic argument: a machine word, or a pointer into an array of characters.\<close>

datatype vararg = VInt u32 | VStr "u8 list"

function printf_serial ::
  "'d bus \<Rightarrow> u8 list \<Rightarrow> vararg list \<Rightarrow> ('d, 'z) hw_scheme \<Rightarrow> ('d, 'z) hw_scheme comp" where
  "printf_serial B fmt args s =
     (case fmt of
        [] \<Rightarrow> stuck OutOfBounds
      | c # p \<Rightarrow>
          if c = 0 then ret s
          else if c \<noteq> 37 then bnd (putcc B c s) (\<lambda>s. printf_serial B p args s)
          else (case p of
              [] \<Rightarrow> stuck OutOfBounds
            | d # q \<Rightarrow>
                if d = 100 \<or> d = 120 then
                  (case args of
                     VInt i # args' \<Rightarrow> bnd (printInt B (sint i) (if d = 100 then 10 else 16) s)
                       (\<lambda>s. printf_serial B q args' s)
                   | _ \<Rightarrow> stuck BadVararg)
                else if d = 115 then
                  (case args of
                     VStr a # args' \<Rightarrow> bnd (putstring B a s) (\<lambda>s. printf_serial B q args' s)
                   | _ \<Rightarrow> stuck BadVararg)
                else bnd (putcc B c s) (\<lambda>s. printf_serial B p args s)))"
  by pat_completeness auto
termination
  by (relation "measure (\<lambda>(B, fmt, args, s). length fmt)") auto

declare printf_serial.simps [simp del]

subsection \<open>Letter case is correct\<close>

lemma sint_u8: "sint (c :: u8) = (if uint c < 128 then uint c else uint c - 256)"
proof -
  have u: "uint c < 256" "0 \<le> uint c" using uint_lt2p [of c] by auto
  have "sint c = (uint c + 128) mod 256 - 128"
    by (simp add: sint_uint signed_take_bit_eq_take_bit_shift take_bit_eq_mod)
  also have "\<dots> = (if uint c < 128 then uint c else uint c - 256)"
    using u by (cases "uint c < 128") (simp_all add: mod_pos_geq)
  finally show ?thesis .
qed

lemma sint_u8_between:
  "0 \<le> lo \<Longrightarrow> hi < 128 \<Longrightarrow> lo \<le> sint (c :: u8) \<and> sint c \<le> hi \<longleftrightarrow> lo \<le> uint c \<and> uint c \<le> hi"
  using uint_lt2p [of c] by (auto simp: sint_u8)

lemma lowercase_uint:
  "uint (lowercase c) = (if 65 \<le> uint c \<and> uint c \<le> 90 then uint c + 32 else uint c)"
  by (simp add: lowercase_def sint_u8_between uint_word_ariths)

lemma uppercase_uint:
  "uint (uppercase c) = (if 97 \<le> uint c \<and> uint c \<le> 122 then uint c - 32 else uint c)"
  by (simp add: uppercase_def sint_u8_between uint_word_ariths)

lemma uppercase_idem [simp]: "uppercase (uppercase c) = uppercase c"
  by (simp add: word_uint_eq_iff uppercase_uint)

lemma uppercase_str_ret:
  "terminated s \<Longrightarrow>
     uppercase_str s = ret (map uppercase (text_of s) @ dropWhile (\<lambda>c. c \<noteq> 0) s)"
  by (simp add: uppercase_str_def strlen_ret uppercase_def [abs_def] takeWhile_eq_take [symmetric]
      dropWhile_eq_drop)

subsection \<open>Hexadecimal output and input are inverse\<close>

text \<open>\<open>delivers B cs s s'\<close>: the serial input yields the characters \<open>cs\<close> from state \<open>s\<close>.\<close>

fun delivers :: "'d bus \<Rightarrow> u8 list \<Rightarrow> ('d, 'z) hw_scheme \<Rightarrow> ('d, 'z) hw_scheme \<Rightarrow> bool" where
  "delivers B [] s s' \<longleftrightarrow> s' = s"
| "delivers B (c # cs) s s' \<longleftrightarrow> (\<exists>s1. getcc B False s = ret (c, s1) \<and> delivers B cs s1 s')"

text \<open>The characters that \<open>printhex\<close> sends, and that it sends exactly those.\<close>

definition hex_chars :: "u32 \<Rightarrow> nat \<Rightarrow> u8 list" where
  "hex_chars num digits = map (hex_char num) (rev [0..<digits])"

lemma nibble_cases:
  fixes v :: u32
  assumes "v < 16"
  shows "v \<in> {0, 1, 2, 3, 4, 5, 6, 7, 8, 9, 10, 11, 12, 13, 14, 15}"
proof -
  have "unat v < 16" using assms by unat_arith
  then have "unat v \<in> {0, 1, 2, 3, 4, 5, 6, 7, 8, 9, 10, 11, 12, 13, 14, 15}"
    by (auto simp: numeral_eq_Suc less_Suc_eq)
  then have "of_nat (unat v) \<in> (of_nat :: nat \<Rightarrow> u32) ` {0, 1, 2, 3, 4, 5, 6, 7, 8, 9, 10, 11, 12, 13, 14, 15}"
    by blast
  then show ?thesis by simp
qed

lemma hex_char_value:
  fixes num :: u32 and k :: nat
  defines "v \<equiv> drop_bit (k * 4) num AND 0xF" and "b \<equiv> lowercase (hex_char num k)"
  shows "\<not> (sint b < 48 \<or> 102 < sint b \<or> 57 < sint b \<and> sint b < 97) \<and>
    scast (if 57 < sint b then b - (97 - 10) else b - 48) = v"
proof -
  have "v \<le> 0xF" by (simp add: v_def word_and_le1)
  then have "v < 16" by unat_arith
  then have "v \<in> {0, 1, 2, 3, 4, 5, 6, 7, 8, 9, 10, 11, 12, 13, 14, 15}"
    by (rule nibble_cases)
  moreover have "b = lowercase (if v < 10 then ucast (v + 48) else ucast (v + (65 - 10)))"
    by (simp add: b_def hex_char_def v_def Let_def)
  ultimately show ?thesis
    by (elim insertE emptyE) (simp_all add: lowercase_def)
qed

lemma printhex_putstring:
  "digits \<le> 8 \<Longrightarrow> printhex B num digits s = putstring B (hex_chars num digits @ [0]) s"
proof (induction digits arbitrary: s)
  case 0
  then show ?case by (simp add: hex_chars_def)
next
  case (Suc d)
  have "lowercase (hex_char num d) \<noteq> 0"
    using hex_char_value [of num d] by auto
  then have "hex_char num d \<noteq> 0"
    by (auto simp: lowercase_def)
  then show ?case
    using Suc
    by (cases "putcc B (hex_char num d) s" rule: comp_cases) (auto simp: hex_chars_def)
qed

lemma take_bit_nibble:
  fixes num acc :: u32
  shows "push_bit n (push_bit 4 acc + (drop_bit n num AND 0xF)) + take_bit n num
    = push_bit (n + 4) acc + take_bit (n + 4) num"
proof -
  have "take_bit (n + 4) num = push_bit n (drop_bit n (take_bit (n + 4) num)) + take_bit n (take_bit (n + 4) num)"
    by (simp only: bits_ident)
  also have "\<dots> = push_bit n (drop_bit n num AND 0xF) + take_bit n num"
    by (simp add: drop_bit_take_bit take_bit_eq_mask [of 4] mask_eq_exp_minus_1)
  finally show ?thesis
    by (simp add: push_bit_add add.commute)
qed

lemma gethex_loop_value:
  assumes "delivers B (hex_chars num k) s s'"
  shows "gethex_loop B k False acc s =
    ret (0, push_bit (k * 4) acc + take_bit (k * 4) num, s')"
  using assms
proof (induction k arbitrary: acc s)
  case 0
  then show ?case by (simp add: hex_chars_def)
next
  case (Suc k)
  then obtain s1 where "getcc B False s = ret (hex_char num k, s1)"
    and d: "delivers B (hex_chars num k) s1 s'"
    by (auto simp: hex_chars_def)
  moreover note hex_char_value [of num k]
  ultimately have "gethex_loop B (Suc k) False acc s =
      gethex_loop B k False (push_bit 4 acc + (drop_bit (k * 4) num AND 0xF)) s1"
    by (auto simp: Let_def)
  also have "\<dots> = ret (0, push_bit (k * 4) (push_bit 4 acc + (drop_bit (k * 4) num AND 0xF))
      + take_bit (k * 4) num, s')"
    using d by (rule Suc.IH)
  also have "\<dots> = ret (0, push_bit (Suc k * 4) acc + take_bit (Suc k * 4) num, s')"
    using take_bit_nibble [of "k * 4" acc num] by (simp add: add.commute)
  finally show ?case .
qed

lemma gethex_value:
  "delivers B (hex_chars num k) s s' \<Longrightarrow> gethex B k False s = ret (0, take_bit (k * 4) num, s')"
  by (simp add: gethex_def gethex_loop_value)

end
