(* ===== verification/Stdio.thy ===== *)
theory Stdio
  imports Terminal LibC
begin

section \<open>Formatted output of the kernel's C library\<close>

text \<open>
  \<^verbatim>\<open>libc/stdio\<close> and \<^verbatim>\<open>libc/stdlib/abort.c\<close> as built for the kernel
  (\<open>__is_libk\<close>): \<open>putchar\<close>, \<open>printf\<close> with its directives \<open>%c\<close>, \<open>%n\<close> (a new line
  on the terminal) and \<open>%s\<close>, \<open>puts\<close> and \<open>abort\<close>. A format string is given by its
  contents. A machine word that is taken for a string pointer addresses memory: the string
  is read from there.
\<close>

subsection \<open>Definitions\<close>

definition EOF :: int where "EOF = -1"
definition INT_MAX :: int where "INT_MAX = 2147483647"

definition putchar :: "'d bus \<Rightarrow> int \<Rightarrow> ('d, 'z) tty_scheme \<Rightarrow> int \<times> ('d, 'z) tty_scheme" where
  "putchar B ic s = (ic, terminal_write B [of_int ic] s)"

primrec print :: "'d bus \<Rightarrow> u8 list \<Rightarrow> ('d, 'z) tty_scheme \<Rightarrow> bool \<times> ('d, 'z) tty_scheme" where
  "print B [] s = (True, s)"
| "print B (c # cs) s =
     (let (r, s) = putchar B (uint c) s in if r = EOF then (False, s) else print B cs s)"

text \<open>The string at an address of memory, and the string a \<open>char*\<close> argument points to.\<close>

partial_function (option) string_at :: "mem \<Rightarrow> u32 \<Rightarrow> u8 list comp" where
  "string_at m p = (if m p = 0 then ret [] else bnd (string_at m (p + 1)) (\<lambda>cs. ret (m p # cs)))"

definition string_arg :: "mem \<Rightarrow> vararg \<Rightarrow> u8 list comp" where
  "string_arg m v = (case v of VStr a \<Rightarrow> contents a | VInt p \<Rightarrow> string_at m p)"

text \<open>The checked output of a run of characters, shared by the branches of \<open>printf\<close>.\<close>

definition emit ::
  "'d bus \<Rightarrow> u8 list \<Rightarrow> int \<Rightarrow> ('d, 'z) tty_scheme \<Rightarrow> (int \<times> ('d, 'z) tty_scheme \<Rightarrow> 'r comp)
    \<Rightarrow> (int \<times> ('d, 'z) tty_scheme \<Rightarrow> 'r comp) \<Rightarrow> 'r comp" where
  "emit B cs written s fail k =
     (if INT_MAX - written < int (length cs) then fail (-1, s)
      else let (ok, s) = print B cs s
           in if \<not> ok then fail (-1, s) else k (written + int (length cs), s))"

lemma emit_cong [fundef_cong]:
  "(\<And>w t. k (w, t) = k' (w, t)) \<Longrightarrow> emit B cs written s fail k = emit B cs written s fail k'"
  by (simp add: emit_def Let_def case_prod_beta)

function printf_loop ::
  "'d bus \<Rightarrow> u8 list \<Rightarrow> vararg list \<Rightarrow> int \<Rightarrow> ('d, 'z) tty_scheme \<Rightarrow> (int \<times> ('d, 'z) tty_scheme) comp" where
  "printf_loop B format parameters written s =
     (case format of
        [] \<Rightarrow> ret (written, s)
      | f0 # rest \<Rightarrow>
          if f0 \<noteq> 37 \<or> (rest \<noteq> [] \<and> hd rest = 37) then
            let format = (if f0 = 37 then rest else format);
                amount = 1 + length (takeWhile (\<lambda>c. c \<noteq> 37) (tl format))
            in emit B (take amount format) written s ret
                 (\<lambda>(written, s). printf_loop B (drop amount format) parameters written s)
          else if rest \<noteq> [] \<and> hd rest = 99 then
            (case parameters of
               VInt i # ps \<Rightarrow>
                 emit B [ucast i] written s ret (\<lambda>(written, s). printf_loop B (tl rest) ps written s)
             | _ \<Rightarrow> stuck BadVararg)
          else if rest \<noteq> [] \<and> hd rest = 110 then
            printf_loop B (tl rest) parameters (written + 1) (terminal_newline s)
          else if rest \<noteq> [] \<and> hd rest = 115 then
            (case parameters of
               [] \<Rightarrow> stuck BadVararg
             | p # ps \<Rightarrow> bnd (string_arg (ram s) p) (\<lambda>str.
                 emit B str written s ret (\<lambda>(written, s). printf_loop B (tl rest) ps written s)))
          else emit B format written s ret ret)"
  by pat_completeness auto
termination
  by (relation "measure (\<lambda>(B, format, parameters, written, s). length format)") (auto split: if_splits)

declare printf_loop.simps [simp del]

definition printf ::
  "'d bus \<Rightarrow> u8 list \<Rightarrow> vararg list \<Rightarrow> ('d, 'z) tty_scheme \<Rightarrow> (int \<times> ('d, 'z) tty_scheme) comp" where
  "printf B format parameters s = printf_loop B format parameters 0 s"

definition puts :: "'d bus \<Rightarrow> u8 list \<Rightarrow> ('d, 'z) tty_scheme \<Rightarrow> (int \<times> ('d, 'z) tty_scheme) comp" where
  "puts B str s = printf B (lit [CHR ''%'', CHR ''s'', CHR 0x0A]) [VStr str] s"

text \<open>\<open>abort\<close> prints and then spins for ever.\<close>

definition abort :: "'d bus \<Rightarrow> ('d, 'z) tty_scheme \<Rightarrow> 'a comp" where
  "abort B s =
     bnd (printf B (lit (''kernel: panic: abort()'' @ [CHR 0x0A])) [] s) (\<lambda>_. None)"

subsection \<open>A character-by-character reference\<close>

text \<open>
  What a format stands for: a sequence of characters and new lines, read off one character at
  a time. \<open>printf\<close> works in runs of characters instead. An unknown directive, or a \<open>%\<close>
  at the end, makes the rest of the format print as it is. String arguments are arrays.
\<close>

datatype act = Ch u8 | NL

fun do_act :: "'d bus \<Rightarrow> act \<Rightarrow> ('d, 'z) tty_scheme \<Rightarrow> ('d, 'z) tty_scheme" where
  "do_act B (Ch c) s = terminal_putchar B c s"
| "do_act B NL s = terminal_newline s"

fun render :: "u8 list \<Rightarrow> vararg list \<Rightarrow> act list comp" where
  "render [] ps = ret []"
| "render (c # r) ps =
     (if c \<noteq> 37 then bnd (render r ps) (\<lambda>a. ret (Ch c # a))
      else case r of
        [] \<Rightarrow> ret [Ch 37]
      | d # r' \<Rightarrow>
          if d = 37 then bnd (render r' ps) (\<lambda>a. ret (Ch 37 # a))
          else if d = 99 then
            (case ps of VInt i # qs \<Rightarrow> bnd (render r' qs) (\<lambda>a. ret (Ch (ucast i) # a))
             | _ \<Rightarrow> stuck BadVararg)
          else if d = 110 then bnd (render r' ps) (\<lambda>a. ret (NL # a))
          else if d = 115 then
            (case ps of VStr p # qs \<Rightarrow> bnd (contents p) (\<lambda>str. bnd (render r' qs) (\<lambda>a. ret (map Ch str @ a)))
             | _ \<Rightarrow> stuck BadVararg)
          else ret (map Ch (c # r)))"

lemma uint_not_EOF [simp]: "uint (c :: u8) \<noteq> EOF"
  using uint_ge_0 [of c] unfolding EOF_def by linarith

lemma print_true [simp]: "print B cs s = (True, terminal_write B cs s)"
  by (induction cs arbitrary: s) (simp_all add: putchar_def terminal_write_def)

lemma fold_do_act_Ch [simp]: "fold (do_act B) (map Ch cs) s = terminal_write B cs s"
  by (induction cs arbitrary: s) (simp_all add: terminal_write_def)

text \<open>A run of characters without a directive.\<close>

lemma render_run:
  "render (takeWhile (\<lambda>c. c \<noteq> 37) r @ q) ps =
     bnd (render q ps) (\<lambda>a. ret (map Ch (takeWhile (\<lambda>c. c \<noteq> 37) r) @ a))"
proof (induction r)
  case Nil
  show ?case by (cases "render q ps" rule: comp_cases) simp_all
next
  case (Cons c r)
  then show ?case
    by (cases "render q ps" rule: comp_cases) (auto simp: bnd_assoc)
qed

lemma render_dropWhile:
  "render r ps = bnd (render (dropWhile (\<lambda>c. c \<noteq> 37) r) ps)
     (\<lambda>a. ret (map Ch (takeWhile (\<lambda>c. c \<noteq> 37) r) @ a))"
  using render_run [of r "dropWhile (\<lambda>c. c \<noteq> 37) r" ps] by simp

lemma emit_ret:
  "int (length cs) \<le> INT_MAX - written \<Longrightarrow>
     emit B cs written s fail k = k (written + int (length cs), terminal_write B cs s)"
  by (simp add: emit_def)

text \<open>
  One round of \<open>printf\<close> consumes a prefix of the format whose rendering is \<open>done\<close>; the
  induction hypothesis covers the rest.
\<close>

lemma printf_loop_render:
  assumes "render format ps = ret acts" "written + int (length acts) \<le> INT_MAX"
  shows "printf_loop B format ps written s = ret (written + int (length acts), fold (do_act B) acts s)"
  using assms
proof (induction "length format" arbitrary: format ps written s acts rule: less_induct)
  case less
  show ?case
  proof (cases format)
    case Nil
    then show ?thesis using less.prems by (subst printf_loop.simps) simp
  next
    case (Cons f0 rest)
    let ?run = "takeWhile (\<lambda>c. c \<noteq> 37)" and ?after = "dropWhile (\<lambda>c. c \<noteq> 37)"
    consider (run) "f0 \<noteq> 37" | (percent) r where "f0 = 37" "rest = 37 # r"
      | (c) r where "f0 = 37" "rest = 99 # r" | (n) r where "f0 = 37" "rest = 110 # r"
      | (s) r where "f0 = 37" "rest = 115 # r"
      | (other) "f0 = 37" "rest = [] \<or> hd rest \<notin> {37, 99, 110, 115}"
      by (cases rest) auto
    then show ?thesis
    proof cases
      case run
      then obtain a where a: "render (?after rest) ps = ret a" "acts = Ch f0 # map Ch (?run rest) @ a"
        using less.prems(1) Cons render_dropWhile [of rest ps] by (auto simp: bnd_eq_ret)
      have "length (?after rest) < length format"
        using Cons length_dropWhile_le [of "\<lambda>c. c \<noteq> 37" rest] by simp
      from less.hyps [OF this a(1)] show ?thesis
        using run Cons less.prems(2) a(2)
        by (subst printf_loop.simps)
          (simp add: emit_ret Let_def takeWhile_eq_take [symmetric] dropWhile_eq_drop [symmetric]
            terminal_write_def algebra_simps)
    next
      case percent
      then obtain a where a: "render (?after r) ps = ret a" "acts = Ch 37 # map Ch (?run r) @ a"
        using less.prems(1) Cons render_dropWhile [of r ps] by (auto simp: bnd_eq_ret)
      have "length (?after r) < length format"
        using Cons percent length_dropWhile_le [of "\<lambda>c. c \<noteq> 37" r] by simp
      from less.hyps [OF this a(1)] show ?thesis
        using percent Cons less.prems(2) a(2)
        by (subst printf_loop.simps)
          (simp add: emit_ret Let_def takeWhile_eq_take [symmetric] dropWhile_eq_drop [symmetric]
            terminal_write_def algebra_simps)
    next
      case c
      then obtain i qs a where a: "ps = VInt i # qs" "render r qs = ret a" "acts = Ch (ucast i) # a"
        using less.prems(1) Cons by (auto simp: bnd_eq_ret split: list.splits vararg.splits)
      then show ?thesis
        using c Cons less.prems(2) less.hyps [OF _ a(2)]
        by (subst printf_loop.simps) (simp add: emit_ret terminal_write_def add.assoc)
    next
      case n
      then obtain a where a: "render r ps = ret a" "acts = NL # a"
        using less.prems(1) Cons by (auto simp: bnd_eq_ret)
      then show ?thesis
        using n Cons less.prems(2) less.hyps [OF _ a(1)]
        by (subst printf_loop.simps) (simp add: add.assoc)
    next
      case s
      then obtain p qs str a where a: "ps = VStr p # qs" "contents p = ret str" "render r qs = ret a"
        "acts = map Ch str @ a"
        using less.prems(1) Cons by (auto simp: bnd_eq_ret split: list.splits vararg.splits)
      then show ?thesis
        using s Cons less.prems(2) less.hyps [OF _ a(3)]
        by (subst printf_loop.simps) (simp add: emit_ret add.assoc string_arg_def)
    next
      case other
      then have "acts = map Ch format"
        using less.prems(1) Cons by (auto split: list.splits if_splits)
      then show ?thesis
        using other Cons less.prems(2)
        by (subst printf_loop.simps) (auto simp: emit_ret terminal_write_def)
    qed
  qed
qed

subsection \<open>Strings in memory\<close>

text \<open>Whatever is printed, the state of other components stays as it is.\<close>

lemma printf_loop_more:
  "printf_loop B format ps written s = ret (n, t) \<Longrightarrow> tty.more t = tty.more s"
proof (induction "length format" arbitrary: format ps written s rule: less_induct)
  case less
  show ?case
  proof (cases format)
    case Nil
    then show ?thesis using less.prems by (subst (asm) printf_loop.simps) simp
  next
    case (Cons f0 rest)
    have IH: "printf_loop B f' ps' w' s' = ret (n, t) \<Longrightarrow> tty.more t = tty.more s'"
      if "length f' < Suc (length rest)" for f' ps' w' s'
      using less.hyps that Cons by simp
    have prem: "printf_loop B (f0 # rest) ps written s = ret (n, t)" using less.prems Cons by simp
    show ?thesis
      using prem [unfolded printf_loop.simps [of B "f0 # rest" ps written s] list.case]
      by (auto simp: emit_def Let_def bnd_eq_ret split: if_splits list.splits vararg.splits dest!: IH [rotated])
  qed
qed

lemma printf_more: "printf B format ps s = ret (n, t) \<Longrightarrow> tty.more t = tty.more s"
  by (auto simp: printf_def dest: printf_loop_more)

lemma printf_loop_ok:
  "printf_loop B format ps written s = ret (n, t) \<Longrightarrow> tty_ok s \<Longrightarrow> tty_ok t"
proof (induction "length format" arbitrary: format ps written s rule: less_induct)
  case less
  show ?case
  proof (cases format)
    case Nil
    then show ?thesis using less.prems by (subst (asm) printf_loop.simps) simp
  next
    case (Cons f0 rest)
    have IH: "printf_loop B f' ps' w' s' = ret (n, t) \<Longrightarrow> tty_ok s' \<Longrightarrow> tty_ok t"
      if "length f' < Suc (length rest)" for f' ps' w' s'
      using less.hyps that Cons by simp
    have ok: "tty_ok (terminal_write B cs s)" "tty_ok (terminal_newline s)" for cs
      using less.prems(2) terminal_write_ok [of s B cs] terminal_newline_refines [of s] by simp_all
    have prem: "printf_loop B (f0 # rest) ps written s = ret (n, t)" using less.prems Cons by simp
    show ?thesis
      using prem [unfolded printf_loop.simps [of B "f0 # rest" ps written s] list.case] less.prems(2)
      by (auto simp: emit_def Let_def bnd_eq_ret ok split: if_splits list.splits vararg.splits dest!: IH [rotated])
  qed
qed

lemma string_at_ret:
  assumes "m (p + of_nat n) = 0" "\<And>i. i < n \<Longrightarrow> m (p + of_nat i) \<noteq> 0"
  shows "string_at m p = ret (mem_read m p n)"
  using assms
proof (induction n arbitrary: p)
  case 0
  then show ?case by (subst string_at.simps) (simp add: mem_read_def)
next
  case (Suc n)
  have "string_at m (p + 1) = ret (mem_read m (p + 1) n)"
  proof (rule Suc.IH)
    show "m (p + 1 + of_nat n) = 0" using Suc.prems(1) by (simp add: add.assoc)
  next
    fix i
    assume "i < n"
    then show "m (p + 1 + of_nat i) \<noteq> 0"
      using Suc.prems(2) [of "Suc i"] by (simp add: add.assoc)
  qed
  then show ?case
    using Suc.prems(2) [of 0] by (subst string_at.simps) (simp add: mem_read_Cons)
qed

text \<open>A string that starts at or before a NUL ends there at the latest.\<close>

lemma string_at_before_NUL:
  assumes "m (p + of_nat k) = 0"
  obtains n where "n \<le> k" "string_at m p = ret (mem_read m p n)" "m (p + of_nat n) = 0"
    "\<And>i. i < n \<Longrightarrow> m (p + of_nat i) \<noteq> 0"
proof -
  let ?n = "LEAST n. m (p + of_nat n) = 0"
  have "m (p + of_nat ?n) = 0" "?n \<le> k"
    using assms by (rule LeastI, rule Least_le)
  moreover have "m (p + of_nat i) \<noteq> 0" if "i < ?n" for i
    using that by (rule not_less_Least)
  ultimately show ?thesis
    using that string_at_ret [of m p ?n] by blast
qed

subsection \<open>Plain text\<close>

lemma render_plain: "37 \<notin> set cs \<Longrightarrow> render cs ps = ret (map Ch cs)"
  by (induction cs) auto

lemma printf_plain:
  "37 \<notin> set cs \<Longrightarrow> int (length cs) \<le> INT_MAX \<Longrightarrow>
     printf B cs ps s = ret (int (length cs), terminal_write B cs s)"
  using printf_loop_render [OF render_plain, of cs 0 B ps s] by (simp add: printf_def)

lemma abort_never_returns: "abort B s = (None :: 'a comp)"
proof -
  have "37 \<notin> set (lit (''kernel: panic: abort()'' @ [CHR 0x0A]))"
    by (simp add: lit_def)
  then show ?thesis
    by (simp add: abort_def printf_plain INT_MAX_def)
qed

text \<open>The actions of a format keep the console's invariant and frame.\<close>

interpretation act: writer tty_ok screen_frame "do_act B" for B
proof unfold_locales
  fix s :: "('a, 'b) tty_scheme" and a
  assume "tty_ok s"
  then show "tty_ok (do_act B a s)" "screen_frame s (do_act B a s)"
    by (cases a; simp add: terminal_putchar_refines terminal_newline_refines)+
qed (auto intro: screen_frame_trans)

subsection \<open>Properties\<close>

text \<open>C14: \<open>printf\<close> prints what its format stands for. Whenever the arguments match the format and
  the output is at most \<open>INT_MAX\<close> characters, the call returns the number of characters and new
  lines and has performed exactly those, in order; the console keeps its invariant, and memory
  outside the text buffer is untouched.\<close>

theorem printf_prints_format:
  assumes "render format ps = ret acts" "int (length acts) \<le> INT_MAX" "tty_ok s"
  shows "\<exists>s'. printf B format ps s = ret (int (length acts), s') \<and> s' = fold (do_act B) acts s
    \<and> tty_ok s' \<and> screen_frame s s'"
  using printf_loop_render [OF assms(1), of 0 B s] assms(2)
    act.inv_fold [OF assms(3), of B acts] act.frame_fold [OF assms(3), of B acts]
  by (simp add: printf_def)

theorem printf_prints_format_witness:
  "\<exists>s'. printf idle_bus (lit ''a%s%c'') [VStr (cstr ''bc''), VInt 100] (boot_tty ()) = ret (4, s')
    \<and> s' = terminal_write idle_bus (lit ''abcd'') (boot_tty ())"
  using printf_prints_format [of "lit ''a%s%c''" "[VStr (cstr ''bc''), VInt 100]"
      "map Ch (lit ''abcd'')" "boot_tty ()" idle_bus]
  by (simp add: lit_def cstr_def string_arg_def INT_MAX_def terminal_write_def)

text \<open>C25: every operation of the console keeps its state well formed: the cursor on the screen and the
  buffer at the text memory. This holds for single characters, strings, new lines, the clearing of
  the screen and the boot log, and for \<open>printf\<close> with any format and any arguments.\<close>

theorem console_stays_well_formed:
  assumes "tty_ok s"
  shows "tty_ok (terminal_putchar B c s) \<and> tty_ok (terminal_writestring B cs s) \<and> tty_ok (terminal_newline s)
    \<and> tty_ok (terminal_initialize s) \<and> tty_ok (task B name state s)
    \<and> (\<forall>n t. printf B format ps s = ret (n, t) \<longrightarrow> tty_ok t)"
proof -
  note start = console_step_refl [OF assms]
  have "tty_ok t" if "console_step s t" for t using that by (simp add: console_step_def)
  then show ?thesis
    using start assms by (auto simp: printf_def dest: printf_loop_ok intro: console_intros)
qed

theorem console_stays_well_formed_witness:
  "tty_ok (task idle_bus ''Reboot computer...'' 2 (terminal_putchar idle_bus 65 (boot_tty ())))"
  using console_stays_well_formed [of "boot_tty ()" idle_bus 65]
    console_stays_well_formed [of "terminal_putchar idle_bus 65 (boot_tty ())" idle_bus _ _ "''Reboot computer...''" 2] by simp

end
