(* ===== verification/Ata.thy ===== *)
theory Ata
  imports Stdio
begin

section \<open>The disk driver\<close>

text \<open>
  The sector transfers of \<^verbatim>\<open>kernel/arch/i386/FAT.c\<close> (\<open>int13h_read_o\<close>,
  \<open>int13h_write_o\<close> and their short forms): polled ATA transfers with 28-bit addresses, into
  and out of memory at \<open>DISK_READ_LOCATION\<close>. What the code relies on of the disk is the
  predicate \<open>ata_on\<close>: seen through an abstraction function, the bus behaves on the ATA ports
  as the ATA command set documents.
\<close>

subsection \<open>Definitions\<close>

definition DISK_READ_LOCATION :: u32 where "DISK_READ_LOCATION = 0x40000"
definition DISK_WRITE_LOCATION :: u32 where "DISK_WRITE_LOCATION = 0x40000"
definition part_start_lba :: u32 where "part_start_lba = 33543720"
definition part_length :: u32 where "part_length = 2 * 8385930"

text \<open>The command block: number of sectors, 28-bit address on the master drive, command.\<close>

definition ata_command ::
  "'d bus \<Rightarrow> u32 \<Rightarrow> u8 \<Rightarrow> u8 \<Rightarrow> ('d, 'z) hw_scheme \<Rightarrow> ('d, 'z) hw_scheme" where
  "ata_command B lba num_blocks cmd s =
     (let s = outb B 0x1F1 0 s;
          s = outb B 0x1F2 num_blocks s;
          s = outb B 0x1F3 (ucast lba) s;
          s = outb B 0x1F4 (ucast (drop_bit 8 lba)) s;
          s = outb B 0x1F5 (ucast (drop_bit 16 lba)) s;
          s = outb B 0x1F6 (ucast (0xE0 OR push_bit 4 0 OR (drop_bit 24 lba AND 0x0F))) s
      in outb B 0x1F7 cmd s)"

text \<open>
  The wait for a sector: at most 100 status reads, a dot on the screen for each that finds
  the drive not ready. The argument counts the reads left.
\<close>

primrec read_wait :: "'d bus \<Rightarrow> nat \<Rightarrow> ('d, 'z) tty_scheme \<Rightarrow> bool \<times> ('d, 'z) tty_scheme" where
  "read_wait B 0 s =
     (False, terminal_writestring B (lit ''[ FAIL ] Attempting to initialize FAT...'') (terminal_newline s))"
| "read_wait B (Suc r) s =
     (let (v, s) = inb B 0x1F7 s
      in if v AND 0x08 \<noteq> 0 then (True, s) else read_wait B r (terminal_writestring B (lit ''.'') s))"

text \<open>\<open>n\<close> words from the data port to memory, and from memory to the data port.\<close>

primrec read_words :: "'d bus \<Rightarrow> nat \<Rightarrow> u32 \<Rightarrow> ('d, 'z) hw_scheme \<Rightarrow> ('d, 'z) hw_scheme" where
  "read_words B 0 buffer s = s"
| "read_words B (Suc n) buffer s =
     (let (w, s) = inw B 0x1F0 s
      in read_words B n (buffer + 2) (s\<lparr>ram := poke16 buffer w (ram s)\<rparr>))"

primrec write_words :: "'d bus \<Rightarrow> nat \<Rightarrow> u32 \<Rightarrow> ('d, 'z) hw_scheme \<Rightarrow> ('d, 'z) hw_scheme" where
  "write_words B 0 buffer s = s"
| "write_words B (Suc n) buffer s =
     (let s = outw B 0x1F0 (peek16 (ram s) buffer) s;
          (_, s) = inb B 0x323 s;
          (_, s) = inb B 0x323 s;
          (_, s) = inb B 0x323 s
      in write_words B n (buffer + 2) s)"

primrec read_blocks ::
  "'d bus \<Rightarrow> nat \<Rightarrow> u32 \<Rightarrow> ('d, 'z) tty_scheme \<Rightarrow> int \<times> ('d, 'z) tty_scheme" where
  "read_blocks B 0 buffer s = (0, s)"
| "read_blocks B (Suc n) buffer s =
     (let s = terminal_newline s;
          s = terminal_writestring B (lit ''[      ] Waiting for device to be ready...'') s;
          (ok, s) = read_wait B 100 s
      in if \<not> ok then (-1, s)
         else read_blocks B n (buffer + 512) (read_words B 256 buffer s))"

definition int13h_read_o ::
  "'d bus \<Rightarrow> u32 \<Rightarrow> u8 \<Rightarrow> u32 \<Rightarrow> ('d, 'z) tty_scheme \<Rightarrow> int \<times> ('d, 'z) tty_scheme" where
  "int13h_read_o B sector_offset num_blocks readLocationOffset s =
     (if sector_offset + ucast num_blocks > part_length then (-1, s)
      else if num_blocks > 0x7F then (-1, s)
      else let s = ata_command B (sector_offset + part_start_lba) num_blocks 0x20 s
           in read_blocks B (unat num_blocks) (DISK_READ_LOCATION + readLocationOffset) s)"

text \<open>
  The wait before a sector is written: up to four status reads a round, a message on the
  serial line for each round that finds the drive not ready, for as long as it takes.
\<close>

partial_function (option) write_wait ::
  "'d bus \<Rightarrow> ('d, 'z) hw_scheme \<Rightarrow> ('d, 'z) hw_scheme comp" where
  "write_wait B s =
     (let (v, s) = inb B 0x1F7 s in
      if v AND 0x01 = 0x01 then bnd (printss B (cstr (''error1'' @ [CHR 0x0A])) s) (write_wait B)
      else
        let (v, s) = inb B 0x1F7 s in
        if v AND 0x40 \<noteq> 0x40 then bnd (printss B (cstr (''Not ready!'' @ [CHR 0x0A])) s) (write_wait B)
        else
          let (v, s) = inb B 0x1F7 s in
          if v AND 0x80 = 0x80 then bnd (printss B (cstr (''Busy!'' @ [CHR 0x0A])) s) (write_wait B)
          else
            let (v, s) = inb B 0x1F7 s in
            if v AND 0x08 \<noteq> 0x08 then
              bnd (printss B (cstr (''Have no data/not ready to recieve PIO!'' @ [CHR 0x0A])) s) (write_wait B)
            else ret s)"

primrec write_blocks ::
  "'d bus \<Rightarrow> nat \<Rightarrow> u32 \<Rightarrow> ('d, 'z) hw_scheme \<Rightarrow> ('d, 'z) hw_scheme comp" where
  "write_blocks B 0 buffer s = ret s"
| "write_blocks B (Suc n) buffer s =
     bnd (write_wait B s) (\<lambda>s. write_blocks B n (buffer + 512) (write_words B 256 buffer s))"

definition int13h_write_o ::
  "'d bus \<Rightarrow> u32 \<Rightarrow> u8 \<Rightarrow> u32 \<Rightarrow> ('d, 'z) hw_scheme \<Rightarrow> (int \<times> ('d, 'z) hw_scheme) comp" where
  "int13h_write_o B sector_offset num_blocks writeLocationOffset s =
     (if sector_offset + ucast num_blocks > part_length then ret (-1, s)
      else if num_blocks > 0x7F then ret (-1, s)
      else
        let s = ata_command B (sector_offset + part_start_lba) num_blocks 0x30 s in
        bnd (write_blocks B (unat num_blocks) (DISK_WRITE_LOCATION + writeLocationOffset) s) (\<lambda>s.
        let s = outb B 0x1F7 0xE7 s in
        bnd (inb_until B 0x1F7 (\<lambda>v. v AND 0x80 = 0) s) (\<lambda>(_, s). ret (0, s))))"

definition int13h_read ::
  "'d bus \<Rightarrow> u32 \<Rightarrow> u8 \<Rightarrow> ('d, 'z) tty_scheme \<Rightarrow> int \<times> ('d, 'z) tty_scheme" where
  "int13h_read B sector_offset num_blocks s = int13h_read_o B sector_offset num_blocks 0 s"

definition int13h_write ::
  "'d bus \<Rightarrow> u32 \<Rightarrow> u8 \<Rightarrow> ('d, 'z) hw_scheme \<Rightarrow> (int \<times> ('d, 'z) hw_scheme) comp" where
  "int13h_write B sector_offset num_blocks s = int13h_write_o B sector_offset num_blocks 0 s"

subsection \<open>The drive\<close>

text \<open>
  The ATA drive as the command set documents it. After a read or write command it transfers
  the sectors one by one; before each it is busy for a number of status reads, which the drive
  chooses (\<open>delays\<close>). While busy it shows \<open>BSY\<close> (0x80); with data to transfer \<open>DRDY\<close> and
  \<open>DRQ\<close> (0x48); otherwise \<open>DRDY\<close>. A sector is 512 bytes, sent as little-endian words. The driver
  sends the flush command right after the last word of a write, without looking at the status: the
  drive meant here takes the last sector into its cache at once and is ready for that command. What
  a drive does that is still busy then is not described.
\<close>

datatype ata_mode =
    Idle
  | DataIn u32 nat nat "u8 list"   \<comment> \<open>sector, sectors left after it, delay, bytes left of it\<close>
  | DataOut u32 nat nat "u8 list"  \<comment> \<open>sector, sectors left after it, delay, bytes received of it\<close>
  | Flush nat                      \<comment> \<open>writing back its cache, for that many status reads\<close>

record ata =
  sectors :: "u32 \<Rightarrow> u8 list"
  count :: u8
  lba0 :: u8
  lba1 :: u8
  lba2 :: u8
  drive :: u8
  mode :: ata_mode
  delays :: "nat \<Rightarrow> nat"

definition ata_lba :: "ata \<Rightarrow> u32" where
  "ata_lba a = le32 (lba0 a) (lba1 a) (lba2 a) (drive a AND 0x0F)"

definition next_delay :: "ata \<Rightarrow> ata" where
  "next_delay a = a\<lparr>delays := \<lambda>n. delays a (Suc n)\<rparr>"

definition start_in :: "u32 \<Rightarrow> nat \<Rightarrow> ata \<Rightarrow> ata" where
  "start_in lba n a = next_delay (a\<lparr>mode := (case n of 0 \<Rightarrow> Idle
     | Suc k \<Rightarrow> DataIn lba k (delays a 0) (sectors a lba))\<rparr>)"

definition start_out :: "u32 \<Rightarrow> nat \<Rightarrow> ata \<Rightarrow> ata" where
  "start_out lba n a = next_delay (a\<lparr>mode := (case n of 0 \<Rightarrow> Idle
     | Suc k \<Rightarrow> DataOut lba k (delays a 0) [])\<rparr>)"

definition ata_register :: "u16 \<Rightarrow> u8 \<Rightarrow> ata \<Rightarrow> ata" where
  "ata_register p v a =
     (if p = 0x1F2 then a\<lparr>count := v\<rparr> else if p = 0x1F3 then a\<lparr>lba0 := v\<rparr>
      else if p = 0x1F4 then a\<lparr>lba1 := v\<rparr> else if p = 0x1F5 then a\<lparr>lba2 := v\<rparr>
      else if p = 0x1F6 then a\<lparr>drive := v\<rparr> else a)"

definition ata_start :: "u8 \<Rightarrow> ata \<Rightarrow> ata" where
  "ata_start cmd a =
     (if cmd = 0x20 then start_in (ata_lba a) (unat (count a)) a
      else if cmd = 0x30 then start_out (ata_lba a) (unat (count a)) a
      else next_delay (a\<lparr>mode := Flush (delays a 0)\<rparr>))"

definition ata_status :: "ata \<Rightarrow> u8 \<times> ata" where
  "ata_status a =
     (case mode a of
        Idle \<Rightarrow> (0x40, a)
      | DataIn lba k d bs \<Rightarrow> if d = 0 then (0x48, a) else (0x80, a\<lparr>mode := DataIn lba k (d - 1) bs\<rparr>)
      | DataOut lba k d bs \<Rightarrow> if d = 0 then (0x48, a) else (0x80, a\<lparr>mode := DataOut lba k (d - 1) bs\<rparr>)
      | Flush d \<Rightarrow> if d = 0 then (0x40, a\<lparr>mode := Idle\<rparr>) else (0x80, a\<lparr>mode := Flush (d - 1)\<rparr>))"

definition set_sector :: "(u32 \<Rightarrow> u8 list) \<Rightarrow> u32 \<Rightarrow> u8 list \<Rightarrow> u32 \<Rightarrow> u8 list" where
  "set_sector sect lba bs = sect(lba := bs)"

text \<open>A word out of the sector being read; a word into the sector being written.\<close>

definition data_in :: "u32 \<Rightarrow> nat \<Rightarrow> u8 list \<Rightarrow> ata \<Rightarrow> u16 \<times> ata" where
  "data_in lba k bs a =
     (le16 (bs ! 0) (bs ! 1),
      if length bs \<le> 2 then start_in (lba + 1) k a else a\<lparr>mode := DataIn lba k 0 (drop 2 bs)\<rparr>)"

definition data_out :: "u32 \<Rightarrow> nat \<Rightarrow> u8 list \<Rightarrow> u16 \<Rightarrow> ata \<Rightarrow> ata" where
  "data_out lba k bs w a =
     (let bs = bs @ bytes16 w
      in if length bs < 512 then a\<lparr>mode := DataOut lba k 0 bs\<rparr>
         else start_out (lba + 1) k (a\<lparr>sectors := set_sector (sectors a) lba bs\<rparr>))"

definition ata_on :: "'d bus \<Rightarrow> ('d \<Rightarrow> ata) \<Rightarrow> bool" where
  "ata_on B drv \<longleftrightarrow>
     (\<forall>d p v. mode (drv d) = Idle \<and> 0x1F1 \<le> p \<and> p \<le> 0x1F6 \<longrightarrow>
        drv (bus_outb B p v d) = ata_register p v (drv d))
   \<and> (\<forall>d cmd. mode (drv d) = Idle \<and> cmd \<in> {0x20, 0x30, 0xE7} \<longrightarrow>
        drv (bus_outb B 0x1F7 cmd d) = ata_start cmd (drv d))
   \<and> (\<forall>d. (fst (bus_inb B 0x1F7 d), drv (snd (bus_inb B 0x1F7 d))) = ata_status (drv d))
   \<and> (\<forall>d lba k bs. mode (drv d) = DataIn lba k 0 bs \<longrightarrow>
        (fst (bus_inw B 0x1F0 d), drv (snd (bus_inw B 0x1F0 d))) = data_in lba k bs (drv d))
   \<and> (\<forall>d lba k bs w. mode (drv d) = DataOut lba k 0 bs \<longrightarrow>
        drv (bus_outw B 0x1F0 w d) = data_out lba k bs w (drv d))
   \<and> (\<forall>d p v. \<not> (0x1F0 \<le> p \<and> p \<le> 0x1F7) \<longrightarrow>
        drv (bus_outb B p v d) = drv d \<and> drv (snd (bus_inb B p d)) = drv d)"

text \<open>The transmitter of the serial line is ready whenever it is asked.\<close>

definition uart_ready :: "'d bus \<Rightarrow> bool" where
  "uart_ready B \<longleftrightarrow> (\<forall>d. fst (bus_inb B (TTY + LSR) d) AND 0x20 \<noteq> 0)"

subsection \<open>Output leaves the drive alone\<close>

lemma ata_on_other:
  assumes "ata_on B drv" "\<not> (0x1F0 \<le> p \<and> p \<le> 0x1F7)"
  shows "drv (bus_outb B p v d) = drv d" "drv (snd (bus_inb B p d)) = drv d"
  using assms by (auto simp: ata_on_def)

lemma drv_putchar:
  assumes "ata_on B drv"
  shows "drv (dev (terminal_putchar B c s)) = drv (dev s)"
  by (simp add: terminal_putchar_def terminal_putentryat_def update_cursor_def outb_def Let_def
      ata_on_other [OF assms] terminal_scroll_def)

lemma drv_writestring:
  assumes "ata_on B drv"
  shows "drv (dev (terminal_writestring B cs s)) = drv (dev s)"
  by (induction cs arbitrary: s) (simp_all add: terminal_writestring_def terminal_write_def drv_putchar [OF assms])

lemma dev_newline [simp]: "dev (terminal_newline s) = dev s"
  by (simp add: terminal_newline_def Let_def)

text \<open>The serial line delivers a message and the drive does not notice.\<close>

lemma putcc_ret:
  assumes "ata_on B drv" "uart_ready B"
  shows "\<exists>d. putcc B c s = ret (s\<lparr>dev := d\<rparr>) \<and> drv d = drv (dev s)"
proof -
  have raw: "\<exists>d. putcc_raw B c s = ret (s\<lparr>dev := d\<rparr>) \<and> drv d = drv (dev s)" for c and s :: "('a, 'b) hw_scheme"
    using assms
    by (intro exI [of _ "bus_outb B TTY c (snd (bus_inb B (TTY + LSR) (dev s)))"])
      (simp add: putcc_raw_def inb_until.simps [of B "0x3FD"] uart_ready_def inb_def outb_def
        Let_def case_prod_beta ata_on_other TTY_def LSR_def)
  obtain d1 where 1: "putcc_raw B 0x0D s = ret (s\<lparr>dev := d1\<rparr>)" "drv d1 = drv (dev s)"
    using raw by blast
  obtain d2 where 2: "putcc_raw B c (s\<lparr>dev := d1\<rparr>) = ret (s\<lparr>dev := d2\<rparr>)" "drv d2 = drv d1"
    using raw [of c "s\<lparr>dev := d1\<rparr>"] by auto
  show ?thesis
    using 1 2 raw [of c s] by (auto simp: putcc_def)
qed

lemma printss_ret:
  assumes "ata_on B drv" "uart_ready B" "terminated cs"
  shows "\<exists>d. printss B cs s = ret (s\<lparr>dev := d\<rparr>) \<and> drv d = drv (dev s)"
  using assms(3)
proof (induction cs arbitrary: s)
  case (Cons c cs)
  show ?case
  proof (cases "c = 0")
    case True
    then show ?thesis by (auto intro!: exI [of _ "dev s"])
  next
    case False
    obtain d1 where 1: "putcc B c s = ret (s\<lparr>dev := d1\<rparr>)" "drv d1 = drv (dev s)"
      using putcc_ret [OF assms(1,2)] by blast
    obtain d2 where "printss B cs (s\<lparr>dev := d1\<rparr>) = ret (s\<lparr>dev := d2\<rparr>)" "drv d2 = drv d1"
      using Cons.IH [of "s\<lparr>dev := d1\<rparr>"] Cons.prems False by (auto simp: terminated_Cons)
    with 1 False show ?thesis by auto
  qed
qed (simp add: terminated_def)

subsection \<open>Transfers\<close>

text \<open>Writing a word in front of a block.\<close>

lemma mem_write_Cons:
  assumes "length bs < 2 ^ 32"
  shows "mem_write m a (b # bs) = mem_write (m(a := b)) (a + 1) bs"
proof
  fix x
  have "x = a \<or> unat (x - a) = Suc (unat (x - (a + 1)))"
    using unatSuc [of "x - (a + 1)"] by (cases "x = a") auto
  moreover have "unat (a - (a + 1)) = 4294967295"
    by (subst unat_diff_eq) simp_all
  then have "\<not> unat (a - (a + 1)) < length bs"
    using assms by simp
  ultimately show "mem_write m a (b # bs) x = mem_write (m(a := b)) (a + 1) bs x"
    by (auto simp: mem_write_def)
qed

lemma mem_write_poke16:
  "length bs + 1 < 2 ^ 32 \<Longrightarrow>
     mem_write m a (b0 # b1 # bs) = mem_write (poke16 a (le16 b0 b1) m) (a + 2) bs"
  using bytes16_le16 [of b0 b1]
  by (simp add: mem_write_Cons poke16_def bytes16_def add.commute)

lemma start_mode [simp]:
  "start_in lba n (a\<lparr>mode := x\<rparr>) = start_in lba n a" "start_out lba n (a\<lparr>mode := x\<rparr>) = start_out lba n a"
  "start_out lba n (a\<lparr>mode := x, sectors := y\<rparr>) = start_out lba n (a\<lparr>sectors := y\<rparr>)"
  by (cases n; simp add: start_in_def start_out_def next_delay_def)+

lemma read_words_block:
  assumes "ata_on B drv"
  shows "mode (drv (dev s)) = DataIn lba k 0 bs \<Longrightarrow> length bs = 2 * n \<Longrightarrow> 0 < n \<Longrightarrow> n \<le> 256 \<Longrightarrow>
    \<exists>d. read_words B n buf s = s\<lparr>dev := d, ram := mem_write (ram s) buf bs\<rparr>
      \<and> drv d = start_in (lba + 1) k (drv (dev s))"
proof (induction n arbitrary: s buf bs)
  case (Suc n)
  obtain b0 b1 cs where bs: "bs = b0 # b1 # cs" "length cs = 2 * n"
    using Suc.prems(2) by (cases bs rule: remdups_adj.cases) auto
  have in_: "fst (bus_inw B 0x1F0 (dev s)) = le16 b0 b1"
    "drv (snd (bus_inw B 0x1F0 (dev s))) =
      (if n = 0 then start_in (lba + 1) k (drv (dev s)) else (drv (dev s))\<lparr>mode := DataIn lba k 0 cs\<rparr>)"
    using assms Suc.prems(1) bs by (auto simp: ata_on_def data_in_def)
  let ?s = "s\<lparr>dev := snd (bus_inw B 0x1F0 (dev s)), ram := poke16 buf (le16 b0 b1) (ram s)\<rparr>"
  have step: "read_words B (Suc n) buf s = read_words B n (buf + 2) ?s"
    using in_(1) by (simp add: inw_def case_prod_beta Let_def)
  have mem: "mem_write (ram s) buf bs = mem_write (ram ?s) (buf + 2) cs"
    using bs Suc.prems(4) by (simp add: mem_write_poke16)
  show ?case
  proof (cases "n = 0")
    case True
    then show ?thesis
      unfolding step mem using in_(2) bs(2) by (auto intro!: exI [of _ "dev ?s"])
  next
    case False
    then obtain d where "read_words B n (buf + 2) ?s =
        ?s\<lparr>dev := d, ram := mem_write (ram ?s) (buf + 2) cs\<rparr>"
      and "drv d = start_in (lba + 1) k (drv (dev ?s))"
      using Suc.IH [of ?s cs "buf + 2"] in_(2) bs(2) Suc.prems(4) by auto
    with False show ?thesis
      unfolding step mem using in_(2) by (auto intro!: exI [of _ d])
  qed
qed simp

text \<open>The read wait succeeds if the drive is ready within the reads that are left.\<close>

lemma inb_status:
  assumes "ata_on B drv"
  shows "fst (inb B 0x1F7 s) = fst (ata_status (drv (dev s)))"
    "\<exists>d. snd (inb B 0x1F7 s) = s\<lparr>dev := d\<rparr> \<and> drv d = snd (ata_status (drv (dev s)))"
proof -
  have *: "ata_status (drv (dev s)) = (fst (bus_inb B 0x1F7 (dev s)), drv (snd (bus_inb B 0x1F7 (dev s))))"
    using assms by (simp add: ata_on_def)
  show "fst (inb B 0x1F7 s) = fst (ata_status (drv (dev s)))"
    by (simp add: * inb_def case_prod_beta Let_def)
  show "\<exists>d. snd (inb B 0x1F7 s) = s\<lparr>dev := d\<rparr> \<and> drv d = snd (ata_status (drv (dev s)))"
    by (rule exI [of _ "snd (bus_inb B 0x1F7 (dev s))"]) (simp add: * inb_def case_prod_beta Let_def)
qed

lemma console_step_dev [console_intros]:
  "console_step s t \<Longrightarrow> console_step s (t\<lparr>dev := d\<rparr>)"
  by (erule console_step_extend) (simp add: tty_ok_def screen_frame_def)

lemma read_wait_ready:
  assumes "ata_on B drv"
  shows "mode (drv (dev s)) = DataIn lba k w bs \<Longrightarrow> w < r \<Longrightarrow> tty_ok s \<Longrightarrow>
    \<exists>t. read_wait B r s = (True, t) \<and> console_step s t
      \<and> drv (dev t) = (drv (dev s))\<lparr>mode := DataIn lba k 0 bs\<rparr>"
proof (induction r arbitrary: s w)
  case (Suc r)
  obtain d where d: "snd (inb B 0x1F7 s) = s\<lparr>dev := d\<rparr>" "drv d = snd (ata_status (drv (dev s)))"
    using inb_status(2) [OF assms] by blast
  show ?case
  proof (cases w)
    case 0
    then have "ata_status (drv (dev s)) = (0x48, drv (dev s))"
      using Suc.prems(1) by (simp add: ata_status_def)
    then show ?thesis
      using d Suc.prems(1,3) 0 inb_status(1) [OF assms, of s]
      by (auto simp: case_prod_beta Let_def intro!: console_intros)
  next
    case (Suc w')
    let ?t = "terminal_writestring B (lit ''.'') (s\<lparr>dev := d\<rparr>)"
    have status: "ata_status (drv (dev s)) = (0x80, (drv (dev s))\<lparr>mode := DataIn lba k w' bs\<rparr>)"
      using Suc.prems(1) Suc by (simp add: ata_status_def)
    have step: "console_step s ?t"
      using Suc.prems(3) by (intro console_intros)
    have t: "drv (dev ?t) = (drv (dev s))\<lparr>mode := DataIn lba k w' bs\<rparr>"
      using d(2) status by (simp add: drv_writestring [OF assms])
    have "read_wait B (Suc r) s = read_wait B r ?t"
      using d status inb_status(1) [OF assms, of s] by (simp add: case_prod_beta Let_def)
    moreover have "tty_ok ?t"
      using step by (simp add: console_step_def)
    then obtain u where "read_wait B r ?t = (True, u)" "console_step ?t u"
      "drv (dev u) = (drv (dev ?t))\<lparr>mode := DataIn lba k 0 bs\<rparr>"
      using Suc.IH [of ?t w'] t Suc Suc.prems(2) by auto
    ultimately show ?thesis
      using console_step_trans [OF step] t by auto
  qed
qed simp

text \<open>Two memories that agree outside the text screen.\<close>

definition off_screen :: "mem \<Rightarrow> mem \<Rightarrow> bool" where
  "off_screen m m' \<longleftrightarrow> (\<forall>x. \<not> in_block VGA_MEMORY 4000 x \<longrightarrow> m x = m' x)"

lemma off_screen_refl [simp]: "off_screen m m"
  by (simp add: off_screen_def)

lemma off_screen_trans: "off_screen m m' \<Longrightarrow> off_screen m' m'' \<Longrightarrow> off_screen m m''"
  by (simp add: off_screen_def)

lemma off_screen_sym: "off_screen m m' \<Longrightarrow> off_screen m' m"
  by (simp add: off_screen_def)

lemma off_screen_apart:
  assumes "off_screen m m'" "apart VGA_MEMORY 4000 a n" "n \<le> 2 ^ 32"
  shows "mem_read m a n = mem_read m' a n"
proof (rule mem_read_cong)
  fix i
  assume "i < n"
  then have "in_block a n (a + of_nat i)" using assms(3) by simp
  then show "m (a + of_nat i) = m' (a + of_nat i)"
    using assms(1,2) unfolding off_screen_def apart_def by blast
qed

lemma off_screen_write: "off_screen m m' \<Longrightarrow> off_screen (mem_write m a bs) (mem_write m' a bs)"
  by (auto simp: off_screen_def mem_write_def)

lemma console_step_off_screen: "console_step s t \<Longrightarrow> off_screen (ram t) (ram s)"
  by (auto simp: console_step_def screen_frame_def off_screen_def)

text \<open>Memory below the text screen is not affected by it.\<close>

lemma off_screen_low:
  assumes "off_screen m m'" "unat a + n \<le> 0xB8000"
  shows "mem_read m a n = mem_read m' a n"
proof (rule mem_read_cong)
  fix i
  assume i: "i < n"
  let ?x = "a + of_nat i"
  have x: "unat ?x < 0xB8000"
    using assms(2) i by (simp add: unat_word_ariths)
  have "\<not> in_block VGA_MEMORY 4000 ?x"
  proof
    assume "in_block VGA_MEMORY 4000 ?x"
    then obtain y where "?x = VGA_MEMORY + y" "unat y < 4000"
      using that [of "?x - VGA_MEMORY"] by (simp add: in_block_def)
    with x show False
      by (simp add: VGA_MEMORY_def unat_word_ariths)
  qed
  then show "m ?x = m' ?x"
    using assms(1) by (simp add: off_screen_def)
qed

text \<open>A drive that is idle, has full sectors and is ready within 100 status reads.\<close>

definition drive_ok :: "ata \<Rightarrow> bool" where
  "drive_ok a \<longleftrightarrow> (\<forall>l. length (sectors a l) = 512) \<and> (\<forall>i. delays a i < 100)"

lemma start_in_simps [simp]:
  "sectors (start_in lba n a) = sectors a" "delays (start_in lba n a) = (\<lambda>i. delays a (Suc i))"
  "mode (start_in lba n a) =
     (case n of 0 \<Rightarrow> Idle | Suc k \<Rightarrow> DataIn lba k (delays a 0) (sectors a lba))"
  by (simp_all add: start_in_def next_delay_def)

lemma start_out_simps [simp]:
  "sectors (start_out lba n a) = sectors a" "delays (start_out lba n a) = (\<lambda>i. delays a (Suc i))"
  "mode (start_out lba n a) = (case n of 0 \<Rightarrow> Idle | Suc k \<Rightarrow> DataOut lba k (delays a 0) [])"
  by (simp_all add: start_out_def next_delay_def)

text \<open>The bytes of \<open>n\<close> sectors from one on.\<close>

primrec sector_run :: "(u32 \<Rightarrow> u8 list) \<Rightarrow> u32 \<Rightarrow> nat \<Rightarrow> u8 list" where
  "sector_run sect lba 0 = []"
| "sector_run sect lba (Suc n) = sect lba @ sector_run sect (lba + 1) n"

lemma length_sector_run: "(\<And>l. length (sect l) = 512) \<Longrightarrow> length (sector_run sect lba n) = 512 * n"
  by (induction n arbitrary: lba) simp_all

lemma mem_write_append:
  assumes "length bs + length cs \<le> 2 ^ 32"
  shows "mem_write m a (bs @ cs) = mem_write (mem_write m a bs) (a + of_nat (length bs)) cs"
  using assms
proof (induction bs arbitrary: m a)
  case (Cons b bs)
  then show ?case
    by (simp add: mem_write_Cons add.assoc)
qed simp

lemma read_blocks_ok:
  assumes on: "ata_on B drv" and a: "drive_ok a"
  shows "tty_ok s \<Longrightarrow> drv (dev s) = start_in lba n a \<Longrightarrow> n \<le> 127 \<Longrightarrow>
    \<exists>t. read_blocks B n buf s = (0, t) \<and> tty_ok t \<and> tty.more t = tty.more s
      \<and> off_screen (ram t) (mem_write (ram s) buf (sector_run (sectors a) lba n))
      \<and> mode (drv (dev t)) = Idle \<and> sectors (drv (dev t)) = sectors a \<and> drive_ok (drv (dev t))"
  using a
proof (induction n arbitrary: s lba buf a)
  case 0
  then show ?case by (simp add: drive_ok_def)
next
  case (Suc n)
  let ?s = "terminal_writestring B (lit ''[      ] Waiting for device to be ready...'') (terminal_newline s)"
  have s1: "console_step s ?s"
    using Suc.prems(1) by (intro console_intros)
  have drv1: "drv (dev ?s) = start_in lba (Suc n) a"
    using Suc.prems(2) by (simp add: drv_writestring [OF on])
  obtain t where t: "read_wait B 100 ?s = (True, t)" "console_step ?s t"
    "drv (dev t) = (start_in lba (Suc n) a)\<lparr>mode := DataIn lba n 0 (sectors a lba)\<rparr>"
    using read_wait_ready [OF on, of ?s lba n "delays a 0" "sectors a lba" 100] drv1 s1 Suc.prems(4)
    by (auto simp: drive_ok_def console_step_def)
  obtain d where d: "read_words B 256 buf t = t\<lparr>dev := d, ram := mem_write (ram t) buf (sectors a lba)\<rparr>"
    "drv d = start_in (lba + 1) n (start_in lba (Suc n) a)"
    using read_words_block [OF on, of t lba n "sectors a lba" 256 buf] t(3) Suc.prems(4)
    by (auto simp: drive_ok_def)
  let ?u = "t\<lparr>dev := d, ram := mem_write (ram t) buf (sectors a lba)\<rparr>"
  have st: "console_step s t" using console_step_trans [OF s1 t(2)] .
  have a1: "drive_ok (start_in lba (Suc n) a)"
    using Suc.prems(4) by (simp add: drive_ok_def)
  obtain v where v: "read_blocks B n (buf + 512) ?u = (0, v)" "tty_ok v" "tty.more v = tty.more ?u"
    "off_screen (ram v) (mem_write (ram ?u) (buf + 512) (sector_run (sectors a) (lba + 1) n))"
    "mode (drv (dev v)) = Idle" "sectors (drv (dev v)) = sectors a" "drive_ok (drv (dev v))"
    using Suc.IH [OF _ _ _ a1, of ?u "lba + 1" "buf + 512"] st d(2) Suc.prems(3)
    by (auto simp: console_step_def tty_ok_def)
  have len: "length (sectors a lba) = 512"
    using Suc.prems(4) by (simp add: drive_ok_def)
  have mem: "mem_write (ram s) buf (sector_run (sectors a) lba (Suc n)) =
      mem_write (mem_write (ram s) buf (sectors a lba)) (buf + 512) (sector_run (sectors a) (lba + 1) n)"
    using mem_write_append [of "sectors a lba" "sector_run (sectors a) (lba + 1) n" "ram s" buf]
      Suc.prems(3,4) len by (simp add: drive_ok_def length_sector_run)
  have "off_screen (ram v) (mem_write (ram s) buf (sector_run (sectors a) lba (Suc n)))"
    unfolding mem
    using off_screen_trans [OF v(4)] off_screen_write [OF off_screen_write [OF console_step_off_screen [OF st]]]
    by simp
  then show ?case
    using v t(1) d(1) st by (simp add: Let_def console_step_def screen_frame_def)
qed

text \<open>The command block selects the sector and the count.\<close>

lemma lba_registers:
  assumes "lba < 2 ^ 28"
  shows "le32 (ucast lba) (ucast (drop_bit 8 lba)) (ucast (drop_bit 16 lba))
    (ucast (0xE0 OR push_bit 4 0 OR (drop_bit 24 lba AND 0x0F)) AND 0x0F) = (lba :: u32)"
proof -
  have high: "\<not> bit lba n" if "28 \<le> n" for n
  proof -
    have "take_bit 28 (unat lba) = unat lba"
      using assms by (simp add: take_bit_nat_eq_self word_less_nat_alt)
    then have "\<not> bit (unat lba) n"
      using that by (metis bit_take_bit_iff linorder_not_less)
    then show ?thesis
      by (simp add: bit_unsigned_iff)
  qed
  have high4: "n < 4" if "bit lba (24 + n)" for n
    using high [of "24 + n"] that by (cases "n < 4") auto
  have m: "bit (0x0F :: int) n \<longleftrightarrow> n < 4" "bit (0xE0 :: int) n \<longleftrightarrow> 5 \<le> n \<and> n < 8" for n
  proof -
    have "(0x0F :: int) = mask 4" "(0xE0 :: int) = push_bit 5 (mask 3)"
      by (simp_all add: mask_eq_exp_minus_1 push_bit_eq_mult)
    then show "bit (0x0F :: int) n \<longleftrightarrow> n < 4" "bit (0xE0 :: int) n \<longleftrightarrow> 5 \<le> n \<and> n < 8"
      by (auto simp only: bit_mask_iff bit_push_bit_iff) (auto simp: bit_mask_iff)
  qed
  have "ucast (0xE0 OR push_bit 4 0 OR (drop_bit 24 lba AND 0x0F)) AND 0x0F = (ucast (drop_bit 24 lba) :: u8)"
    by (rule bit_word_eqI) (auto simp: bit_simps m dest: high4)
  then show ?thesis
    by (simp add: le32_bytes32)
qed

lemma ata_command_ok:
  assumes on: "ata_on B drv" and idle: "mode (drv (dev s)) = Idle" and lba: "lba < 2 ^ 28"
    and cmd: "cmd = 0x20 \<or> cmd = 0x30"
  obtains d a where "ata_command B lba n cmd s = s\<lparr>dev := d\<rparr>"
    and "drv d = (if cmd = 0x20 then start_in lba (unat n) a else start_out lba (unat n) a)"
    and "sectors a = sectors (drv (dev s))" "delays a = delays (drv (dev s))"
proof -
  let ?d = "ucast (0xE0 OR push_bit 4 0 OR (drop_bit 24 lba AND 0x0F)) :: u8"
  let ?a = "(drv (dev s))\<lparr>count := n, lba0 := ucast lba, lba1 := ucast (drop_bit 8 lba),
      lba2 := ucast (drop_bit 16 lba), drive := ?d\<rparr>"
  have reg: "drv (bus_outb B p v d) = ata_register p v (drv d)"
    if "mode (drv d) = Idle" "0x1F1 \<le> p" "p \<le> 0x1F6" for p v d
    using on that by (simp add: ata_on_def)
  have start: "drv (bus_outb B 0x1F7 c d) = ata_start c (drv d)"
    if "mode (drv d) = Idle" "c = 0x20 \<or> c = 0x30" for c d
    using on that by (auto simp: ata_on_def)
  have "ata_lba ?a = lba"
    using lba_registers [OF lba] by (simp add: ata_lba_def)
  then have "drv (dev (ata_command B lba n cmd s)) =
      (if cmd = 0x20 then start_in lba (unat n) ?a else start_out lba (unat n) ?a)"
    using cmd idle
    by (auto simp: ata_command_def outb_def Let_def reg start ata_register_def ata_start_def)
  moreover have "ata_command B lba n cmd s = s\<lparr>dev := dev (ata_command B lba n cmd s)\<rparr>"
    by (simp add: ata_command_def outb_def Let_def)
  ultimately show ?thesis
    using that [of "dev (ata_command B lba n cmd s)" ?a] by simp
qed

text \<open>Sectors of the partition have 28-bit addresses.\<close>

lemma partition_lba:
  assumes "unat sec + n \<le> unat part_length"
  shows "sec + part_start_lba < 2 ^ 28"
proof -
  have "unat (sec + part_start_lba) = unat sec + unat part_start_lba"
    using assms by (simp add: unat_word_ariths part_length_def part_start_lba_def)
  then show ?thesis
    using assms by (simp add: word_less_nat_alt part_length_def part_start_lba_def)
qed

text \<open>
  The specification of a read: the range check and the block in memory. The buffer may
  overlap nothing but the text screen.
\<close>

lemma partition_range:
  assumes "unat sec + unat n \<le> unat part_length"
  shows "\<not> sec + ucast (n :: u8) > part_length"
proof -
  have "unat (sec + ucast n) = unat sec + unat n"
    using assms less_trans [OF unat_u8_less [of n], of "2 ^ 32"]
    by (simp add: unat_word_ariths part_length_def unsigned_ucast_eq take_bit_nat_eq_self)
  then show ?thesis
    using assms by (simp add: word_less_nat_alt)
qed

lemma int13h_read_o_ok:
  assumes on: "ata_on B drv" and ok: "tty_ok s" "drive_ok (drv (dev s))" "mode (drv (dev s)) = Idle"
    and r: "unat sec + unat n \<le> unat part_length" "n \<le> 0x7F"
  obtains t where "int13h_read_o B sec n off s = (0, t)" "tty_ok t" "tty.more t = tty.more s"
    and "off_screen (ram t) (mem_write (ram s) (DISK_READ_LOCATION + off)
      (sector_run (sectors (drv (dev s))) (sec + part_start_lba) (unat n)))"
    and "mode (drv (dev t)) = Idle" "sectors (drv (dev t)) = sectors (drv (dev s))" "drive_ok (drv (dev t))"
proof -
  obtain d a where c: "ata_command B (sec + part_start_lba) n 0x20 s = s\<lparr>dev := d\<rparr>"
    "drv d = start_in (sec + part_start_lba) (unat n) a"
    "sectors a = sectors (drv (dev s))" "delays a = delays (drv (dev s))"
    using ata_command_ok [OF on ok(3) partition_lba [OF r(1)], of "0x20" n] by auto
  have a: "drive_ok a" using ok(2) c(3,4) by (simp add: drive_ok_def)
  have n: "unat n \<le> 127" using r(2) by (simp add: word_le_nat_alt)
  have "int13h_read_o B sec n off s = read_blocks B (unat n) (DISK_READ_LOCATION + off) (s\<lparr>dev := d\<rparr>)"
    using partition_range [OF r(1)] leD [OF r(2)] c(1) by (simp add: int13h_read_o_def Let_def)
  then show ?thesis
    using read_blocks_ok [OF on a, of "s\<lparr>dev := d\<rparr>" "sec + part_start_lba" "unat n" "DISK_READ_LOCATION + off"]
      ok(1) c n that by (auto simp: tty_ok_def)
qed

subsection \<open>Writing\<close>

lemma bytes16_peek16: "bytes16 (peek16 m a) = mem_read m a 2"
  by (simp add: peek16_def bytes16_le16 mem_read_def numeral_2_eq_2)

text \<open>What a write leaves of the disk: \<open>n\<close> consecutive sectors replaced.\<close>

primrec put_run :: "(u32 \<Rightarrow> u8 list) \<Rightarrow> u32 \<Rightarrow> u8 list \<Rightarrow> nat \<Rightarrow> u32 \<Rightarrow> u8 list" where
  "put_run sect lba bs 0 = sect"
| "put_run sect lba bs (Suc n) = put_run (set_sector sect lba (take 512 bs)) (lba + 1) (drop 512 bs) n"

lemma outw_delay:
  assumes on: "ata_on B drv" and m: "mode (drv (dev s)) = DataOut lba k 0 bs"
  shows "\<exists>d. write_words B (Suc n) buf s = write_words B n (buf + 2) (s\<lparr>dev := d\<rparr>)
    \<and> drv d = data_out lba k bs (peek16 (ram s) buf) (drv (dev s))"
proof -
  let ?o = "bus_outw B 0x1F0 (peek16 (ram s) buf) (dev s)"
  let ?i = "\<lambda>d. snd (bus_inb B 0x323 d)"
  have "drv ?o = data_out lba k bs (peek16 (ram s) buf) (drv (dev s))"
    using on m by (simp add: ata_on_def)
  then have "drv (?i (?i (?i ?o))) = data_out lba k bs (peek16 (ram s) buf) (drv (dev s))"
    by (simp add: ata_on_other [OF on])
  moreover have "write_words B (Suc n) buf s = write_words B n (buf + 2) (s\<lparr>dev := ?i (?i (?i ?o))\<rparr>)"
    by (simp add: outw_def inb_def case_prod_beta Let_def)
  ultimately show ?thesis by blast
qed

lemma write_words_block:
  assumes on: "ata_on B drv"
  shows "mode (drv (dev s)) = DataOut lba k 0 bs \<Longrightarrow> length bs + 2 * n = 512 \<Longrightarrow> 0 < n \<Longrightarrow>
    \<exists>d. write_words B n buf s = s\<lparr>dev := d\<rparr>
      \<and> drv d = start_out (lba + 1) k ((drv (dev s))\<lparr>sectors :=
          set_sector (sectors (drv (dev s))) lba (bs @ mem_read (ram s) buf (2 * n))\<rparr>)"
proof (induction n arbitrary: s buf bs)
  case (Suc n)
  obtain d where d: "write_words B (Suc n) buf s = write_words B n (buf + 2) (s\<lparr>dev := d\<rparr>)"
    "drv d = data_out lba k bs (peek16 (ram s) buf) (drv (dev s))"
    using outw_delay [OF on Suc.prems(1)] by blast
  let ?bs = "bs @ mem_read (ram s) buf 2"
  have split: "mem_read (ram s) buf (2 * Suc n) = mem_read (ram s) buf 2 @ mem_read (ram s) (buf + 2) (2 * n)"
    using mem_read_append [of "ram s" buf 2 "2 * n"] by simp
  show ?case
  proof (cases "n = 0")
    case True
    then have "length bs = 510"
      using Suc.prems(2) by simp
    then show ?thesis
      unfolding d(1) split using d(2) True
      by (intro exI [of _ d]) (simp add: data_out_def Let_def bytes16_peek16 mem_read_def)
  next
    case False
    then have len: "length bs + 2 < 512" "length ?bs + 2 * n = 512"
      using Suc.prems(2) by simp_all
    then have m: "drv d = (drv (dev s))\<lparr>mode := DataOut lba k 0 ?bs\<rparr>"
      using d(2) by (simp add: data_out_def Let_def bytes16_peek16)
    obtain e where "write_words B n (buf + 2) (s\<lparr>dev := d\<rparr>) = s\<lparr>dev := e\<rparr>"
      "drv e = start_out (lba + 1) k ((drv d)\<lparr>sectors :=
          set_sector (sectors (drv d)) lba (?bs @ mem_read (ram s) (buf + 2) (2 * n))\<rparr>)"
      using Suc.IH [of "s\<lparr>dev := d\<rparr>" ?bs "buf + 2", OF _ len(2)] m False by auto
    then show ?thesis
      unfolding d(1) split using m by (auto intro!: exI [of _ e])
  qed
qed simp

text \<open>The wait before a sector ends, with messages on the serial line while the drive is busy.\<close>

lemma write_wait_ready:
  assumes on: "ata_on B drv" and uart: "uart_ready B"
  shows "mode (drv (dev s)) = DataOut lba k w bs \<Longrightarrow>
    \<exists>d. write_wait B s = ret (s\<lparr>dev := d\<rparr>) \<and> drv d = (drv (dev s))\<lparr>mode := DataOut lba k 0 bs\<rparr>"
proof (induction w arbitrary: s rule: less_induct)
  case (less w)
  have read: "\<exists>d. inb B 0x1F7 t = ((if w = 0 then 0x48 else 0x80), t\<lparr>dev := d\<rparr>)
      \<and> drv d = (drv (dev t))\<lparr>mode := DataOut lba k (w - 1) bs\<rparr>"
    if "mode (drv (dev t)) = DataOut lba k w bs" for w and t :: "('a, 'b) hw_scheme"
  proof -
    obtain d where "snd (inb B 0x1F7 t) = t\<lparr>dev := d\<rparr>" "drv d = snd (ata_status (drv (dev t)))"
      using inb_status(2) [OF on] by blast
    then show ?thesis
      using inb_status(1) [OF on, of t] that
      by (auto simp: ata_status_def prod_eq_iff split: if_splits)
  qed
  obtain d1 where 1: "inb B 0x1F7 s = ((if w = 0 then 0x48 else 0x80), s\<lparr>dev := d1\<rparr>)"
    "drv d1 = (drv (dev s))\<lparr>mode := DataOut lba k (w - 1) bs\<rparr>"
    using read [OF less.prems] by blast
  obtain d2 where 2: "inb B 0x1F7 (s\<lparr>dev := d1\<rparr>) = ((if w - 1 = 0 then 0x48 else 0x80), s\<lparr>dev := d2\<rparr>)"
    "drv d2 = (drv (dev s))\<lparr>mode := DataOut lba k (w - 1 - 1) bs\<rparr>"
    using read [of "s\<lparr>dev := d1\<rparr>" "w - 1"] 1 by auto
  show ?case
  proof (cases "w \<le> 1")
    case True
    obtain d3 where 3: "inb B 0x1F7 (s\<lparr>dev := d2\<rparr>) = (0x48, s\<lparr>dev := d3\<rparr>)"
      "drv d3 = (drv (dev s))\<lparr>mode := DataOut lba k 0 bs\<rparr>"
      using read [of "s\<lparr>dev := d2\<rparr>" 0] 2 True by auto
    obtain d4 where 4: "inb B 0x1F7 (s\<lparr>dev := d3\<rparr>) = (0x48, s\<lparr>dev := d4\<rparr>)"
      "drv d4 = (drv (dev s))\<lparr>mode := DataOut lba k 0 bs\<rparr>"
      using read [of "s\<lparr>dev := d3\<rparr>" 0] 3 by auto
    show ?thesis
      using True 1(1) 2(1) 3(1) 4 by (subst write_wait.simps) (auto simp: Let_def)
  next
    case False
    obtain d3 where 3: "printss B (cstr (''Not ready!'' @ [CHR 0x0A])) (s\<lparr>dev := d2\<rparr>) = ret (s\<lparr>dev := d3\<rparr>)"
      "drv d3 = drv d2"
      using printss_ret [OF on uart, of "cstr (''Not ready!'' @ [CHR 0x0A])" "s\<lparr>dev := d2\<rparr>"]
      by (auto simp: terminated_def cstr_def)
    obtain d4 where 4: "write_wait B (s\<lparr>dev := d3\<rparr>) = ret (s\<lparr>dev := d4\<rparr>)"
      "drv d4 = (drv (dev s))\<lparr>mode := DataOut lba k 0 bs\<rparr>"
      using less.IH [of "w - 1 - 1" "s\<lparr>dev := d3\<rparr>"] 3 2(2) False by auto
    show ?thesis
      using False 1(1) 2(1) 3(1) 4 by (subst write_wait.simps) (auto simp: Let_def)
  qed
qed

lemma put_run_length:
  assumes "\<And>l. length (sect l) = 512" "length bs = 512 * n"
  shows "length (put_run sect lba bs n l) = 512"
  using assms
proof (induction n arbitrary: sect lba bs)
  case (Suc n)
  show ?case
    using Suc.prems by (simp add: Suc.IH set_sector_def)
qed simp

lemma write_blocks_ok:
  assumes on: "ata_on B drv" and uart: "uart_ready B"
  shows "drv (dev s) = start_out lba n a \<Longrightarrow>
    \<exists>d. write_blocks B n buf s = ret (s\<lparr>dev := d\<rparr>) \<and> mode (drv d) = Idle
      \<and> sectors (drv d) = put_run (sectors a) lba (mem_read (ram s) buf (512 * n)) n
      \<and> delays (drv d) = (\<lambda>i. delays a (Suc (n + i)))"
proof (induction n arbitrary: s lba buf a)
  case 0
  then show ?case by (auto intro!: exI [of _ "dev s"])
next
  case (Suc n)
  obtain d1 where 1: "write_wait B s = ret (s\<lparr>dev := d1\<rparr>)"
    "drv d1 = (start_out lba (Suc n) a)\<lparr>mode := DataOut lba n 0 []\<rparr>"
    using write_wait_ready [OF on uart, of s lba n "delays a 0" "[]"] Suc.prems by auto
  let ?bs = "mem_read (ram s) buf 512"
  obtain d2 where 2: "write_words B 256 buf (s\<lparr>dev := d1\<rparr>) = s\<lparr>dev := d2\<rparr>"
    "drv d2 = start_out (lba + 1) n ((drv d1)\<lparr>sectors := set_sector (sectors (drv d1)) lba ?bs\<rparr>)"
    using write_words_block [OF on, of "s\<lparr>dev := d1\<rparr>" lba n "[]" 256 buf] 1(2) by auto
  let ?a = "(drv d1)\<lparr>sectors := set_sector (sectors (drv d1)) lba ?bs\<rparr>"
  obtain d3 where 3: "write_blocks B n (buf + 512) (s\<lparr>dev := d2\<rparr>) = ret (s\<lparr>dev := d3\<rparr>)"
    "mode (drv d3) = Idle" "delays (drv d3) = (\<lambda>i. delays ?a (Suc (n + i)))"
    "sectors (drv d3) = put_run (sectors ?a) (lba + 1) (mem_read (ram s) (buf + 512) (512 * n)) n"
    using Suc.IH [of "s\<lparr>dev := d2\<rparr>" "lba + 1" ?a "buf + 512"] 2(2) by auto
  have "mem_read (ram s) buf (512 * Suc n) = ?bs @ mem_read (ram s) (buf + 512) (512 * n)"
    using mem_read_append [of "ram s" buf 512 "512 * n"] by simp
  then show ?case
    using 1 2(1) 3 by (auto intro!: exI [of _ d3])
qed

lemma flush_ends:
  assumes on: "ata_on B drv"
  shows "mode (drv (dev s)) = Flush w \<Longrightarrow>
    \<exists>v d. inb_until B 0x1F7 (\<lambda>v. v AND 0x80 = 0) s = ret (v, s\<lparr>dev := d\<rparr>)
      \<and> drv d = (drv (dev s))\<lparr>mode := Idle\<rparr>"
proof (induction w arbitrary: s)
  case 0
  obtain d where "snd (inb B 0x1F7 s) = s\<lparr>dev := d\<rparr>" "drv d = snd (ata_status (drv (dev s)))"
    using inb_status(2) [OF on] by blast
  with 0 show ?case
    using inb_status(1) [OF on, of s]
    by (subst inb_until.simps) (auto simp: ata_status_def case_prod_beta Let_def)
next
  case (Suc w)
  obtain d where d: "snd (inb B 0x1F7 s) = s\<lparr>dev := d\<rparr>" "drv d = snd (ata_status (drv (dev s)))"
    using inb_status(2) [OF on] by blast
  then have m: "drv d = (drv (dev s))\<lparr>mode := Flush w\<rparr>"
    using Suc.prems by (simp add: ata_status_def)
  obtain v e where "inb_until B 0x1F7 (\<lambda>v. v AND 0x80 = 0) (s\<lparr>dev := d\<rparr>) = ret (v, s\<lparr>dev := e\<rparr>)"
    "drv e = (drv d)\<lparr>mode := Idle\<rparr>"
    using Suc.IH [of "s\<lparr>dev := d\<rparr>"] m by auto
  with Suc.prems d m show ?case
    using inb_status(1) [OF on, of s]
    by (subst inb_until.simps) (auto simp: ata_status_def case_prod_beta Let_def)
qed

lemma int13h_write_o_ok:
  assumes on: "ata_on B drv" and uart: "uart_ready B"
    and ok: "drive_ok (drv (dev s))" "mode (drv (dev s)) = Idle"
    and r: "unat sec + unat n \<le> unat part_length" "n \<le> 0x7F"
  obtains d where "int13h_write_o B sec n off s = ret (0, s\<lparr>dev := d\<rparr>)"
    and "mode (drv d) = Idle" "drive_ok (drv d)"
    and "sectors (drv d) = put_run (sectors (drv (dev s))) (sec + part_start_lba)
      (mem_read (ram s) (DISK_WRITE_LOCATION + off) (512 * unat n)) (unat n)"
proof -
  let ?lba = "sec + part_start_lba" and ?bs = "mem_read (ram s) (DISK_WRITE_LOCATION + off) (512 * unat n)"
  obtain d a where c: "ata_command B ?lba n 0x30 s = s\<lparr>dev := d\<rparr>"
    "drv d = start_out ?lba (unat n) a"
    "sectors a = sectors (drv (dev s))" "delays a = delays (drv (dev s))"
    using ata_command_ok [OF on ok(2) partition_lba [OF r(1)], of "0x30" n] by auto
  obtain e where e: "write_blocks B (unat n) (DISK_WRITE_LOCATION + off) (s\<lparr>dev := d\<rparr>) = ret (s\<lparr>dev := e\<rparr>)"
    "mode (drv e) = Idle" "sectors (drv e) = put_run (sectors a) ?lba ?bs (unat n)"
    "delays (drv e) = (\<lambda>i. delays a (Suc (unat n + i)))"
    using write_blocks_ok [OF on uart, of "s\<lparr>dev := d\<rparr>" ?lba "unat n" a "DISK_WRITE_LOCATION + off"] c(2) by auto
  let ?f = "bus_outb B 0x1F7 0xE7 e"
  have f: "drv ?f = next_delay ((drv e)\<lparr>mode := Flush (delays (drv e) 0)\<rparr>)"
    using on e(2) by (simp add: ata_on_def ata_start_def)
  obtain v g where g: "inb_until B 0x1F7 (\<lambda>v. v AND 0x80 = 0) (s\<lparr>dev := ?f\<rparr>) = ret (v, s\<lparr>dev := g\<rparr>)"
    "drv g = (drv ?f)\<lparr>mode := Idle\<rparr>"
    using flush_ends [OF on, of "s\<lparr>dev := ?f\<rparr>" "delays (drv e) 0"] f by (auto simp: next_delay_def)
  have "int13h_write_o B sec n off s = ret (0, s\<lparr>dev := g\<rparr>)"
    using partition_range [OF r(1)] leD [OF r(2)] c(1) e(1) g(1)
    by (simp add: int13h_write_o_def Let_def outb_def)
  moreover have "drive_ok (drv g)"
    using ok(1) c(3,4) e(3,4) f g(2)
    by (simp add: drive_ok_def next_delay_def put_run_length)
  ultimately show ?thesis
    using that [of g] g(2) f e(3) c(3) by (simp add: next_delay_def)
qed

subsection \<open>The block device\<close>

text \<open>
  The interface the file system relies on: the sectors of the partition, transfers of up to
  127 of them between the disk and memory at \<open>DISK_READ_LOCATION\<close>, in a state where the
  device is ready. A transfer leaves the device ready; a read changes no sector and, outside
  the text screen, no memory but the buffer; a write changes no memory and no other sector.
\<close>

definition in_partition :: "u32 \<Rightarrow> u8 \<Rightarrow> bool" where
  "in_partition sec n \<longleftrightarrow> unat sec + unat n \<le> unat part_length \<and> n \<le> 0x7F"

locale block_device =
  fixes ready :: "('d, 'z) tty_scheme \<Rightarrow> bool"
    and sect :: "('d, 'z) tty_scheme \<Rightarrow> u32 \<Rightarrow> u8 list"
    and load :: "u32 \<Rightarrow> u8 \<Rightarrow> ('d, 'z) tty_scheme \<Rightarrow> int \<times> ('d, 'z) tty_scheme"
    and store :: "u32 \<Rightarrow> u8 \<Rightarrow> ('d, 'z) tty_scheme \<Rightarrow> (int \<times> ('d, 'z) tty_scheme) comp"
  assumes load_ok: "ready s \<Longrightarrow> in_partition sec n \<Longrightarrow>
      \<exists>t. load sec n s = (0, t) \<and> ready t \<and> sect t = sect s \<and> tty.more t = tty.more s
        \<and> off_screen (ram t) (mem_write (ram s) DISK_READ_LOCATION (sector_run (sect s) sec (unat n)))"
    and store_ok: "ready s \<Longrightarrow> in_partition sec n \<Longrightarrow>
      \<exists>t. store sec n s = ret (0, t) \<and> ready t \<and> tty.more t = tty.more s \<and> ram t = ram s
        \<and> sect t = put_run (sect s) sec (mem_read (ram s) DISK_WRITE_LOCATION (512 * unat n)) (unat n)"
    and sect_length: "ready s \<Longrightarrow> length (sect s l) = 512"
    and ready_ram: "ready (s\<lparr>ram := m\<rparr>) = ready s"
    and sect_ram: "sect (s\<lparr>ram := m\<rparr>) = sect s"

text \<open>Reading and writing runs of sectors.\<close>

lemma put_run_outside:
  assumes "\<And>i. i < n \<Longrightarrow> l \<noteq> lba + of_nat i"
  shows "put_run sect lba bs n l = sect l"
  using assms
proof (induction n arbitrary: sect lba bs)
  case (Suc n)
  have "put_run (set_sector sect lba (take 512 bs)) (lba + 1) (drop 512 bs) n l =
      set_sector sect lba (take 512 bs) l"
  proof (rule Suc.IH)
    fix i
    assume "i < n"
    then show "l \<noteq> lba + 1 + of_nat i"
      using Suc.prems [of "Suc i"] by (simp add: add.assoc)
  qed
  then show ?case
    using Suc.prems [of 0] by (simp add: set_sector_def)
qed simp

lemma sector_run_cong:
  "(\<And>i. i < n \<Longrightarrow> f (lba + of_nat i) = g (lba + of_nat i)) \<Longrightarrow> sector_run f lba n = sector_run g lba n"
proof (induction n arbitrary: lba)
  case (Suc n)
  have "sector_run f (lba + 1) n = sector_run g (lba + 1) n"
  proof (rule Suc.IH)
    fix i
    assume "i < n"
    then show "f (lba + 1 + of_nat i) = g (lba + 1 + of_nat i)"
      using Suc.prems [of "Suc i"] by (simp add: add.assoc)
  qed
  then show ?case
    using Suc.prems [of 0] by simp
qed simp

lemma sector_run_put_run:
  assumes "length bs = 512 * n" "n < 2 ^ 32"
  shows "sector_run (put_run sect lba bs n) lba n = bs"
  using assms
proof (induction n arbitrary: sect lba bs)
  case (Suc n)
  let ?f = "put_run (set_sector sect lba (take 512 bs)) (lba + 1) (drop 512 bs) n"
  have "?f lba = set_sector sect lba (take 512 bs) lba"
  proof (rule put_run_outside)
    fix i
    assume "i < n"
    then have "(of_nat (Suc i) :: u32) \<noteq> of_nat 0"
      using Suc.prems(2) by (subst of_nat32_inject) auto
    then show "lba \<noteq> lba + 1 + of_nat i" by (simp add: add.assoc)
  qed
  moreover have "sector_run ?f (lba + 1) n = drop 512 bs"
    using Suc by simp
  ultimately show ?case
    by (simp add: set_sector_def)
qed simp

context block_device
begin

text \<open>What is written is read back.\<close>

lemma store_load:
  assumes "ready s" "in_partition sec n"
  shows "\<exists>t u. store sec n s = ret (0, t) \<and> load sec n t = (0, u) \<and> ready u
    \<and> sect u = sect t \<and> off_screen (ram u) (ram s)"
proof -
  let ?bs = "mem_read (ram s) DISK_WRITE_LOCATION (512 * unat n)"
  obtain t where t: "store sec n s = ret (0, t)" "ready t" "ram t = ram s"
    "sect t = put_run (sect s) sec ?bs (unat n)"
    using store_ok [OF assms] by blast
  obtain u where u: "load sec n t = (0, u)" "ready u" "sect u = sect t"
    "off_screen (ram u) (mem_write (ram t) DISK_READ_LOCATION (sector_run (sect t) sec (unat n)))"
    using load_ok [OF t(2) assms(2)] by blast
  have n: "512 * unat n \<le> 2 ^ 32" "unat n < 2 ^ 32"
    using unat_u8_less [of n] by (simp_all del: unat_u8_less)
  have "mem_write (ram t) DISK_READ_LOCATION (sector_run (sect t) sec (unat n)) = ram s"
    using sector_run_put_run [of ?bs "unat n" "sect s" sec] n
    by (simp add: t(3,4) DISK_READ_LOCATION_def DISK_WRITE_LOCATION_def mem_write_read_id)
  then show ?thesis
    using t u by auto
qed

text \<open>The bytes come from the disk: they are read back whatever memory holds by then.\<close>

lemma store_reload:
  assumes "ready s" "in_partition sec n"
  defines "bs \<equiv> mem_read (ram s) DISK_WRITE_LOCATION (512 * unat n)"
  shows "\<exists>t. store sec n s = ret (0, t) \<and> ram t = ram s \<and> sect t = put_run (sect s) sec bs (unat n)
    \<and> (\<forall>m. \<exists>u. load sec n (t\<lparr>ram := m\<rparr>) = (0, u) \<and> ready u \<and> sect u = sect t
         \<and> off_screen (ram u) (mem_write m DISK_READ_LOCATION bs))"
proof -
  obtain t where t: "store sec n s = ret (0, t)" "ready t" "ram t = ram s" "sect t = put_run (sect s) sec bs (unat n)"
    using store_ok [OF assms(1,2)] unfolding bs_def by blast
  have "sector_run (sect t) sec (unat n) = bs"
    using sector_run_put_run [of bs "unat n" "sect s" sec] less_trans [OF unat_u8_less [of n], of "2 ^ 32"]
    by (simp add: t(4) bs_def)
  then have "\<exists>u. load sec n (t\<lparr>ram := m\<rparr>) = (0, u) \<and> ready u \<and> sect u = sect t
      \<and> off_screen (ram u) (mem_write m DISK_READ_LOCATION bs)" for m
    using load_ok [of "t\<lparr>ram := m\<rparr>", OF _ assms(2)] t(2) by (auto simp: ready_ram sect_ram)
  then show ?thesis using t by blast
qed

text \<open>
  Read-modify-write: a sector is read, the client changes the buffer without touching the
  disk, and writes the sector back. Exactly that sector changes, to the client's bytes.
\<close>

lemma update_sector:
  assumes "ready u" "sect u = sect s" "in_partition sec 1"
    and "mem_read (ram u) DISK_WRITE_LOCATION 512 = bs"
  shows "\<exists>v. store sec 1 u = ret (0, v) \<and> ready v \<and> tty.more v = tty.more u \<and> ram v = ram u
    \<and> sect v = set_sector (sect s) sec bs"
  using store_ok [OF assms(1,3)] assms(2,4) by auto

end

subsection \<open>The driver provides a block device\<close>

definition disk_ready :: "('d \<Rightarrow> ata) \<Rightarrow> ('d, 'z) tty_scheme \<Rightarrow> bool" where
  "disk_ready drv s \<longleftrightarrow> tty_ok s \<and> drive_ok (drv (dev s)) \<and> mode (drv (dev s)) = Idle"

definition disk :: "('d \<Rightarrow> ata) \<Rightarrow> ('d, 'z) tty_scheme \<Rightarrow> u32 \<Rightarrow> u8 list" where
  "disk drv s sec = sectors (drv (dev s)) (sec + part_start_lba)"

lemma sector_run_shift: "sector_run f (sec + p) n = sector_run (\<lambda>l. f (l + p)) sec n"
proof (induction n arbitrary: sec)
  case (Suc n)
  show ?case
    using Suc.IH [of "sec + 1"] by (simp add: ac_simps)
qed simp

lemma put_run_shift: "put_run f (sec + p) bs n (l + p) = put_run (\<lambda>l. f (l + p)) sec bs n l"
proof (induction n arbitrary: f sec bs)
  case (Suc n)
  have "(\<lambda>l. set_sector f (sec + p) x (l + p)) = set_sector (\<lambda>l. f (l + p)) sec x" for x
    by (auto simp: set_sector_def fun_eq_iff)
  then show ?case
    using Suc.IH [of _ "sec + 1"] by (simp add: ac_simps)
qed simp

lemma int13h_block_device:
  assumes on: "ata_on B drv" and uart: "uart_ready B"
  shows "block_device (disk_ready drv) (disk drv) (int13h_read B) (int13h_write B)"
proof
  fix s :: "('a, 'b) tty_scheme" and sec :: u32 and n :: u8 and l m
  show "disk_ready drv (s\<lparr>ram := m\<rparr>) = disk_ready drv s" "disk drv (s\<lparr>ram := m\<rparr>) = disk drv s"
    by (simp_all add: disk_ready_def tty_ok_def disk_def [abs_def])
  assume s: "disk_ready drv s"
  then show "length (disk drv s l) = 512"
    by (simp add: disk_ready_def disk_def drive_ok_def)
  assume r: "in_partition sec n"
  obtain t where "int13h_read_o B sec n 0 s = (0, t)" "tty_ok t" "tty.more t = tty.more s"
    "off_screen (ram t) (mem_write (ram s) (DISK_READ_LOCATION + 0)
      (sector_run (sectors (drv (dev s))) (sec + part_start_lba) (unat n)))"
    "mode (drv (dev t)) = Idle" "sectors (drv (dev t)) = sectors (drv (dev s))" "drive_ok (drv (dev t))"
    using int13h_read_o_ok [OF on, of s sec n 0] s r by (auto simp: disk_ready_def in_partition_def)
  then show "\<exists>t. int13h_read B sec n s = (0, t) \<and> disk_ready drv t \<and> disk drv t = disk drv s
      \<and> tty.more t = tty.more s
      \<and> off_screen (ram t) (mem_write (ram s) DISK_READ_LOCATION (sector_run (disk drv s) sec (unat n)))"
    by (auto simp: int13h_read_def disk_ready_def disk_def [abs_def] sector_run_shift)
  obtain d where "int13h_write_o B sec n 0 s = ret (0, s\<lparr>dev := d\<rparr>)"
    "mode (drv d) = Idle" "drive_ok (drv d)"
    "sectors (drv d) = put_run (sectors (drv (dev s))) (sec + part_start_lba)
      (mem_read (ram s) (DISK_WRITE_LOCATION + 0) (512 * unat n)) (unat n)"
    using int13h_write_o_ok [OF on uart, of s sec n 0] s r by (auto simp: disk_ready_def in_partition_def)
  then show "\<exists>t. int13h_write B sec n s = ret (0, t) \<and> disk_ready drv t \<and> tty.more t = tty.more s
      \<and> ram t = ram s
      \<and> disk drv t = put_run (disk drv s) sec (mem_read (ram s) DISK_WRITE_LOCATION (512 * unat n)) (unat n)"
    using s
    by (auto simp: int13h_write_def disk_ready_def disk_def [abs_def] put_run_shift tty_ok_def
        intro!: exI [of _ "s\<lparr>dev := d\<rparr>"])
qed

text \<open>
  A machine with this drive, a serial line that is always ready and nothing else, and the
  driver on it.
\<close>

definition ata_bus :: "ata bus" where
  "ata_bus =
     \<lparr>bus_inb = \<lambda>p a. if p = 0x1F7 then ata_status a else (0x20, a),
      bus_outb = \<lambda>p v a. if p = 0x1F7 then (if mode a = Idle then ata_start v a else a)
        else if 0x1F1 \<le> p \<and> p \<le> 0x1F6 then ata_register p v a else a,
      bus_inw = \<lambda>p a. (case mode a of DataIn lba k 0 bs \<Rightarrow> data_in lba k bs a | _ \<Rightarrow> (0, a)),
      bus_outw = \<lambda>p w a. (case mode a of DataOut lba k 0 bs \<Rightarrow> data_out lba k bs w a | _ \<Rightarrow> a)\<rparr>"

lemma ata_bus_on: "ata_on ata_bus (\<lambda>a. a)" "uart_ready ata_bus"
  by (auto simp: ata_on_def ata_bus_def uart_ready_def TTY_def LSR_def word_le_nat_alt)

interpretation ide: block_device "disk_ready (\<lambda>a. a)" "disk (\<lambda>a. a)" "int13h_read ata_bus"
  "int13h_write ata_bus"
  by (rule int13h_block_device [OF ata_bus_on])

subsection \<open>A drive that does not answer\<close>

lemma dev_frame_step: "tty_ok s \<Longrightarrow> console_step s (snd (inb B p s))"
  by (auto simp: inb_def case_prod_beta Let_def intro!: console_intros)

lemma read_wait_timeout:
  assumes "\<And>d. fst (bus_inb B 0x1F7 d) AND 0x08 = 0"
  shows "tty_ok s \<Longrightarrow> fst (read_wait B r s) = False \<and> console_step s (snd (read_wait B r s))"
proof (induction r arbitrary: s)
  case 0
  then show ?case by (auto intro!: console_intros)
next
  case (Suc r)
  let ?t = "terminal_writestring B (lit ''.'') (snd (inb B 0x1F7 s))"
  have "fst (inb B 0x1F7 s) AND 0x08 = 0"
    using assms by (simp add: inb_def case_prod_beta Let_def)
  then have "read_wait B (Suc r) s = read_wait B r ?t"
    by (simp add: case_prod_beta Let_def)
  moreover have "console_step s ?t"
    using dev_frame_step [OF Suc.prems] by (rule console_step_writestring)
  ultimately show ?case
    using Suc.IH [of ?t] console_step_trans [of s ?t] by (simp add: console_step_def)
qed

subsection \<open>Properties\<close>

text \<open>C6: what the driver writes it reads back. On a disk that behaves as the ATA command set
  documents and takes the flush command right after the last word, with a serial line that takes
  messages, \<open>int13h_write\<close> of up to 127 sectors inside the partition succeeds, changes no memory and no
  other sector. A later \<open>int13h_read\<close> of the same sectors, whatever memory holds by then, succeeds and
  brings the bytes written to the buffer; outside the buffer and the text screen memory is left alone.\<close>

theorem disk_write_read_round_trip:
  assumes "ata_on B drv" "uart_ready B" "disk_ready drv s" "in_partition sec n"
    and "bs = mem_read (ram s) DISK_WRITE_LOCATION (512 * unat n)"
  shows "\<exists>t. int13h_write B sec n s = ret (0, t) \<and> ram t = ram s
    \<and> (\<forall>l. (\<forall>i < unat n. l \<noteq> sec + of_nat i) \<longrightarrow> disk drv t l = disk drv s l)
    \<and> (\<forall>m. \<exists>u. int13h_read B sec n (t\<lparr>ram := m\<rparr>) = (0, u) \<and> disk_ready drv u \<and> disk drv u = disk drv t
         \<and> mem_read (ram u) DISK_READ_LOCATION (512 * unat n) = bs
         \<and> off_screen (ram u) (mem_write m DISK_READ_LOCATION bs))"
proof -
  have n: "512 * unat n \<le> 65024" using assms(4) by (simp add: in_partition_def word_le_nat_alt)
  obtain t where t: "int13h_write B sec n s = ret (0, t)" "ram t = ram s" "disk drv t = put_run (disk drv s) sec bs (unat n)"
    "\<forall>m. \<exists>u. int13h_read B sec n (t\<lparr>ram := m\<rparr>) = (0, u) \<and> disk_ready drv u \<and> disk drv u = disk drv t
      \<and> off_screen (ram u) (mem_write m DISK_READ_LOCATION bs)"
    using block_device.store_reload [OF int13h_block_device [OF assms(1,2)] assms(3,4)] unfolding assms(5) by blast
  moreover have "mem_read x DISK_READ_LOCATION (512 * unat n) = bs" if "off_screen x (mem_write m DISK_READ_LOCATION bs)" for x m
    using off_screen_low [OF that, of DISK_READ_LOCATION "512 * unat n"] n mem_read_write_same [of bs m DISK_READ_LOCATION]
    by (simp add: DISK_READ_LOCATION_def assms(5))
  ultimately show ?thesis
    using put_run_outside [of "unat n" _ sec "disk drv s" bs] by (intro exI [of _ t]) fastforce
qed

definition blank_drive :: ata where
  "blank_drive = \<lparr>sectors = \<lambda>_. replicate 512 0, count = 0, lba0 = 0, lba1 = 0, lba2 = 0, drive = 0,
     mode = Idle, delays = \<lambda>_. 3\<rparr>"

lemma blank_drive_ready: "disk_ready (\<lambda>a. a) (boot_tty blank_drive)"
  by (simp add: disk_ready_def drive_ok_def blank_drive_def) (simp add: boot_tty_def)

theorem disk_write_read_round_trip_witness:
  "\<exists>t u. int13h_write ata_bus 7 2 ((boot_tty blank_drive)\<lparr>ram := (\<lambda>a. ucast a)\<rparr>) = ret (0, t)
    \<and> int13h_read ata_bus 7 2 (t\<lparr>ram := (\<lambda>_. 0)\<rparr>) = (0, u)
    \<and> mem_read (ram u) DISK_READ_LOCATION 1024 = mem_read (\<lambda>a. ucast a) DISK_WRITE_LOCATION 1024
    \<and> disk (\<lambda>a. a) t 9 = disk (\<lambda>a. a) (boot_tty blank_drive) 9"
proof -
  let ?s = "(boot_tty blank_drive)\<lparr>ram := (\<lambda>a. ucast a)\<rparr>"
  have "in_partition 7 2"
    by (simp add: in_partition_def part_length_def)
  moreover have "disk_ready (\<lambda>a. a) ?s"
    using blank_drive_ready by (simp add: disk_ready_def tty_ok_def)
  moreover have "disk (\<lambda>a. a) ?s 9 = disk (\<lambda>a. a) (boot_tty blank_drive) 9" by (simp add: disk_def)
  moreover have "\<forall>i < unat (2 :: u8). (9 :: u32) \<noteq> 7 + of_nat i"
    by (auto simp: less_2_cases_iff)
  ultimately show ?thesis
    using disk_write_read_round_trip [OF ata_bus_on, of ?s 7 2, OF _ _ refl]
    by (simp only: unat_numeral) fastforce
qed

text \<open>C33: a disk that never becomes ready does not hang the system. If no status read ever shows a
  data request, a read of one or more sectors inside the partition gives up after 100 polls
  and returns an error, and no byte of memory outside the text screen has changed.\<close>

theorem read_gives_up:
  assumes "\<forall>d. fst (bus_inb B 0x1F7 d) AND 0x08 = 0" "tty_ok s" "in_partition sec n" "0 < n"
  shows "fst (int13h_read_o B sec n off s) = -1
    \<and> off_screen (ram (snd (int13h_read_o B sec n off s))) (ram s)"
proof -
  obtain k where k: "unat n = Suc k"
    using assms(4) by (metis gr0_implies_Suc unat_gt_0 word_neq_0_conv)
  let ?s = "ata_command B (sec + part_start_lba) n 0x20 s"
  let ?t = "terminal_writestring B (lit ''[      ] Waiting for device to be ready...'') (terminal_newline ?s)"
  have st: "console_step s ?t"
    using assms(2) unfolding ata_command_def Let_def by (intro console_intros)
  then have "fst (read_wait B 100 ?t) = False" "console_step ?t (snd (read_wait B 100 ?t))"
    using read_wait_timeout [of B ?t 100] assms(1) by (auto simp: console_step_def)
  moreover from this have "int13h_read_o B sec n off s = (-1, snd (read_wait B 100 ?t))"
    using partition_range [of sec n] assms(3) k
    by (simp add: int13h_read_o_def in_partition_def Let_def case_prod_beta leD)
  ultimately show ?thesis
    by (auto intro!: console_step_off_screen console_step_trans [OF st])
qed

theorem read_gives_up_witness: "fst (int13h_read_o idle_bus 0 1 0 (boot_tty ())) = -1"
  using read_gives_up [of idle_bus "boot_tty ()" 0 1 0]
  by (simp add: idle_bus_def in_partition_def part_length_def)

text \<open>The range check of the driver can be passed with a sector outside the partition. The sum
  of the sector and the count wraps around, so a read of one sector at \<open>0xFFFFFFFF\<close> is not
  rejected and fetches the sector just before the partition.\<close>

lemma range_check_wraps:
  "unat part_length < unat (0xFFFFFFFF :: u32)
   \<and> int13h_read_o B 0xFFFFFFFF 1 off s =
       read_blocks B 1 (DISK_READ_LOCATION + off) (ata_command B (part_start_lba - 1) 1 0x20 s)"
proof -
  have lba: "0xFFFFFFFF + part_start_lba = part_start_lba - 1"
    by (simp add: part_start_lba_def)
  show ?thesis
    unfolding int13h_read_o_def lba by (simp add: part_length_def del: read_blocks.simps)
qed

end
