(* ===== verification/FatName.thy ===== *)
theory FatName
  imports LibC
begin

section \<open>File names of the FAT driver\<close>

text \<open>
  The name handling of \<^verbatim>\<open>kernel/arch/i386/FAT.c\<close>: the test for the 11-byte 8.3 form,
  the conversions to it and from it, the normalisation that \<open>directorySearch\<close> applies to
  a path component, and the checksum of the long-name format. Buffers are arrays of their
  C sizes.
\<close>

subsection \<open>Definitions\<close>

definition LOWERCASE_ISSUE :: u16 where "LOWERCASE_ISSUE = 0x01"
definition BAD_CHARACTER :: u16 where "BAD_CHARACTER = 0x02"
definition NOT_CONVERTED_YET :: u16 where "NOT_CONVERTED_YET = 0x08"
definition TOO_MANY_DOTS :: u16 where "TOO_MANY_DOTS = 0x10"

text \<open>One round of the loop of \<open>testIfFATFormat\<close>.\<close>

definition test_byte :: "u16 \<Rightarrow> u8 \<Rightarrow> u16" where
  "test_byte retVal c =
     (let r = (if sint c < 0x20 \<and> c \<noteq> 0x05 then retVal OR BAD_CHARACTER else retVal);
          r = (if c = 0x2E then
                 (if r AND NOT_CONVERTED_YET = NOT_CONVERTED_YET then r OR TOO_MANY_DOTS else r)
                   XOR NOT_CONVERTED_YET
               else if c \<in> set [0x22, 0x2A, 0x2B, 0x2C, 0x2F, 0x3A, 0x3B, 0x3C, 0x3D, 0x3E, 0x3F,
                                0x5B, 0x5C, 0x5D, 0x7C] then r OR BAD_CHARACTER
               else r)
      in if 97 \<le> sint c \<and> sint c \<le> 122 then r OR LOWERCASE_ISSUE else r)"

definition testIfFATFormat :: "u8 list \<Rightarrow> u16 comp" where
  "testIfFATFormat input =
     (if 11 \<le> length input then ret (foldl test_byte 0 (take 11 input)) else stuck OutOfBounds)"

text \<open>
  \<open>convertToFATFormat\<close>: the loop over the name part returns the counter, the position of
  the dot and the new \<open>searchName\<close>.
\<close>

function conv_base :: "u8 list \<Rightarrow> nat \<Rightarrow> u8 list \<Rightarrow> (nat \<times> nat \<times> u8 list) comp" where
  "conv_base input counter searchName =
     (if counter \<le> 8 then
        bnd (aget input counter) (\<lambda>c.
          if c = 0x2E \<or> c = 0 then ret (counter + 1, counter, searchName)
          else conv_base input (counter + 1) (searchName[counter := c]))
      else ret (counter, 0, searchName))"
  by pat_completeness auto
termination
  by (relation "measure (\<lambda>(input, counter, searchName). 9 - counter)") auto

function conv_ext :: "u8 list \<Rightarrow> nat \<Rightarrow> nat \<Rightarrow> u8 list \<Rightarrow> u8 list comp" where
  "conv_ext input counter extCount searchName =
     (if extCount < 11 then
        bnd (aget input counter) (\<lambda>c.
          conv_ext input (counter + 1) (extCount + 1)
            (searchName[extCount := (if c \<noteq> 0 then c else 0x20)]))
      else ret searchName)"
  by pat_completeness auto
termination
  by (relation "measure (\<lambda>(input, counter, extCount, searchName). 11 - extCount)") auto

function conv_pad :: "nat \<Rightarrow> u8 list \<Rightarrow> u8 list" where
  "conv_pad counter searchName =
     (if counter < 8 then conv_pad (counter + 1) (searchName[counter := 0x20]) else searchName)"
  by pat_completeness auto
termination
  by (relation "measure (\<lambda>(counter, searchName). 8 - counter)") auto

declare conv_base.simps [simp del] conv_ext.simps [simp del] conv_pad.simps [simp del]

definition convertToFATFormat :: "u8 list \<Rightarrow> u8 list comp" where
  "convertToFATFormat input =
     bnd (uppercase_str input) (\<lambda>input.
     bnd (conv_base input 0 (replicate 13 0)) (\<lambda>(counter, dotPos, searchName).
       let (counter, dotPos) = (if counter > 9 then (8, 8) else (counter, dotPos)) in
     bnd (conv_ext input counter 8 searchName) (\<lambda>searchName.
       strcpy input (conv_pad dotPos searchName))))"

text \<open>\<open>convertFromFATFormat\<close>: the loops over the name and the extension, then the padding.\<close>

function from_base :: "u8 list \<Rightarrow> nat \<Rightarrow> u8 list \<Rightarrow> (nat \<times> u8 list) comp" where
  "from_base input counter output =
     (if counter < 8 then
        bnd (aget input counter) (\<lambda>c.
          if c = 0x20 then bnd (aput output counter 0x2E) (\<lambda>output. ret (counter, output))
          else bnd (aput output counter c) (\<lambda>output. from_base input (counter + 1) output))
      else ret (counter, output))"
  by pat_completeness auto
termination
  by (relation "measure (\<lambda>(input, counter, output). 8 - counter)") auto

text \<open>The counter is an unsigned short: \<open>counter -= 2\<close> wraps around.\<close>

function from_ext :: "u8 list \<Rightarrow> nat \<Rightarrow> nat \<Rightarrow> u8 list \<Rightarrow> (nat \<times> u8 list) comp" where
  "from_ext input counter counter2 output =
     (if counter2 < 11 then
        let counter = (counter + 1) mod 65536 in
        bnd (aget input counter2) (\<lambda>c.
          if c = 0x20 then
            ret (if counter2 = 8 then (counter + (65536 - 2)) mod 65536 else counter, output)
          else bnd (aput output counter c) (\<lambda>output. from_ext input counter (counter2 + 1) output))
      else ret (counter, output))"
  by pat_completeness auto
termination
  by (relation "measure (\<lambda>(input, counter, counter2, output). 11 - counter2)") auto

function from_pad :: "nat \<Rightarrow> u8 list \<Rightarrow> u8 list comp" where
  "from_pad counter output =
     (if counter < 12 then bnd (aput output counter 0x20) (\<lambda>output. from_pad (counter + 1) output)
      else ret output)"
  by pat_completeness auto
termination
  by (relation "measure (\<lambda>(counter, output). 12 - counter)") auto

declare from_base.simps [simp del] from_ext.simps [simp del] from_pad.simps [simp del]

definition convertFromFATFormat :: "u8 list \<Rightarrow> u8 list \<Rightarrow> u8 list comp" where
  "convertFromFATFormat input output =
     bnd (aget input 0) (\<lambda>c0.
     if c0 = 0x2E then
       bnd (aget input 1) (\<lambda>c1.
         if c1 = 0x2E then strcpy output (cstr ''..'') else strcpy output (cstr ''.''))
     else
       bnd (from_base input 0 output) (\<lambda>(counter, output).
       bnd (if counter = 8 then aput output counter 0x2E else ret output) (\<lambda>output.
       bnd (from_ext input counter 8 output) (\<lambda>(counter, output).
       bnd (from_pad ((counter + 1) mod 65536) output) (\<lambda>output.
         aput output 12 0)))))"

text \<open>The first lines of \<open>directorySearch\<close>: \<open>char searchName[13]\<close> in 8.3 form.\<close>

definition search_name :: "u8 list \<Rightarrow> u8 list comp" where
  "search_name filepart =
     bnd (strcpy (replicate 13 0) filepart) (\<lambda>searchName.
     bnd (testIfFATFormat searchName) (\<lambda>r.
       if r \<noteq> 0 then convertToFATFormat searchName else ret searchName))"

definition ChkSum :: "u8 list \<Rightarrow> u8 comp" where
  "ChkSum pFcbName =
     (if 11 \<le> length pFcbName then
        ret (foldl (\<lambda>Sum c. (if Sum AND 1 \<noteq> 0 then 0x80 else 0) + drop_bit 1 Sum + c) 0
               (take 11 pFcbName))
      else stuck OutOfBounds)"

subsection \<open>The loops in closed form\<close>

lemma conv_base_run:
  assumes "length u \<le> 8" "0x2E \<notin> set u" "0 \<notin> set u" "d = 0x2E \<or> d = 0"
    and "input = u @ d # r" "length sn = 13" "i \<le> length u" "take i sn = take i u"
  shows "conv_base input i sn = ret (Suc (length u), length u, u @ drop (length u) sn)"
  using assms(6-)
proof (induction "length u - i" arbitrary: i sn)
  case 0
  then have i: "i = length u" by simp
  then have "u @ drop (length u) sn = sn"
    using 0 by (metis append_take_drop_id order_refl take_all)
  with i assms(1,4,5) show ?case
    by (subst conv_base.simps) (auto simp: aget_def)
next
  case (Suc k)
  then have i: "i < length u" by simp
  have c: "aget input i = ret (u ! i)"
    using i assms(5) by (simp add: aget_def nth_append)
  have nz: "u ! i \<noteq> 0x2E" "u ! i \<noteq> 0"
    using i assms(2,3) nth_mem by metis+
  have "take (Suc i) (sn[i := u ! i]) = take (Suc i) u"
    using i assms(1) Suc.prems by (simp add: take_Suc_conv_app_nth)
  then have "conv_base input (Suc i) (sn[i := u ! i]) =
      ret (Suc (length u), length u, u @ drop (length u) (sn[i := u ! i]))"
    using i Suc by (intro Suc.hyps(1)) auto
  then show ?case
    using i c nz assms(1) by (subst conv_base.simps) simp
qed

lemma conv_ext_run:
  assumes "c + 2 < length input" "length sn = 13"
  defines "f \<equiv> \<lambda>x :: u8. if x \<noteq> 0 then x else 0x20"
  shows "conv_ext input c 8 sn =
    ret (take 8 sn @ [f (input ! c), f (input ! (c + 1)), f (input ! (c + 2))] @ drop 11 sn)"
proof -
  have "sn[8 := x, 9 := y, 10 := z] = take 8 sn @ [x, y, z] @ drop 11 sn" for x y z
    using assms(2) by (auto simp: list_eq_iff_nth_eq nth_append nth_list_update nth_Cons' Let_def)
  then show ?thesis
    using assms(1) unfolding f_def
    by (simp add: conv_ext.simps aget_def eval_nat_numeral del: fun_upd_apply)
qed

lemma conv_pad_run:
  "i \<le> 8 \<Longrightarrow> 8 \<le> length sn \<Longrightarrow> conv_pad i sn = take i sn @ replicate (8 - i) 0x20 @ drop 8 sn"
proof (induction "8 - i" arbitrary: i sn)
  case 0
  then show ?case by (subst conv_pad.simps) simp
next
  case (Suc k)
  then have "conv_pad (Suc i) (sn[i := 0x20]) =
      take (Suc i) (sn[i := 0x20]) @ replicate (8 - Suc i) 0x20 @ drop 8 (sn[i := 0x20])"
    by (intro Suc.hyps(1)) auto
  with Suc show ?case
    by (subst conv_pad.simps)
      (simp add: take_Suc_conv_app_nth Suc_diff_Suc [symmetric] replicate_append_same [symmetric])
qed

lemma from_base_run:
  assumes "length b \<le> 8" "0x20 \<notin> set b" "input = b @ replicate (8 - length b) 0x20 @ r"
    and "13 \<le> length out" "i \<le> length b" "take i out = take i b"
  shows "from_base input i out =
    ret (length b, if length b < 8 then b @ 0x2E # drop (Suc (length b)) out
                   else b @ drop (length b) out)"
  using assms(4-)
proof (induction "length b - i" arbitrary: i out)
  case 0
  then have i: "i = length b" by simp
  then have out: "out = b @ drop (length b) out"
    using 0 by (metis append_take_drop_id order_refl take_all)
  then have "out[length b := 0x2E] = b @ 0x2E # drop (Suc (length b)) out" if "length b < length out"
    using that by (metis append_take_drop_id length_append list_update_length id_take_nth_drop
        append_eq_conv_conj upd_conv_take_nth_drop)
  with i out assms(1,3) 0 show ?case
    by (subst from_base.simps) (auto simp: aget_def aput_def nth_append)
next
  case (Suc k)
  then have i: "i < length b" by simp
  have c: "aget input i = ret (b ! i)"
    using i assms(3) by (simp add: aget_def nth_append)
  have nz: "b ! i \<noteq> 0x20"
    using i assms(2) nth_mem by metis
  have "take (Suc i) (out[i := b ! i]) = take (Suc i) b"
    using i assms(1) Suc.prems by (simp add: take_Suc_conv_app_nth)
  then have "from_base input (Suc i) (out[i := b ! i]) =
      ret (length b, if length b < 8 then b @ 0x2E # drop (Suc (length b)) (out[i := b ! i])
                     else b @ drop (length b) (out[i := b ! i]))"
    using i Suc by (intro Suc.hyps(1)) auto
  then show ?case
    using i c nz assms(1) Suc.prems by (subst from_base.simps) (simp add: aput_def)
qed

lemma from_pad_run:
  "i \<le> 12 \<Longrightarrow> 12 \<le> length out \<Longrightarrow>
     from_pad i out = ret (take i out @ replicate (12 - i) 0x20 @ drop 12 out)"
proof (induction "12 - i" arbitrary: i out)
  case 0
  then show ?case by (subst from_pad.simps) simp
next
  case (Suc k)
  then have "from_pad (Suc i) (out[i := 0x20]) =
      ret (take (Suc i) (out[i := 0x20]) @ replicate (12 - Suc i) 0x20 @ drop 12 (out[i := 0x20]))"
    by (intro Suc.hyps(1)) auto
  with Suc show ?case
    by (subst from_pad.simps)
      (simp add: aput_def take_Suc_conv_app_nth Suc_diff_Suc [symmetric] replicate_append_same [symmetric])
qed

lemma from_pad_close:
  "i \<le> 12 \<Longrightarrow> length out = 13 \<Longrightarrow>
     bnd (from_pad i out) (\<lambda>output. aput output 12 0) =
       ret (take i out @ replicate (12 - i) 0x20 @ [0])"
  by (auto simp: from_pad_run aput_def list_update_append Cons_nth_drop_Suc [symmetric] min_def)

text \<open>
  The extension loop, entered with the dot at position \<open>n\<close>: an empty extension takes the
  dot back; otherwise its characters follow the dot. The counter ends one past the last
  character written when the extension is full, two past it when it is not.
\<close>

lemma from_ext_run:
  assumes "length e \<le> 3" "0x20 \<notin> set e" "length input = 11"
    and "drop 8 input = e @ replicate (3 - length e) 0x20" "n \<le> 8" "length out = 13" "0 < n"
  shows "from_ext input n 8 out =
    ret (if e = [] then n - 1 else n + (if length e = 3 then 3 else length e + 1),
         take (Suc n) out @ e @ drop (Suc n + length e) out)"
proof -
  have i: "input ! 8 = drop 8 input ! 0" "input ! 9 = drop 8 input ! 1" "input ! 10 = drop 8 input ! 2"
    using assms(3) by simp_all
  have "out[Suc n := x] = take (Suc n) out @ x # drop (Suc (Suc n)) out"
    "out[Suc n := x, Suc (Suc n) := y] = take (Suc n) out @ x # y # drop (Suc (Suc (Suc n))) out"
    "out[Suc n := x, Suc (Suc n) := y, 3 + n := z] =
       take (Suc n) out @ x # y # z # drop (Suc (Suc (Suc (Suc n)))) out" for x y z
    using assms(5,6)
    by (auto simp: list_eq_iff_nth_eq nth_append nth_list_update nth_Cons'
        intro!: arg_cong [where f = "(!) out"])
  note upd = this
  consider "e = []" | x where "e = [x]" | x y where "e = [x, y]" | x y z where "e = [x, y, z]"
    using assms(1) by (cases e rule: remdups_adj.cases; cases "tl (tl e)"; auto)
  then show ?thesis
  proof cases
    case 1
    moreover obtain m where "n = Suc m"
      using assms(7) gr0_implies_Suc by blast
    ultimately show ?thesis
      using assms i by (subst from_ext.simps) (simp add: aget_def Let_def)
  next
    case 2
    then show ?thesis
      using assms i upd by (simp add: from_ext.simps aget_def aput_def Let_def)
  next
    case 3
    then show ?thesis
      using assms i upd by (simp add: from_ext.simps aget_def aput_def Let_def)
  next
    case 4
    then show ?thesis
      using assms i upd by (simp add: from_ext.simps aget_def aput_def Let_def)
  qed
qed

subsection \<open>The conversions are correct\<close>

text \<open>
  A name in the 8.3 form: a base of one to eight characters and an extension of up to
  three, each padded with spaces. The characters are those \<open>testIfFATFormat\<close> accepts,
  other than the space.
\<close>

definition fat_char :: "u8 \<Rightarrow> bool" where
  "fat_char c \<longleftrightarrow> test_byte 0 c = 0 \<and> c \<noteq> 0x20"

definition name83 :: "u8 list \<Rightarrow> u8 list \<Rightarrow> u8 list" where
  "name83 b e = b @ replicate (8 - length b) 0x20 @ e @ replicate (3 - length e) 0x20"

definition good83 :: "u8 list \<Rightarrow> u8 list \<Rightarrow> bool" where
  "good83 b e \<longleftrightarrow> b \<noteq> [] \<and> length b \<le> 8 \<and> length e \<le> 3 \<and>
     list_all fat_char b \<and> list_all fat_char e"

lemma length_name83 [simp]: "length b \<le> 8 \<Longrightarrow> length e \<le> 3 \<Longrightarrow> length (name83 b e) = 11"
  by (simp add: name83_def)

lemmas flag_defs = LOWERCASE_ISSUE_def BAD_CHARACTER_def NOT_CONVERTED_YET_def TOO_MANY_DOTS_def

lemma test_byte_dot [simp]: "test_byte 0 0x2E = NOT_CONVERTED_YET"
  by (simp add: test_byte_def flag_defs)

lemma test_byte_NUL [simp]: "test_byte r 0 = r OR BAD_CHARACTER"
  by (simp add: test_byte_def flag_defs)

lemma test_byte_space [simp]: "test_byte r 0x20 = r"
  by (simp add: test_byte_def flag_defs)

lemma fat_char_ne: "fat_char c \<Longrightarrow> c \<noteq> 0 \<and> c \<noteq> 0x2E \<and> c \<noteq> 0x20"
  by (auto simp: fat_char_def flag_defs)

lemma fat_chars_notin:
  assumes "list_all fat_char u"
  shows "0 \<notin> set u" "0x2E \<notin> set u" "0x20 \<notin> set u"
  using assms fat_char_ne by (auto simp: list_all_iff)

text \<open>The exact output of \<open>convertFromFATFormat\<close> on an 8.3 name.\<close>

lemma convertFrom_name83:
  assumes g: "good83 b e" and out: "length out = 13"
  shows "convertFromFATFormat (name83 b e) out =
    ret (if e = [] then b @ replicate (12 - length b) 0x20 @ [0]
         else b @ 0x2E # e @
           (if length e = 3 then replicate (8 - length b) 0x20
            else out ! (length b + 1 + length e)
                   # replicate (12 - (length b + 2 + length e)) 0x20) @ [0])"
proof -
  let ?n = "length b" and ?in = "name83 b e"
  let ?out2 = "b @ 0x2E # drop (Suc ?n) out"
  let ?out3 = "b @ 0x2E # e @ drop (Suc ?n + length e) out"
  have n: "?n \<le> 8" "0 < ?n" and e: "length e \<le> 3" and ne: "0x20 \<notin> set b" "0x20 \<notin> set e"
    using g fat_chars_notin by (auto simp: good83_def)
  have b0: "b ! 0 \<noteq> 0x2E"
    using g n fat_chars_notin(2) [of b] nth_mem [of 0 b] by (auto simp: good83_def simp del: nth_mem)
  have first: "aget ?in 0 = ret (b ! 0)"
    using n by (simp add: aget_def name83_def nth_append)
  have base: "from_base ?in 0 out = ret (?n, if ?n < 8 then ?out2 else b @ drop ?n out)"
    by (rule from_base_run [where r = "e @ replicate (3 - length e) 0x20"])
      (use n ne out in \<open>auto simp: name83_def\<close>)
  have dot: "(if ?n = 8 then aput (if ?n < 8 then ?out2 else b @ drop ?n out) ?n 0x2E
      else ret (if ?n < 8 then ?out2 else b @ drop ?n out)) = ret ?out2"
    using n out by (auto simp: aput_def list_update_append Cons_nth_drop_Suc [symmetric])
  have ext: "from_ext ?in ?n 8 ?out2 =
      ret (if e = [] then ?n - 1 else ?n + (if length e = 3 then 3 else length e + 1), ?out3)"
    by (subst from_ext_run [where e = e])
      (use n e ne out in \<open>auto simp: name83_def add.commute\<close>)
  show ?thesis
    using n e out b0
    by (auto simp: convertFromFATFormat_def first base dot [simplified] ext from_pad_close
        take_Suc_conv_app_nth add.commute)
qed


text \<open>Folding the format test over a name.\<close>

lemma test_fat_chars: "list_all fat_char u \<Longrightarrow> foldl test_byte 0 u = 0"
  by (induction u) (auto simp: fat_char_def)

lemma test_spaces [simp]: "foldl test_byte r (replicate n 0x20) = r"
  by (induction n) auto

lemma test_name83: "good83 b e \<Longrightarrow> testIfFATFormat (name83 b e @ r) = ret 0"
  by (simp add: good83_def testIfFATFormat_def name83_def test_fat_chars)

text \<open>
  A name with one dot, or with a NUL among the first eleven bytes, is reported as not being
  in 8.3 form: the dot toggles \<open>NOT_CONVERTED_YET\<close>, the NUL raises \<open>BAD_CHARACTER\<close>
  and no later byte takes it back.
\<close>

lemma test_byte_not_converted:
  "bit (test_byte r c) 3 \<longleftrightarrow> bit r 3 \<noteq> (c = 0x2E)"
  by (auto simp: test_byte_def flag_defs Let_def bit_simps)

lemma test_byte_bad: "bit r (Suc 0) \<Longrightarrow> bit (test_byte r c) (Suc 0)"
  by (auto simp: test_byte_def flag_defs Let_def bit_simps)

lemma fold_no_dot: "0x2E \<notin> set u \<Longrightarrow> bit (foldl test_byte r u) 3 = bit r 3"
  by (induction u arbitrary: r) (auto simp: test_byte_not_converted)

lemma fold_bad: "bit r (Suc 0) \<Longrightarrow> bit (foldl test_byte r u) (Suc 0)"
  by (induction u arbitrary: r) (auto simp: test_byte_bad)

lemma fold_NUL: "0 \<in> set u \<Longrightarrow> bit (foldl test_byte r u) (Suc 0)"
  by (induction u arbitrary: r) (auto simp: fold_bad flag_defs bit_simps)

lemma dotted_flag:
  assumes "length b \<le> 8" "0x2E \<notin> set b" "0x2E \<notin> set x"
  shows "foldl test_byte 0 (take 11 (b @ 0x2E # x)) \<noteq> 0"
proof -
  have "take 11 (b @ 0x2E # x) = b @ 0x2E # take (10 - length b) x"
    using assms(1) by (simp add: take_Cons')
  moreover have "0x2E \<notin> set (take (10 - length b) x)"
    using assms(3) by (auto dest: in_set_takeD)
  ultimately have "bit (foldl test_byte 0 (take 11 (b @ 0x2E # x))) 3"
    using assms(2) by (simp add: fold_no_dot test_byte_not_converted)
  then show ?thesis by auto
qed

text \<open>The exact result of \<open>convertToFATFormat\<close> once the name has been put in upper case.\<close>

lemma convertTo_run:
  assumes up: "uppercase_str input = ret (b @ d # r)" and len: "length b + length r = 12"
    and b: "length b \<le> 8" "0x2E \<notin> set b" "0 \<notin> set b" and d: "d = 0x2E \<or> d = 0"
  defines "f \<equiv> \<lambda>x :: u8. if x \<noteq> 0 then x else 0x20"
  shows "convertToFATFormat input =
    ret (b @ replicate (8 - length b) 0x20 @ [f (r ! 0), f (r ! 1), f (r ! 2), 0] @ drop 12 (b @ d # r))"
proof -
  let ?i = "b @ d # r" and ?n = "length b"
  let ?x = "[f (r ! 0), f (r ! 1), f (r ! 2)]"
  let ?s = "b @ replicate (8 - ?n) 0x20 @ ?x @ [0, 0]"
  have base: "conv_base ?i 0 (replicate 13 0) = ret (Suc ?n, ?n, b @ replicate (13 - ?n) 0)"
    using conv_base_run [of b d ?i r "replicate 13 0" 0] b d by simp
  have ext: "conv_ext ?i (Suc ?n) 8 (b @ replicate (13 - ?n) 0) =
      ret (b @ replicate (8 - ?n) 0 @ ?x @ [0, 0])"
    using b(1) len by (subst conv_ext_run) (auto simp: f_def nth_append numeral_2_eq_2)
  have pad: "conv_pad ?n (b @ replicate (8 - ?n) 0 @ ?x @ [0, 0]) = ?s"
    using b(1) by (subst conv_pad_run) auto
  have s: "terminated ?s" "text_of ?s = b @ replicate (8 - ?n) 0x20 @ ?x"
    using b(3) by (auto simp: terminated_def f_def)
  have "strcpy ?i ?s = ret (b @ replicate (8 - ?n) 0x20 @ ?x @ 0 # drop 12 ?i)"
    by (subst strcpy_ret [OF s(1)]) (use b(1) len s in auto)
  then show ?thesis
    using b(1) by (simp add: convertToFATFormat_def up base ext pad [simplified])
qed

text \<open>
  What \<open>directorySearch\<close> looks for. A name typed as \<open>base\<close> or \<open>base.ext\<close> is
  sought in its upper-case 8.3 form, whatever the case it was typed in.
\<close>

definition typed :: "u8 list \<Rightarrow> u8 list \<Rightarrow> u8 list" where
  "typed b e = (if e = [] then b else b @ 0x2E # e)"

definition plain :: "u8 list \<Rightarrow> bool" where
  "plain u \<longleftrightarrow> 0 \<notin> set u \<and> 0x2E \<notin> set u"

lemma uppercase_ne: "c \<noteq> 0 \<Longrightarrow> uppercase c \<noteq> 0" "c \<noteq> 0x2E \<Longrightarrow> uppercase c \<noteq> 0x2E"
  by (auto simp: word_uint_eq_iff uppercase_uint split: if_splits)

lemma uppercase_dot [simp]: "uppercase 0x2E = 0x2E" "uppercase 0x20 = 0x20"
  by (simp_all add: word_uint_eq_iff uppercase_uint)

lemma plain_uppercase: "plain u \<Longrightarrow> plain (map uppercase u)"
  unfolding plain_def set_map image_iff using uppercase_ne by metis

lemma nth_replicate_append:
  "i < length e + n \<Longrightarrow> (e @ replicate n x) ! i = (if i < length e then e ! i else x)"
  by (simp add: nth_append)

lemma drop_replicate_Cons [simp]: "drop n (x # replicate n x) = [x]"
  by (induction n) auto

lemma ext_three:
  assumes "length e \<le> 3" "0 \<notin> set e" "3 \<le> length e + n" "p = 0 \<or> p = 0x20"
  defines "f \<equiv> \<lambda>x :: u8. if x \<noteq> 0 then x else 0x20"
  shows "[f ((e @ replicate n p @ z) ! 0), f ((e @ replicate n p @ z) ! 1),
      f ((e @ replicate n p @ z) ! 2)] = e @ replicate (3 - length e) 0x20"
proof -
  consider "e = []" | x where "e = [x]" | x y where "e = [x, y]" | x y z where "e = [x, y, z]"
    using assms(1) by (cases e rule: remdups_adj.cases; cases "tl (tl e)"; auto)
  then show ?thesis
    by cases (use assms(2-4) in \<open>auto simp: f_def nth_append nth_Cons' eval_nat_numeral\<close>)
qed

lemma convertTo_dot:
  assumes up: "uppercase_str input = ret (b @ 0x2E # e @ replicate (11 - length b - length e) p @ [0])"
    and b: "length b \<le> 8" "plain b" and e: "length e \<le> 3" "plain e" and p: "p = 0 \<or> p = 0x20"
  shows "convertToFATFormat input = ret (name83 b e @ [0, 0])"
proof -
  let ?r = "e @ replicate (11 - length b - length e) p @ [0]"
  have len: "length b + length ?r = 12"
    using b e by simp
  then have "drop (length ?r - 1) ?r = [0]"
    by simp
  then have "drop 12 (b @ 0x2E # ?r) = [0]"
    using len by (simp add: drop_Cons')
  then show ?thesis
    using convertTo_run [OF up len] ext_three [of e "11 - length b - length e" p "[0]"] b e p
    unfolding name83_def plain_def by simp
qed

lemma search_name_typed:
  assumes b: "length b \<le> 8" "b \<noteq> []" "plain b" and e: "length e \<le> 3" "plain e"
    and s: "terminated s" "text_of s = typed b e"
  shows "search_name s = ret (name83 (map uppercase b) (map uppercase e) @ [0, 0])"
proof -
  let ?b = "map uppercase b" and ?e = "map uppercase e"
  let ?n = "length (typed b e)"
  let ?s = "typed b e @ replicate (13 - ?n) 0"
  have n: "?n \<le> 12" "0 \<notin> set (typed b e)"
    using b e by (auto simp: typed_def plain_def)
  have copy: "strcpy (replicate 13 0) s = ret ?s"
    using n s by (simp add: strcpy_ret Cons_replicate_eq [symmetric] flip: replicate_Suc)
  have flag: "foldl test_byte 0 (take 11 ?s) \<noteq> 0"
  proof (cases "e = []")
    case True
    then have "0 \<in> set (take 11 ?s)"
      using b(1) by (simp add: typed_def)
    then have "bit (foldl test_byte 0 (take 11 ?s)) (Suc 0)"
      by (rule fold_NUL)
    then show ?thesis by auto
  next
    case False
    then show ?thesis
      using dotted_flag [of b "e @ replicate (13 - ?n) 0"] b e by (simp add: typed_def plain_def)
  qed
  have up: "uppercase_str ?s = ret (typed ?b ?e @ replicate (13 - ?n) 0)"
    using n by (auto simp: uppercase_str_ret terminated_def typed_def split: if_splits)
  have "convertToFATFormat ?s = ret (name83 ?b ?e @ [0, 0])"
  proof (cases "e = []")
    case True
    then show ?thesis
      using convertTo_run [of ?s ?b 0 "replicate (12 - length b) 0"] up b plain_uppercase [OF b(3)]
        Suc_diff_le [of "length b" 12]
      by (simp add: typed_def plain_def name83_def numeral_2_eq_2 numeral_3_eq_3)
  next
    case False
    then show ?thesis
      using convertTo_dot [of ?s ?b ?e 0] up b e plain_uppercase Suc_diff_le [of "length b + length e" 11]
      by (simp add: typed_def replicate_append_same)
  qed
  with flag copy n show ?thesis
    by (simp add: search_name_def testIfFATFormat_def)
qed

text \<open>A name already in 8.3 form, such as the one stored in a directory entry, is kept.\<close>

lemma fat_char_uppercase:
  assumes "fat_char c"
  shows "uppercase c = c"
proof -
  have "\<not> (97 \<le> sint c \<and> sint c \<le> 122)"
  proof
    assume "97 \<le> sint c \<and> sint c \<le> 122"
    then have "bit (test_byte 0 c) 0"
      by (auto simp: test_byte_def flag_defs Let_def bit_simps)
    with assms show False
      by (simp add: fat_char_def)
  qed
  then show ?thesis
    by (auto simp: uppercase_def)
qed

lemma fat_chars_uppercase: "list_all fat_char u \<Longrightarrow> map uppercase u = u"
  by (induction u) (auto simp: fat_char_uppercase)

lemma name83_no_NUL: "good83 b e \<Longrightarrow> 0 \<notin> set (name83 b e)"
  using fat_chars_notin by (auto simp: good83_def name83_def)

lemma search_name_83:
  assumes g: "good83 b e" and s: "terminated s" "text_of s = name83 b e @ sp"
    and sp: "sp = [] \<or> sp = [0x20]"
  shows "search_name s = ret (name83 b e @ sp @ replicate (2 - length sp) 0)"
proof -
  have "length (name83 b e) = 11"
    using g by (simp add: good83_def)
  then have "strcpy (replicate 13 0) s = ret (name83 b e @ sp @ replicate (2 - length sp) 0)"
    using s sp by (auto simp: strcpy_ret numeral_2_eq_2)
  with g show ?thesis
    by (simp add: search_name_def test_name83)
qed

text \<open>
  The round trip: listing a stored name with \<open>convertFromFATFormat\<close> and then searching for
  the listed text finds the stored name, for an extension of no or three characters. With one
  or two characters the byte after the extension is the one the caller's buffer held.
\<close>

lemma round_trip_name:
  assumes g: "good83 b e" and out: "length out = 13"
    and stale: "length e = 0 \<or> length e = 3 \<or> out ! (length b + 1 + length e) = 0x20"
  obtains shown found where "convertFromFATFormat (name83 b e) out = ret shown"
    and "search_name shown = ret found" "take 11 found = name83 b e"
proof -
  have b: "length b \<le> 8" "b \<noteq> []" "length e \<le> 3" "plain b" "plain e"
    "map uppercase b = b" "map uppercase e = e" "length (name83 b e) = 11"
    using g fat_chars_notin fat_chars_uppercase by (auto simp: good83_def plain_def)
  show ?thesis
  proof (cases "e = []")
    case True
    let ?shown = "b @ replicate (12 - length b) 0x20 @ [0]"
    have shown: "?shown = name83 b e @ [0x20, 0]"
      using b True Suc_diff_le [of "length b" 11]
      by (simp add: name83_def replicate_append_same flip: replicate_add replicate_Suc)
    have "search_name ?shown = ret (name83 b e @ [0x20, 0])"
      using search_name_83 [OF g, of "name83 b e @ [0x20, 0]" "[0x20]"] name83_no_NUL [OF g]
      unfolding shown by (simp add: terminated_def)
    with that show ?thesis
      using convertFrom_name83 [OF g out] True b by simp
  next
    case False
    let ?x = "e @ replicate (11 - length b - length e) 0x20"
    let ?shown = "b @ 0x2E # ?x @ [0]"
    have shown: "convertFromFATFormat (name83 b e) out = ret ?shown"
      using convertFrom_name83 [OF g out] False b stale
      by (auto simp: Suc_diff_le [symmetric] simp flip: replicate_Suc)
    have s: "terminated ?shown" "text_of ?shown = b @ 0x2E # ?x" "length (b @ 0x2E # ?x) = 12"
      using b by (auto simp: terminated_def plain_def)
    have copy: "strcpy (replicate 13 0) ?shown = ret ?shown"
      using strcpy_ret [OF s(1), of "replicate 13 0"] s(2,3) by simp
    have "uppercase_str ?shown = ret ?shown"
      using b s(1) by (simp add: uppercase_str_ret plain_def)
    then have "convertToFATFormat ?shown = ret (name83 b e @ [0, 0])"
      using b by (intro convertTo_dot) auto
    with that shown copy show ?thesis
      using dotted_flag [of b "?x @ [0]"] b
      by (simp add: search_name_def testIfFATFormat_def plain_def)
  qed
qed

text \<open>The rotation of \<open>ChkSum\<close>.\<close>

lemma ror_step:
  fixes x :: u8
  shows "(if x AND 1 \<noteq> 0 then 0x80 else 0) + drop_bit 1 x = word_rotr 1 x"
proof -
  have b: "bit (0x80 :: int) n \<longleftrightarrow> n = 7" for n
    using bit_exp_iff [where 'a = int, of 7 n] by auto
  have "(if x AND 1 \<noteq> 0 then 0x80 else 0 :: u8) AND drop_bit 1 x = 0"
    by (rule bit_word_eqI) (auto simp: bit_and_iff bit_drop_bit_eq b bit_u8_high split: if_splits)
  then have "(if x AND 1 \<noteq> 0 then 0x80 else 0) + drop_bit 1 x =
      (if x AND 1 \<noteq> 0 then 0x80 else 0) OR drop_bit 1 x"
    by (simp add: disjunctive_add_eq_or)
  also have "\<dots> = word_rotr 1 x"
  proof (rule bit_word_eqI)
    fix n
    assume "n < LENGTH(8)"
    moreover have "x AND 1 \<noteq> 0 \<longleftrightarrow> bit x 0"
      by (simp add: and_one_eq bit_0 odd_iff_mod_2_eq_one)
    ultimately show "bit ((if x AND 1 \<noteq> 0 then 0x80 else 0) OR drop_bit 1 x) n = bit (word_rotr 1 x) n"
      by (cases "n = 7") (auto simp: bit_or_iff bit_drop_bit_eq bit_word_rotr_iff b bit_u8_high)
  qed
  finally show ?thesis .
qed

subsection \<open>Properties\<close>

text \<open>C17: the name of a directory entry survives being shown and searched again. For every
  8.3 name with an extension of no or three characters, \<open>convertFromFATFormat\<close> returns a
  text for which \<open>directorySearch\<close> looks up exactly the stored 11 bytes. With an extension
  of one or two characters the same holds if the caller's buffer had a space after it.\<close>

theorem fat_name_round_trip:
  assumes "good83 b e" "length out = 13"
    and "length e = 0 \<or> length e = 3 \<or> out ! (length b + 1 + length e) = 0x20"
  shows "\<exists>shown found. convertFromFATFormat (name83 b e) out = ret shown
    \<and> search_name shown = ret found \<and> take 11 found = name83 b e"
  using assms by (rule round_trip_name) blast

theorem fat_name_round_trip_witness:
  "\<exists>shown found. convertFromFATFormat (lit ''KERNEL  BIN'') (replicate 13 0) = ret shown
    \<and> search_name shown = ret found \<and> take 11 found = lit ''KERNEL  BIN''"
  using fat_name_round_trip [of "lit ''KERNEL''" "lit ''BIN''" "replicate 13 0"]
  by (simp add: good83_def fat_char_def test_byte_def name83_def flag_defs replicate_numeral lit_def)

end
