(* ===== verification/FatTable.thy ===== *)
theory FatTable
  imports Ata FatName
begin

section \<open>The file allocation table\<close>

text \<open>
  The lower half of the file system in \<^verbatim>\<open>kernel/arch/i386/FAT.c\<close>: the boot sector
  (\<open>FATInitialize\<close>), the entries of the allocation table (\<open>FATRead\<close>, \<open>FATWrite\<close>,
  \<open>allocateFreeFAT\<close>) and the transfer of clusters (\<open>clusterRead\<close>, \<open>clusterWrite\<close>),
  with the structures and constants of \<^verbatim>\<open>kernel/arch/i386/FAT.h\<close>.
\<close>

subsection \<open>Constants and structures\<close>

definition END_CLUSTER_32 :: u32 where "END_CLUSTER_32 = 0x0FFFFFF8"
definition BAD_CLUSTER_32 :: u32 where "BAD_CLUSTER_32 = 0x0FFFFFF7"
definition FREE_CLUSTER_32 :: u32 where "FREE_CLUSTER_32 = 0"
definition END_CLUSTER_16 :: u32 where "END_CLUSTER_16 = 0xFFF8"
definition BAD_CLUSTER_16 :: u32 where "BAD_CLUSTER_16 = 0xFFF7"
definition FREE_CLUSTER_16 :: u32 where "FREE_CLUSTER_16 = 0"
definition END_CLUSTER_12 :: u32 where "END_CLUSTER_12 = 0xFF8"
definition BAD_CLUSTER_12 :: u32 where "BAD_CLUSTER_12 = 0xFF7"
definition FREE_CLUSTER_12 :: u32 where "FREE_CLUSTER_12 = 0"

lemmas cluster_defs = END_CLUSTER_32_def BAD_CLUSTER_32_def FREE_CLUSTER_32_def END_CLUSTER_16_def
  BAD_CLUSTER_16_def FREE_CLUSTER_16_def END_CLUSTER_12_def BAD_CLUSTER_12_def FREE_CLUSTER_12_def

record fat_extBS_32 =
  table_size_32 :: u32
  extended_flags :: u16
  fat_version :: u16
  root_cluster :: u32
  fat_info :: u16
  backup_BS_sector :: u16
  reserved_0 :: "u8 list"
  drive_number :: u8
  reserved_1 :: u8
  boot_signature :: u8
  volume_id :: u32
  volume_label :: "u8 list"
  fat_type_label :: "u8 list"

record fat_BS =
  bootjmp :: "u8 list"
  oem_name :: "u8 list"
  bytes_per_sector :: u16
  sectors_per_cluster :: u8
  reserved_sector_count :: u16
  table_count :: u8
  root_entry_count :: u16
  total_sectors_16 :: u16
  media_type :: u8
  table_size_16 :: u16
  sectors_per_track :: u16
  head_side_count :: u16
  hidden_sector_count :: u32
  total_sectors_32 :: u32
  extended_section :: "u8 list"

text \<open>The packed structures read from bytes, at their offsets.\<close>

definition fat_BS_of :: "u8 list \<Rightarrow> fat_BS" where
  "fat_BS_of bs =
     \<lparr>bootjmp = take 3 bs, oem_name = take 8 (drop 3 bs), bytes_per_sector = get16 bs 11,
      sectors_per_cluster = bs ! 13, reserved_sector_count = get16 bs 14, table_count = bs ! 16,
      root_entry_count = get16 bs 17, total_sectors_16 = get16 bs 19, media_type = bs ! 21,
      table_size_16 = get16 bs 22, sectors_per_track = get16 bs 24, head_side_count = get16 bs 26,
      hidden_sector_count = get32 bs 28, total_sectors_32 = get32 bs 32,
      extended_section = take 54 (drop 36 bs)\<rparr>"

definition sizeof_fat_BS :: nat where "sizeof_fat_BS = 90"

definition extBS_32_of :: "u8 list \<Rightarrow> fat_extBS_32" where
  "extBS_32_of bs =
     \<lparr>table_size_32 = get32 bs 0, extended_flags = get16 bs 4, fat_version = get16 bs 6,
      root_cluster = get32 bs 8, fat_info = get16 bs 12, backup_BS_sector = get16 bs 14,
      reserved_0 = take 12 (drop 16 bs), drive_number = bs ! 28, reserved_1 = bs ! 29,
      boot_signature = bs ! 30, volume_id = get32 bs 31, volume_label = take 11 (drop 35 bs),
      fat_type_label = take 8 (drop 46 bs)\<rparr>"

record 'd fat = "'d tty" +
  fat_type :: u32
  first_fat_sector :: u32
  first_data_sector :: u32
  total_clusters :: u32
  bootsect :: fat_BS

subsection \<open>Messages\<close>

text \<open>
  The messages of the driver call \<open>printf\<close> with a character where a format string is
  expected: the character's code is taken for a pointer, and what is printed is the string
  that memory holds at that address.
\<close>

definition printf_word :: "'d bus \<Rightarrow> u32 \<Rightarrow> ('d, 'z) tty_scheme \<Rightarrow> ('d, 'z) tty_scheme comp" where
  "printf_word B p s =
     bnd (string_at (ram s) p) (\<lambda>format. bnd (printf B format [] s) (\<lambda>(_, s). ret s))"

primrec d_printhex :: "'d bus \<Rightarrow> u32 \<Rightarrow> nat \<Rightarrow> ('d, 'z) tty_scheme \<Rightarrow> ('d, 'z) tty_scheme comp" where
  "d_printhex B num 0 s = ret s"
| "d_printhex B num (Suc k) s =
     (let buf = drop_bit (k * 4) num AND 0xF;
          buf = (if buf < 10 then buf + 48 else buf + (65 - 10))
      in bnd (printf_word B buf s) (d_printhex B num k))"

fun d_printss :: "'d bus \<Rightarrow> u8 list \<Rightarrow> ('d, 'z) tty_scheme \<Rightarrow> ('d, 'z) tty_scheme comp" where
  "d_printss B [] s = stuck OutOfBounds"
| "d_printss B (c # cs) s =
     (if c = 0 then ret s else bnd (printf_word B (scast c) s) (d_printss B cs))"

fun d_printsss :: "'d bus \<Rightarrow> u8 list \<Rightarrow> nat \<Rightarrow> ('d, 'z) tty_scheme \<Rightarrow> ('d, 'z) tty_scheme comp" where
  "d_printsss B cs 0 s = ret s"
| "d_printsss B [] (Suc n) s = stuck OutOfBounds"
| "d_printsss B (c # cs) (Suc n) s =
     bnd (printf_word B (if 32 < sint c then scast c else 46) s) (d_printsss B cs n)"

text \<open>An error exit: a message with a line feed, then the value returned.\<close>

definition complain ::
  "'d bus \<Rightarrow> string \<Rightarrow> 'r \<Rightarrow> ('d, 'z) tty_scheme \<Rightarrow> ('r \<times> ('d, 'z) tty_scheme) comp" where
  "complain B msg r s = bnd (d_printss B (cstr (msg @ [CHR 0x0A])) s) (\<lambda>s. ret (r, s))"

text \<open>The same with a hexadecimal number after the message.\<close>

definition complain_hex ::
  "'d bus \<Rightarrow> string \<Rightarrow> u32 \<Rightarrow> string \<Rightarrow> 'r \<Rightarrow> ('d, 'z) tty_scheme \<Rightarrow> ('r \<times> ('d, 'z) tty_scheme) comp" where
  "complain_hex B msg num msg' r s =
     bnd (d_printss B (cstr msg) s) (\<lambda>s.
     bnd (d_printhex B num 8 s) (\<lambda>s.
       complain B msg' r s))"

subsection \<open>The boot sector\<close>

text \<open>
  The number of clusters and the FAT type that follows from it, and the first data sector.
  The divisions are by fields of the boot sector.
\<close>

definition fat_geometry :: "fat_BS \<Rightarrow> ('d, 'z) fat_scheme \<Rightarrow> ('d, 'z) fat_scheme comp" where
  "fat_geometry b s =
     (if sectors_per_cluster b = 0 then stuck DivByZero
      else
        let spc = ucast (sectors_per_cluster b);
            tc = ucast (total_sectors_16 b) div spc;
            tc = (if tc = 0 then total_sectors_32 b div spc else tc);
            s = s\<lparr>total_clusters := tc\<rparr>;
            bps = ucast (bytes_per_sector b)
        in if tc < 65525 then
             if bps = 0 then stuck DivByZero
             else ret (s\<lparr>fat_type := (if tc < 4085 then 12 else 16),
                 first_data_sector := ucast (reserved_sector_count b)
                   + ucast (table_count b) * ucast (table_size_16 b)
                   + (ucast (root_entry_count b) * 32 + bps - 1) div bps\<rparr>)
           else ret (s\<lparr>fat_type := 32,
                 first_data_sector := ucast (reserved_sector_count b)
                   + ucast (table_count b) * table_size_32 (extBS_32_of (extended_section b))\<rparr>))"

text \<open>
  \<open>memcpy(&bootsect, bootstruct, 512)\<close> copies 512 bytes into a structure of 90. The other 422
  go to the variables that the linker has put behind \<open>bootsect\<close>; what they do there is the argument
  \<open>spill\<close>. The structure in the buffer is looked at once more after the copy.
\<close>

definition copy_bootsect ::
  "(u8 list \<Rightarrow> ('d, 'z) fat_scheme \<Rightarrow> ('d, 'z) fat_scheme) \<Rightarrow> u8 list \<Rightarrow> ('d, 'z) fat_scheme \<Rightarrow> ('d, 'z) fat_scheme" where
  "copy_bootsect spill bs s = spill (drop sizeof_fat_BS bs) (s\<lparr>bootsect := fat_BS_of (take sizeof_fat_BS bs)\<rparr>)"

definition FATInitialize ::
  "'d bus \<Rightarrow> (u8 list \<Rightarrow> ('d, 'z) fat_scheme \<Rightarrow> ('d, 'z) fat_scheme) \<Rightarrow> ('d, 'z) fat_scheme
    \<Rightarrow> (int \<times> ('d, 'z) fat_scheme) comp" where
  "FATInitialize B spill s =
     (let (r, s) = int13h_read B 0 1 s in
      if r \<noteq> 0 then
        bnd (printf B (lit '' -> Function FATInitialize: Error reading the first sector of FAT!'') []
               (terminal_newline s)) (\<lambda>(_, s). ret (-1, s))
      else
        bnd (fat_geometry (fat_BS_of (mem_read (ram s) DISK_READ_LOCATION 512)) s) (\<lambda>s.
          let s = copy_bootsect spill (mem_read (ram s) DISK_READ_LOCATION 512) s;
              bootstruct = fat_BS_of (mem_read (ram s) DISK_READ_LOCATION 512)
          in ret (0, s\<lparr>first_fat_sector := ucast (reserved_sector_count bootstruct)\<rparr>)))"

subsection \<open>Entries of the table\<close>

text \<open>The sector and the offset in it where the code looks for an entry.\<close>

definition fat_locate :: "u32 \<Rightarrow> ('d, 'z) fat_scheme \<Rightarrow> (u32 \<times> u32) comp" where
  "fat_locate fat_offset s =
     (let cluster_size = ucast (bytes_per_sector (bootsect s)) * ucast (sectors_per_cluster (bootsect s))
      in if cluster_size = 0 then stuck DivByZero
         else ret (first_fat_sector s + fat_offset div cluster_size, fat_offset mod cluster_size))"

definition FAT_TABLE_SIZE :: nat where "FAT_TABLE_SIZE = 32 * 1024"

text \<open>The first \<open>bytes_per_sector\<close> bytes of the local array after the copy from the buffer.\<close>

definition table_bytes :: "('d, 'z) fat_scheme \<Rightarrow> u8 list comp" where
  "table_bytes s =
     (let n = unat (bytes_per_sector (bootsect s))
      in if n \<le> FAT_TABLE_SIZE then ret (mem_read (ram s) DISK_READ_LOCATION n) else stuck OutOfBounds)"

definition FATRead32 :: "'d bus \<Rightarrow> u32 \<Rightarrow> ('d, 'z) fat_scheme \<Rightarrow> (int \<times> ('d, 'z) fat_scheme) comp" where
  "FATRead32 B clusterNum s =
     bnd (fat_locate (clusterNum * 4) s) (\<lambda>(fat_sector, ent_offset).
       let (r, s) = int13h_read B fat_sector 1 s in
       if r \<noteq> 0 then
         complain B ''Function FATRead: Could not read sector that contains FAT32 table entry needed.'' (-1) s
       else
         bnd (table_bytes s) (\<lambda>bytes.
           let FAT_table = bytes @ replicate (FAT_TABLE_SIZE - length bytes) 0
           in if unat ent_offset + 4 \<le> FAT_TABLE_SIZE
              then ret (uint (get32 FAT_table (unat ent_offset) AND 0x0FFFFFFF), s)
              else stuck OutOfBounds))"

text \<open>The array of the 16-bit case has no initialiser.\<close>

definition FATRead16 :: "'d bus \<Rightarrow> u32 \<Rightarrow> ('d, 'z) fat_scheme \<Rightarrow> (int \<times> ('d, 'z) fat_scheme) comp" where
  "FATRead16 B clusterNum s =
     bnd (fat_locate (clusterNum * 2) s) (\<lambda>(fat_sector, ent_offset).
       let (r, s) = int13h_read B fat_sector 1 s in
       if r \<noteq> 0 then
         complain B ''Function FATRead: Could not read sector that contains FAT16 table entry needed.'' (-1) s
       else
         bnd (table_bytes s) (\<lambda>bytes.
           if unat ent_offset + 2 \<le> length bytes then ret (uint (get16 bytes (unat ent_offset)), s)
           else if unat ent_offset + 2 \<le> FAT_TABLE_SIZE then stuck Uninitialised
           else stuck OutOfBounds))"

definition FATRead :: "'d bus \<Rightarrow> u32 \<Rightarrow> ('d, 'z) fat_scheme \<Rightarrow> (int \<times> ('d, 'z) fat_scheme) comp" where
  "FATRead B clusterNum s =
     (if clusterNum < 2 \<or> clusterNum \<ge> total_clusters s then
        complain B ''Function FATRead: invalid cluster number!'' (-1) s
      else if fat_type s = 32 then FATRead32 B clusterNum s
      else if fat_type s = 16 then FATRead16 B clusterNum s
      else complain_hex B ''Function FATRead: Invalid fat_type value. The value was (in hex): ''
             (fat_type s) [] (-1) s)"

text \<open>
  The update of an entry: bytes stored in the local array at the offset, the first
  \<open>bytes_per_sector\<close> bytes of which go back to the disk.
\<close>

definition fat_update ::
  "'d bus \<Rightarrow> string \<Rightarrow> string \<Rightarrow> u32 \<Rightarrow> u8 list \<Rightarrow> ('d, 'z) fat_scheme \<Rightarrow> (int \<times> ('d, 'z) fat_scheme) comp" where
  "fat_update B msg_read msg_write fat_offset entry s =
     bnd (fat_locate fat_offset s) (\<lambda>(fat_sector, ent_offset).
       let (r, s) = int13h_read B fat_sector 1 s in
       if r \<noteq> 0 then complain B msg_read (-1) s
       else
         bnd (table_bytes s) (\<lambda>bytes.
         bnd (ablit (bytes @ replicate (FAT_TABLE_SIZE - length bytes) 0) (unat ent_offset) entry) (\<lambda>FAT_table.
         bnd (int13h_write B fat_sector 1
                (s\<lparr>ram := mem_write (ram s) DISK_WRITE_LOCATION (take (length bytes) FAT_table)\<rparr>)) (\<lambda>(r, s).
           if r \<noteq> 0 then complain B msg_write (-1) s else ret (0, s)))))"

definition FATWrite ::
  "'d bus \<Rightarrow> u32 \<Rightarrow> u32 \<Rightarrow> ('d, 'z) fat_scheme \<Rightarrow> (int \<times> ('d, 'z) fat_scheme) comp" where
  "FATWrite B clusterNum clusterVal s =
     (if clusterNum < 2 \<or> clusterNum \<ge> total_clusters s then
        complain B ''Function FATWrite: invalid cluster number!'' (-1) s
      else if fat_type s = 32 then
        fat_update B ''Function FATWrite: Could not read sector that contains FAT32 table entry needed.''
          ''Function FATWrite: Could not write new FAT32 cluster number to sector.''
          (clusterNum * 4) (bytes32 clusterVal) s
      else if fat_type s = 16 then
        fat_update B ''Function FATWrite: Could not read sector that contains FAT16 table entry needed.''
          ''Function FATWrite: Could not write new FAT16 cluster number to sector.''
          (clusterNum * 2) (bytes16 (ucast clusterVal)) s
      else complain_hex B ''Function FATWrite: Invalid fat_type value. The value was (in hex): ''
             (fat_type s) [] (-1) s)"

subsection \<open>Allocation\<close>

text \<open>
  The loop of \<open>allocateFreeFAT\<close> with its two calls as arguments; \<open>fuel\<close> counts the clusters
  left. The status is unsigned, so the test for a negative one is never true.
\<close>

primrec alloc_loop ::
  "(u32 \<Rightarrow> 's \<Rightarrow> (int \<times> 's) comp) \<Rightarrow> (u32 \<Rightarrow> 's \<Rightarrow> (int \<times> 's) comp) \<Rightarrow> ('s \<Rightarrow> (u32 \<times> 's) comp)
    \<Rightarrow> u32 \<Rightarrow> u32 \<Rightarrow> nat \<Rightarrow> u32 \<Rightarrow> 's \<Rightarrow> (u32 \<times> 's) comp" where
  "alloc_loop rd wr fail free_cluster bad_cluster 0 cluster s = ret (bad_cluster, s)"
| "alloc_loop rd wr fail free_cluster bad_cluster (Suc fuel) cluster s =
     bnd (rd cluster s) (\<lambda>(r, s).
       let clusterStatus = of_int r :: u32 in
       if clusterStatus = free_cluster then
         bnd (wr cluster s) (\<lambda>(w, s). if w = 0 then ret (cluster, s) else fail s)
       else alloc_loop rd wr fail free_cluster bad_cluster fuel (cluster + 1) s)"

definition allocateFreeFAT :: "'d bus \<Rightarrow> ('d, 'z) fat_scheme \<Rightarrow> (u32 \<times> ('d, 'z) fat_scheme) comp" where
  "allocateFreeFAT B s =
     (let loop = (\<lambda>free_cluster bad_cluster end_cluster.
        alloc_loop (FATRead B) (\<lambda>c. FATWrite B c end_cluster)
          (complain B ''Function allocateFreeFAT: Error occurred with FATWrite, aborting operations...'' bad_cluster)
          free_cluster bad_cluster (unat (total_clusters s) - 2) 2 s)
      in if fat_type s = 32 then loop FREE_CLUSTER_32 BAD_CLUSTER_32 END_CLUSTER_32
         else if fat_type s = 16 then loop FREE_CLUSTER_16 BAD_CLUSTER_16 END_CLUSTER_16
         else if fat_type s = 12 then loop FREE_CLUSTER_12 BAD_CLUSTER_12 END_CLUSTER_12
         else complain B ''Function allocateFreeFAT: fat_type is not valid!'' BAD_CLUSTER_12 s)"

subsection \<open>Clusters\<close>

text \<open>The first sector of a cluster, and the size of a cluster in bytes.\<close>

definition start_sect :: "u32 \<Rightarrow> ('d, 'z) fat_scheme \<Rightarrow> u32" where
  "start_sect clusterNum s =
     (clusterNum - 2) * ucast (sectors_per_cluster (bootsect s)) + first_data_sector s"

definition cluster_bytes :: "('d, 'z) fat_scheme \<Rightarrow> u32" where
  "cluster_bytes s = ucast (sectors_per_cluster (bootsect s)) * ucast (bytes_per_sector (bootsect s))"

definition clusterRead ::
  "'d bus \<Rightarrow> u32 \<Rightarrow> u32 \<Rightarrow> ('d, 'z) fat_scheme \<Rightarrow> (int \<times> ('d, 'z) fat_scheme) comp" where
  "clusterRead B clusterNum clusterOffset s =
     (if clusterNum < 2 \<or> clusterNum \<ge> total_clusters s then
        complain B ''Function clusterRead: Invalid cluster number!'' (-1) s
      else
        let (r, s) = int13h_read_o B (start_sect clusterNum s) (sectors_per_cluster (bootsect s))
                       (clusterOffset * cluster_bytes s) s
        in if r \<noteq> 0 then
             complain_hex B ''Function clusterRead: An error occured with int13h_read_o, the area in DISK_READ_LOCATION + 0x''
               clusterOffset '' is now in an unknown state.'' (-1) s
           else ret (0, s))"

text \<open>\<open>contentsToWrite\<close> is an address; \<open>memcpy\<close> is the one of the C library.\<close>

definition clusterWrite ::
  "'d bus \<Rightarrow> u32 \<Rightarrow> u32 \<Rightarrow> u32 \<Rightarrow> u32 \<Rightarrow> ('d, 'z) fat_scheme \<Rightarrow> (int \<times> ('d, 'z) fat_scheme) comp" where
  "clusterWrite B contentsToWrite contentSize contentBuffOffset clusterNum s =
     (if clusterNum < 2 \<or> clusterNum \<ge> total_clusters s then
        complain B ''Function clusterWrite: Invalid cluster number!'' (-1) s
      else
        let byteOffset = contentBuffOffset * cluster_bytes s;
            s = s\<lparr>ram := memcpy (DISK_WRITE_LOCATION + byteOffset) contentsToWrite contentSize (ram s)\<rparr>
        in bnd (int13h_write_o B (start_sect clusterNum s) (sectors_per_cluster (bootsect s)) byteOffset s) (\<lambda>(r, s).
           if r \<noteq> 0 then
             bnd (d_printss B (cstr ''Function clusterWrite: An error occured with int13h_write_o, the area in sector '') s) (\<lambda>s.
             bnd (d_printhex B (start_sect clusterNum s) 8 s) (\<lambda>s.
             bnd (d_printss B (cstr '' through to sector '') s) (\<lambda>s.
             bnd (d_printhex B (ucast (sectors_per_cluster (bootsect s)) + start_sect clusterNum s) 2 s) (\<lambda>s.
               complain B '' are now in an unknown state.'' (-1) s))))
           else ret (0, s)))"

subsection \<open>What the messages do\<close>

text \<open>
  If the lowest kilobyte of memory holds a NUL after address 127 and no percent sign, then every
  character of a message is a pointer to a harmless string, and a message writes some text to
  the terminal and does nothing else.
\<close>

definition benign :: "mem \<Rightarrow> bool" where
  "benign m \<longleftrightarrow> (\<exists>q. 128 \<le> q \<and> q < 0x400 \<and> m (of_nat q) = 0)
     \<and> (\<forall>a. 0 < a \<and> a < 0x400 \<longrightarrow> m a \<noteq> 37)"

definition ascii :: "u8 list \<Rightarrow> bool" where
  "ascii cs \<longleftrightarrow> list_all (\<lambda>c. c \<noteq> 0 \<and> c < 128) cs"

text \<open>The string at a low address, and the text that a message turns into: each of its characters is taken
  for an address.\<close>

definition spoken :: "mem \<Rightarrow> u32 \<Rightarrow> u8 list" where
  "spoken m p = takeWhile (\<lambda>b. b \<noteq> 0) (mem_read m p (0x400 - unat p))"

definition uttered :: "mem \<Rightarrow> u8 list \<Rightarrow> u8 list" where
  "uttered m cs = concat (map (\<lambda>c. spoken m (ucast c)) cs)"

lemma takeWhile_mem_read:
  assumes "n < k" "m (p + of_nat n) = 0" "\<And>i. i < n \<Longrightarrow> m (p + of_nat i) \<noteq> 0"
  shows "takeWhile (\<lambda>b. b \<noteq> 0) (mem_read m p k) = mem_read m p n"
proof -
  have "mem_read m p k = mem_read m p n @ m (p + of_nat n) # mem_read m (p + of_nat n + 1) (k - Suc n)"
    using mem_read_append [of m p n "k - n"] assms(1) by (simp add: mem_read_Cons Suc_diff_Suc flip: Suc_diff_Suc)
  moreover have "\<And>x. x \<in> set (mem_read m p n) \<Longrightarrow> x \<noteq> 0" using assms(3) by (auto simp: mem_read_def)
  ultimately show ?thesis using assms(2) takeWhile_append2 [of "mem_read m p n" "\<lambda>b. b \<noteq> 0"] by simp
qed

lemma benign_spoken:
  assumes "benign m" "0 < p" "p < 128"
  shows "string_at m p = ret (spoken m p)" "37 \<notin> set (spoken m p)" "length (spoken m p) \<le> 0x400"
proof -
  obtain q where q: "128 \<le> q" "q < 0x400" "m (of_nat q) = 0"
    using assms(1) by (auto simp: benign_def)
  have p: "0 < unat p" "unat p < 128"
    using assms(2,3) by (simp_all add: word_less_nat_alt)
  then have "p + of_nat (q - unat p) = of_nat q"
    using q(1) by (simp add: of_nat_diff)
  then obtain n where n: "n \<le> q - unat p" "string_at m p = ret (mem_read m p n)"
    "m (p + of_nat n) = 0" "\<And>i. i < n \<Longrightarrow> m (p + of_nat i) \<noteq> 0"
    using string_at_before_NUL [of m p "q - unat p"] q(3) by auto
  have eq: "spoken m p = mem_read m p n"
    unfolding spoken_def using n q p by (intro takeWhile_mem_read) auto
  have "m (p + of_nat i) \<noteq> 37" if "i < n" for i
  proof -
    have u: "unat (p + of_nat i) = unat p + i"
      using that n(1) p(2) q by (simp add: unat_word_ariths unat_of_nat)
    then have "0 < p + of_nat i" "p + of_nat i < 0x400"
      using p(1) that n(1) q(2) by (simp_all add: word_less_nat_alt)
    then show ?thesis
      using assms(1) by (simp add: benign_def)
  qed
  then have "37 \<notin> set (mem_read m p n)"
    by (auto simp: mem_read_def)
  with n(1,2) q(2) eq show "string_at m p = ret (spoken m p)" "37 \<notin> set (spoken m p)" "length (spoken m p) \<le> 0x400"
    by simp_all
qed

text \<open>Only the lowest kilobyte counts, and output does not change it.\<close>

lemma off_screen_kilobyte:
  assumes "off_screen m m'" "a < 0x400"
  shows "m a = m' a"
  using off_screen_low [OF assms(1), of a 1] assms(2) by (simp add: mem_read_def word_less_nat_alt)

lemma spoken_cong:
  assumes "\<And>a. a < 0x400 \<Longrightarrow> m a = m' a"
  shows "spoken m = spoken m'"
proof
  fix p :: u32
  have "mem_read m p (0x400 - unat p) = mem_read m' p (0x400 - unat p)"
  proof (rule mem_read_cong)
    fix i
    assume i: "i < 0x400 - unat p"
    then have "unat (p + of_nat i) = unat p + i" by (simp add: unat_word_ariths unat_of_nat)
    then show "m (p + of_nat i) = m' (p + of_nat i)"
      using i by (intro assms) (simp add: word_less_nat_alt)
  qed
  then show "spoken m p = spoken m' p" by (simp add: spoken_def)
qed

lemma benign_off_screen:
  assumes "off_screen m m'"
  shows "benign m \<longleftrightarrow> benign m'"
proof -
  have "(of_nat q :: u32) < 0x400" if "q < 0x400" for q
    using that by (simp add: word_less_nat_alt)
  then show ?thesis
    using off_screen_kilobyte [OF assms] by (fastforce simp: benign_def)
qed

lemma terminal_write_step: "tty_ok s \<Longrightarrow> console_step s (terminal_write B cs s)"
  by (intro console_intros)

lemma benign_write: "tty_ok s \<Longrightarrow> benign (ram s) \<Longrightarrow> benign (ram (terminal_write B cs s))"
  using benign_off_screen [OF console_step_off_screen [OF terminal_write_step]] by blast

lemma terminal_write_append: "terminal_write B ds (terminal_write B cs s) = terminal_write B (cs @ ds) s"
  by (simp add: terminal_write_def)

lemma uttered_write: "tty_ok s \<Longrightarrow> uttered (ram (terminal_write B ds s)) = uttered (ram s)"
proof -
  assume "tty_ok s"
  then have "spoken (ram (terminal_write B ds s)) = spoken (ram s)"
    by (intro spoken_cong off_screen_kilobyte [OF console_step_off_screen [OF terminal_write_step]])
  then show ?thesis by (simp add: uttered_def [abs_def])
qed

lemma printf_word_benign:
  assumes "benign (ram s)" "0 < p" "p < 128"
  shows "printf_word B p s = ret (terminal_write B (spoken (ram s) p) s)"
  using benign_spoken [OF assms] by (simp add: printf_word_def printf_plain INT_MAX_def)

lemma scast_ascii:
  fixes c :: u8
  assumes "c \<noteq> 0" "c < 128"
  shows "0 < (ucast c :: u32)" "(ucast c :: u32) < 128" "(scast c :: u32) = ucast c"
proof -
  have "sint c = uint c"
    using assms(2) by (simp add: sint_u8 word_less_def)
  then show "(scast c :: u32) = ucast c"
    by (metis of_int_sint of_int_uint)
  show "0 < (ucast c :: u32)" "(ucast c :: u32) < 128"
    using assms by (simp_all add: word_less_nat_alt unat_ucast_wide unat_gt_0)
qed

lemma d_printss_uttered:
  assumes "ascii cs" "tty_ok s" "benign (ram s)"
  shows "d_printss B (cs @ 0 # r) s = ret (terminal_write B (uttered (ram s) cs) s)"
  using assms
proof (induction cs arbitrary: s)
  case Nil
  then show ?case by (simp add: terminal_write_def uttered_def)
next
  case (Cons c cs)
  then have c: "c \<noteq> 0" "c < 128" "ascii cs" by (simp_all add: ascii_def)
  let ?s = "terminal_write B (spoken (ram s) (ucast c)) s"
  have "printf_word B (scast c) s = ret ?s"
    using printf_word_benign [OF Cons.prems(3)] scast_ascii [OF c(1,2)] by simp
  moreover have "d_printss B (cs @ 0 # r) ?s = ret (terminal_write B (uttered (ram ?s) cs) ?s)"
    using Cons.IH [OF c(3) terminal_write_ok(1) benign_write] Cons.prems by blast
  ultimately show ?case
    using c(1) by (simp add: terminal_write_append uttered_write [OF Cons.prems(2)]) (simp add: uttered_def)
qed

lemma d_printss_benign:
  "ascii cs \<Longrightarrow> tty_ok s \<Longrightarrow> benign (ram s) \<Longrightarrow> \<exists>ds. d_printss B (cs @ 0 # r) s = ret (terminal_write B ds s)"
  using d_printss_uttered by blast

lemma complain_benign:
  assumes "ascii (lit msg)" "tty_ok s" "benign (ram s)"
  shows "\<exists>ds. complain B msg r s = ret (r, terminal_write B ds s)"
proof -
  have "ascii (lit (msg @ [CHR 0x0A]))"
    using assms(1) by (simp add: ascii_def lit_def)
  then show ?thesis
    using d_printss_benign [of "lit (msg @ [CHR 0x0A])" s B "[]"] assms(2,3)
    by (auto simp: complain_def cstr_def)
qed

text \<open>The digits of a number.\<close>

definition hex_text :: "u32 \<Rightarrow> nat \<Rightarrow> u8 list" where
  "hex_text num k = map (\<lambda>i. lit ''0123456789ABCDEF'' ! (unat num div 16 ^ i mod 16)) (rev [0..<k])"

lemma hex_digit:
  fixes num :: u32 and k :: nat
  defines "v \<equiv> drop_bit (k * 4) num AND 0xF" and "c \<equiv> lit ''0123456789ABCDEF'' ! (unat num div 16 ^ k mod 16)"
  shows "(if v < 10 then v + 48 else v + (65 - 10)) = ucast c" "c \<noteq> 0" "c < 128"
proof -
  have "(16 :: nat) ^ k = 2 ^ (k * 4)" using power_mult [of "2 :: nat" 4 k] by (simp add: mult.commute)
  moreover have "v = take_bit 4 (drop_bit (k * 4) num)" by (simp add: v_def take_bit_eq_mask mask_numeral)
  ultimately have u: "unat v = unat num div 16 ^ k mod 16"
    using unsigned_drop_bit_eq [where 'a = nat, of "k * 4" num]
    by (simp add: take_bit_eq_mod unat_mod drop_bit_eq_div [where 'a = nat] take_bit_nat_eq_self del: drop_bit_of_nat)
  define d where "d = unat num div 16 ^ k mod 16"
  have v: "v = of_nat d" using arg_cong [OF u, of "of_nat :: nat \<Rightarrow> u32"] by (simp add: d_def)
  have "d < 16" by (simp add: d_def)
  then have "d \<in> {0, 1, 2, 3, 4, 5, 6, 7, 8, 9, 10, 11, 12, 13, 14, 15}" unfolding insert_iff empty_iff by arith
  then show "(if v < 10 then v + 48 else v + (65 - 10)) = ucast c" "c \<noteq> 0" "c < 128"
    unfolding v c_def d_def [symmetric] by (auto simp: lit_def)
qed

lemma d_printhex_uttered:
  assumes "tty_ok s" "benign (ram s)"
  shows "d_printhex B num k s = ret (terminal_write B (uttered (ram s) (hex_text num k)) s)"
  using assms
proof (induction k arbitrary: s)
  case 0
  then show ?case by (simp add: terminal_write_def uttered_def hex_text_def)
next
  case (Suc k)
  let ?c = "lit ''0123456789ABCDEF'' ! (unat num div 16 ^ k mod 16)"
  let ?s = "terminal_write B (spoken (ram s) (ucast ?c)) s"
  note h = hex_digit [where k = k and num = num]
  have "printf_word B (ucast ?c) s = ret ?s"
    using printf_word_benign [OF Suc.prems(2)] scast_ascii [OF h(2,3)] by simp
  moreover have "d_printhex B num k ?s = ret (terminal_write B (uttered (ram ?s) (hex_text num k)) ?s)"
    using Suc.IH [OF terminal_write_ok(1) benign_write] Suc.prems by blast
  ultimately show ?case
    using h(1) by (simp add: Let_def terminal_write_append uttered_write [OF Suc.prems(1)]) (simp add: uttered_def hex_text_def)
qed

lemma d_printhex_benign:
  "tty_ok s \<Longrightarrow> benign (ram s) \<Longrightarrow> \<exists>ds. d_printhex B num k s = ret (terminal_write B ds s)"
  using d_printhex_uttered by blast

lemma complain_hex_benign:
  assumes "ascii (lit msg)" "ascii (lit msg')" "tty_ok s" "benign (ram s)"
  shows "\<exists>ds. complain_hex B msg n msg' r s = ret (r, terminal_write B ds s)"
proof -
  obtain d1 where 1: "d_printss B (cstr msg) s = ret (terminal_write B d1 s)"
    using d_printss_benign [OF assms(1,3,4), of B "[]"] by (auto simp: cstr_def)
  let ?s = "terminal_write B d1 s"
  obtain d2 where 2: "d_printhex B n 8 ?s = ret (terminal_write B d2 ?s)"
    using d_printhex_benign [OF terminal_write_ok(1) benign_write] assms(3,4) by blast
  let ?t = "terminal_write B d2 ?s"
  have t: "tty_ok ?t" "benign (ram ?t)"
    using assms(3,4) by (simp_all add: terminal_write_ok(1) benign_write)
  obtain d3 where "complain B msg' r ?t = ret (r, terminal_write B d3 ?t)"
    using complain_benign [OF assms(2) t, of B r] by blast
  with 1 2 show ?thesis
    by (auto simp: complain_hex_def terminal_write_append)
qed

subsection \<open>The geometry of a volume\<close>

text \<open>
  What the boot sector says of the volume, as numbers: the count of clusters, the width of a table
  entry that follows from it, the sectors of the tables and of the root directory in front of the data.
\<close>

definition clusters_of :: "fat_BS \<Rightarrow> nat" where
  "clusters_of b =
     (let n = unat (total_sectors_16 b) div unat (sectors_per_cluster b)
      in if n = 0 then unat (total_sectors_32 b) div unat (sectors_per_cluster b) else n)"

definition entry_width :: "nat \<Rightarrow> nat" where
  "entry_width n = (if n < 4085 then 12 else if n < 65525 then 16 else 32)"

definition table_sectors :: "fat_BS \<Rightarrow> nat" where
  "table_sectors b = unat (table_count b) *
     (if entry_width (clusters_of b) = 32 then unat (table_size_32 (extBS_32_of (extended_section b)))
      else unat (table_size_16 b))"

definition root_sectors :: "fat_BS \<Rightarrow> nat" where
  "root_sectors b =
     (if entry_width (clusters_of b) = 32 then 0
      else (32 * unat (root_entry_count b) + unat (bytes_per_sector b) - 1) div unat (bytes_per_sector b))"

lemma unat_add_lt: "unat (x :: u32) + unat y < 2 ^ 32 \<Longrightarrow> unat (x + y) = unat x + unat y"
  by (simp add: unat_word_ariths)

lemma unat_mult_lt: "unat (x :: u32) * unat y < 2 ^ 32 \<Longrightarrow> unat (x * y) = unat x * unat y"
  by (simp add: unat_word_ariths)

lemma root_sectors_word:
  fixes r bps :: u16
  assumes "bps \<noteq> 0"
  shows "unat ((ucast r * 32 + ucast bps - 1) div ucast bps :: u32) = (32 * unat r + unat bps - 1) div unat bps"
proof -
  have "unat r < 65536" "unat bps < 65536" by simp_all
  then have r: "32 * unat r + unat bps < 4294967296" by linarith
  have bps: "0 < unat bps" using assms by (simp add: unat_gt_0)
  have sum: "unat (ucast r * 32 + ucast bps :: u32) = 32 * unat r + unat bps"
    using r by (simp add: unat_word_ariths unat_ucast_wide16 mult.commute)
  then have "ucast r * 32 + ucast bps \<noteq> (0 :: u32)" using bps by (metis add_is_0 less_numeral_extra(3) unat_eq_zero)
  from unat_minus_one [OF this] sum have "unat (ucast r * 32 + ucast bps - 1 :: u32) = 32 * unat r + unat bps - 1"
    by simp
  then show ?thesis by (simp add: unat_div unat_ucast_wide16)
qed

lemma fat_geometry_ok:
  assumes "sectors_per_cluster b \<noteq> 0" "bytes_per_sector b \<noteq> 0"
    and "unat (reserved_sector_count b) + table_sectors b + root_sectors b < 2 ^ 32"
  shows "\<exists>tc ft fd. fat_geometry b s = ret (s\<lparr>total_clusters := tc, fat_type := ft, first_data_sector := fd\<rparr>)
    \<and> unat tc = clusters_of b \<and> ft = of_nat (entry_width (clusters_of b))
    \<and> unat fd = unat (reserved_sector_count b) + table_sectors b + root_sectors b"
proof -
  let ?spc = "ucast (sectors_per_cluster b) :: u32"
  define t16 where "t16 = ucast (total_sectors_16 b) div ?spc"
  define tc where "tc = (if t16 = 0 then total_sectors_32 b div ?spc else t16)"
  have "unat t16 = unat (total_sectors_16 b) div unat (sectors_per_cluster b)"
    by (simp add: t16_def unat_div unat_ucast_wide unat_ucast_wide16)
  then have tc: "unat tc = clusters_of b"
    by (simp add: tc_def clusters_of_def Let_def unat_div unat_ucast_wide flip: unat_eq_zero)
  have lt: "tc < 65525 \<longleftrightarrow> clusters_of b < 65525" "tc < 4085 \<longleftrightarrow> clusters_of b < 4085"
    by (simp_all add: word_less_nat_alt tc)
  have bps: "ucast (bytes_per_sector b) \<noteq> (0 :: u32)"
    using assms(2) unat_ucast_wide16 [of "bytes_per_sector b"] by (metis unat_eq_zero)
  note eq = fat_geometry_def [of b s, unfolded Let_def, folded t16_def, folded tc_def]
  show ?thesis
  proof (cases "clusters_of b < 65525")
    case True
    then have w: "entry_width (clusters_of b) \<noteq> 32" by (simp add: entry_width_def)
    let ?t = "ucast (table_count b) * ucast (table_size_16 b) :: u32"
    let ?r = "(ucast (root_entry_count b) * 32 + ucast (bytes_per_sector b) - 1) div ucast (bytes_per_sector b) :: u32"
    have t: "unat ?t = table_sectors b"
      using w assms(3) by (subst unat_mult_lt) (simp_all add: table_sectors_def unat_ucast_wide unat_ucast_wide16)
    have r: "unat ?r = root_sectors b"
      using w root_sectors_word [OF assms(2), of "root_entry_count b"] by (simp add: root_sectors_def)
    have "unat (ucast (reserved_sector_count b) + ?t) = unat (reserved_sector_count b) + table_sectors b"
      using assms(3) by (subst unat_add_lt) (simp_all add: t unat_ucast_wide16)
    then have "unat (ucast (reserved_sector_count b) + ?t + ?r) = unat (reserved_sector_count b) + table_sectors b + root_sectors b"
      using assms(3) by (subst unat_add_lt) (simp_all add: r)
    moreover have "fat_geometry b s = ret (s\<lparr>total_clusters := tc, fat_type := of_nat (entry_width (clusters_of b)),
        first_data_sector := ucast (reserved_sector_count b) + ?t + ?r\<rparr>)"
      using assms(1) True bps unfolding eq lt by (simp add: entry_width_def)
    ultimately show ?thesis using tc by blast
  next
    case False
    then have w: "entry_width (clusters_of b) = 32" by (simp add: entry_width_def)
    let ?t = "ucast (table_count b) * table_size_32 (extBS_32_of (extended_section b)) :: u32"
    have t: "unat ?t = table_sectors b"
      using w assms(3) by (subst unat_mult_lt) (simp_all add: table_sectors_def unat_ucast_wide)
    have "unat (ucast (reserved_sector_count b) + ?t) = unat (reserved_sector_count b) + table_sectors b"
      using assms(3) by (subst unat_add_lt) (simp_all add: t unat_ucast_wide16)
    moreover have "fat_geometry b s = ret (s\<lparr>total_clusters := tc, fat_type := 32,
        first_data_sector := ucast (reserved_sector_count b) + ?t\<rparr>)"
      using assms(1) False unfolding eq lt by simp
    ultimately show ?thesis using tc w by (auto simp: root_sectors_def)
  qed
qed

text \<open>The structure is in the first 90 bytes.\<close>

lemma fat_BS_of_take: "length bs = 512 \<Longrightarrow> fat_BS_of (take 90 bs) = fat_BS_of bs"
  by (simp add: fat_BS_of_def get16_def get32_def drop_take)

text \<open>
  An overrun that spares the driver: the bytes behind \<open>bootsect\<close> are in no variable of the
  driver or of the terminal, not in the transfer buffer and not in a device.
\<close>

definition spares :: "('d \<Rightarrow> ata) \<Rightarrow> (u8 list \<Rightarrow> ('d, 'z) fat_scheme \<Rightarrow> ('d, 'z) fat_scheme) \<Rightarrow> bool" where
  "spares drv spill \<longleftrightarrow> (\<forall>bs s. disk_ready drv s \<longrightarrow>
     disk_ready drv (spill bs s) \<and> disk drv (spill bs s) = disk drv s \<and> tty.more (spill bs s) = tty.more s
     \<and> mem_read (ram (spill bs s)) DISK_READ_LOCATION 512 = mem_read (ram s) DISK_READ_LOCATION 512)"

subsection \<open>A specification of the table\<close>

text \<open>
  The contract between the table and its clients: entries for the clusters from 2 to a
  limit, which can be read and replaced one at a time. Both operations keep what is outside the
  table and the transfer buffer (\<open>frame\<close>), and a write leaves the part of the table that holds
  the entry in the buffer (\<open>cached\<close>).
\<close>

locale alloc_table =
  fixes ok :: "'s \<Rightarrow> bool" and entry :: "'s \<Rightarrow> u32 \<Rightarrow> u32" and limit :: "'s \<Rightarrow> u32"
    and rd :: "u32 \<Rightarrow> 's \<Rightarrow> (int \<times> 's) comp" and wr :: "u32 \<Rightarrow> u32 \<Rightarrow> 's \<Rightarrow> (int \<times> 's) comp"
    and fits :: "u32 \<Rightarrow> bool" and frame :: "'s \<Rightarrow> 's \<Rightarrow> bool" and cached :: "'s \<Rightarrow> u32 \<Rightarrow> bool"
  assumes rd_ok: "ok s \<Longrightarrow> 2 \<le> n \<Longrightarrow> n < limit s \<Longrightarrow>
      \<exists>t. rd n s = ret (uint (entry s n), t) \<and> ok t \<and> entry t = entry s \<and> limit t = limit s \<and> frame s t"
    and frame_trans: "frame s t \<Longrightarrow> frame t u \<Longrightarrow> frame s u"
    and wr_ok: "ok s \<Longrightarrow> 2 \<le> n \<Longrightarrow> n < limit s \<Longrightarrow> fits v \<Longrightarrow>
      \<exists>t. wr n v s = ret (0, t) \<and> ok t \<and> limit t = limit s \<and> frame s t \<and> cached t n
        \<and> (\<forall>m. 2 \<le> m \<and> m < limit s \<longrightarrow> entry t m = (if m = n then v else entry s m))"
begin

text \<open>The search stops at the first free cluster and marks it as the end of a chain.\<close>

lemma alloc_first:
  assumes "fits e"
  shows "ok s \<Longrightarrow> 2 \<le> c \<Longrightarrow> unat c + k < unat (limit s) \<Longrightarrow> k < fuel \<Longrightarrow>
    (\<And>i. i < k \<Longrightarrow> entry s (c + of_nat i) \<noteq> free) \<Longrightarrow> entry s (c + of_nat k) = free \<Longrightarrow>
    \<exists>t. alloc_loop rd (\<lambda>c. wr c e) fail free bad fuel c s = ret (c + of_nat k, t) \<and> ok t
      \<and> limit t = limit s \<and> frame s t \<and> cached t (c + of_nat k)
      \<and> (\<forall>m. 2 \<le> m \<and> m < limit s \<longrightarrow> entry t m = (if m = c + of_nat k then e else entry s m))"
proof (induction k arbitrary: c s fuel)
  case 0
  then obtain f where f: "fuel = Suc f" by (cases fuel) auto
  have c: "c < limit s" using "0.prems"(3) by (simp add: word_less_nat_alt)
  obtain t where t: "rd c s = ret (uint (entry s c), t)" "ok t" "entry t = entry s" "limit t = limit s" "frame s t"
    using rd_ok [OF "0.prems"(1,2) c] by blast
  obtain u where u: "wr c e t = ret (0, u)" "ok u" "limit u = limit t" "frame t u" "cached u c"
    "\<forall>m. 2 \<le> m \<and> m < limit t \<longrightarrow> entry u m = (if m = c then e else entry t m)"
    using wr_ok [OF t(2) "0.prems"(2) _ assms] c t(4) by auto
  with 0 t f frame_trans [OF t(5) u(4)] show ?case by simp
next
  case (Suc k)
  then obtain f where f: "fuel = Suc f" by (cases fuel) auto
  have c: "c < limit s" using Suc.prems(3) by (simp add: word_less_nat_alt)
  obtain t where t: "rd c s = ret (uint (entry s c), t)" "ok t" "entry t = entry s" "limit t = limit s" "frame s t"
    using rd_ok [OF Suc.prems(1,2) c] by blast
  have nf: "entry s c \<noteq> free" using Suc.prems(5) [of 0] by simp
  have u: "unat (c + 1) = unat c + 1"
    using Suc.prems(3) unat_u32_less [of "limit s"] by (simp add: unat_word_ariths del: unat_u32_less)
  have "\<exists>t'. alloc_loop rd (\<lambda>c. wr c e) fail free bad f (c + 1) t = ret (c + 1 + of_nat k, t') \<and> ok t'
      \<and> limit t' = limit t \<and> frame t t' \<and> cached t' (c + 1 + of_nat k)
      \<and> (\<forall>m. 2 \<le> m \<and> m < limit t \<longrightarrow> entry t' m = (if m = c + 1 + of_nat k then e else entry t m))"
  proof (rule Suc.IH [OF t(2)])
    show "2 \<le> c + 1" using u Suc.prems(2) by (simp add: word_le_nat_alt)
    show "unat (c + 1) + k < unat (limit t)" using u t(4) Suc.prems(3) by simp
    show "k < f" using f Suc.prems(4) by simp
    show "entry t (c + 1 + of_nat k) = free" using Suc.prems(6) t(3) by (simp add: add.assoc)
  next
    fix i
    assume "i < k"
    then show "entry t (c + 1 + of_nat i) \<noteq> free"
      using Suc.prems(5) [of "Suc i"] t(3) by (simp add: add.assoc)
  qed
  then show ?case
    using t nf f frame_trans [OF t(5)] by (auto simp: add.assoc)
qed

text \<open>With no free cluster nothing changes and the search reports failure.\<close>

lemma alloc_none:
  "ok s \<Longrightarrow> 2 \<le> c \<Longrightarrow> unat c + fuel \<le> unat (limit s) \<Longrightarrow>
    (\<And>i. i < fuel \<Longrightarrow> entry s (c + of_nat i) \<noteq> free) \<Longrightarrow>
    \<exists>t. alloc_loop rd (\<lambda>c. wr c e) fail free bad fuel c s = ret (bad, t) \<and> ok t \<and> entry t = entry s
      \<and> (s = t \<or> frame s t)"
proof (induction fuel arbitrary: c s)
  case (Suc f)
  have c: "c < limit s" using Suc.prems(3) by (simp add: word_less_nat_alt)
  obtain t where t: "rd c s = ret (uint (entry s c), t)" "ok t" "entry t = entry s" "limit t = limit s" "frame s t"
    using rd_ok [OF Suc.prems(1,2) c] by blast
  have nf: "entry s c \<noteq> free" using Suc.prems(4) [of 0] by simp
  have u: "unat (c + 1) \<le> unat c + 1" "unat c < unat (c + 1) \<or> f = 0"
    using Suc.prems(3) unat_u32_less [of "limit s"] by (auto simp: unat_word_ariths simp del: unat_u32_less)
  show ?case
  proof (cases "f = 0")
    case True
    then show ?thesis using t nf by simp
  next
    case False
    have "\<exists>t'. alloc_loop rd (\<lambda>c. wr c e) fail free bad f (c + 1) t = ret (bad, t') \<and> ok t' \<and> entry t' = entry t
        \<and> (t = t' \<or> frame t t')"
    proof (rule Suc.IH [OF t(2)])
      show "2 \<le> c + 1" using u False Suc.prems(2) by (simp add: word_le_nat_alt)
      show "unat (c + 1) + f \<le> unat (limit t)" using u t(4) Suc.prems(3) by simp
    next
      fix i
      assume "i < f"
      then show "entry t (c + 1 + of_nat i) \<noteq> free"
        using Suc.prems(4) [of "Suc i"] t(3) by (simp add: add.assoc)
    qed
    then show ?thesis using t nf frame_trans [OF t(5)] by auto
  qed
qed auto

end

subsection \<open>FAT32 with one sector per cluster\<close>

text \<open>
  With clusters of one sector of 512 bytes, the place where the code looks for an entry is the
  entry's place in the table, and the table component keeps its contract.
\<close>

lemma fat_fields:
  fixes s t :: "('d, 'z) fat_scheme"
  assumes "tty.more t = tty.more s"
  shows "fat_type t = fat_type s" "first_fat_sector t = first_fat_sector s"
    "first_data_sector t = first_data_sector s" "total_clusters t = total_clusters s"
    "bootsect t = bootsect s"
  using assms by (cases s; cases t; simp)+

lemma disk_ready_ram [simp]: "disk_ready drv (s\<lparr>ram := m\<rparr>) = disk_ready drv s"
  by (simp add: disk_ready_def tty_ok_def)

lemma disk_ram [simp]: "disk drv (s\<lparr>ram := m\<rparr>) = disk drv s"
  by (simp add: disk_def fun_eq_iff)

definition fat32_ok :: "('d \<Rightarrow> ata) \<Rightarrow> ('d, 'z) fat_scheme \<Rightarrow> bool" where
  "fat32_ok drv s \<longleftrightarrow> disk_ready drv s \<and> fat_type s = 32 \<and> bytes_per_sector (bootsect s) = 512
     \<and> sectors_per_cluster (bootsect s) = 1 \<and> unat (total_clusters s) < 2 ^ 28
     \<and> unat (first_fat_sector s) + unat (total_clusters s) div 128 < unat part_length"

definition fat_sec :: "('d, 'z) fat_scheme \<Rightarrow> u32 \<Rightarrow> u32" where
  "fat_sec s n = first_fat_sector s + of_nat (unat n div 128)"

definition fat_off :: "u32 \<Rightarrow> nat" where
  "fat_off n = 4 * (unat n mod 128)"

text \<open>The entry of a cluster on the disk, with its upper four bits.\<close>

definition fat_raw :: "('d \<Rightarrow> ata) \<Rightarrow> ('d, 'z) fat_scheme \<Rightarrow> u32 \<Rightarrow> u32" where
  "fat_raw drv s n = get32 (disk drv s (fat_sec s n)) (fat_off n)"

lemma fat32_locate:
  assumes "fat32_ok drv s" "n < total_clusters s"
  shows "fat_locate (n * 4) s = ret (fat_sec s n, of_nat (fat_off n))" "in_partition (fat_sec s n) 1"
proof -
  have n: "unat n < 2 ^ 28" "unat n div 128 \<le> unat (total_clusters s) div 128"
    using assms by (auto simp: fat32_ok_def word_less_nat_alt div_le_mono)
  have n4: "unat (n * 4) = 4 * unat n"
    using n(1) by (simp add: unat_word_ariths)
  have d: "n * 4 div 512 = of_nat (unat n div 128)"
    using n(1) by (simp add: word_unat_eq_iff unat_div n4 unat_of_nat mod_less)
  have m: "n * 4 mod 512 = of_nat (fat_off n)"
    by (simp add: word_unat_eq_iff unat_mod n4 fat_off_def unat_of_nat mult_mod_right)
  show "fat_locate (n * 4) s = ret (fat_sec s n, of_nat (fat_off n))"
    using assms(1) d m by (simp add: fat_locate_def fat32_ok_def fat_sec_def)
  have "unat (fat_sec s n) = (unat (first_fat_sector s) + unat n div 128) mod 2 ^ 32"
    using n(1) by (simp add: fat_sec_def unat_word_ariths)
  then have "unat (fat_sec s n) \<le> unat (first_fat_sector s) + unat n div 128"
    by (simp add: mod_less_eq_dividend)
  then show "in_partition (fat_sec s n) 1"
    using assms(1) n(2) by (auto simp: in_partition_def fat32_ok_def)
qed

text \<open>Replacing four bytes of a sector.\<close>

definition put32 :: "u8 list \<Rightarrow> nat \<Rightarrow> u32 \<Rightarrow> u8 list" where
  "put32 bs i v = take i bs @ bytes32 v @ drop (i + 4) bs"

lemma length_put32 [simp]: "i + 4 \<le> length bs \<Longrightarrow> length (put32 bs i v) = length bs"
  by (simp add: put32_def)

lemma get32_append: "i + 4 \<le> length bs \<Longrightarrow> get32 (bs @ cs) i = get32 bs i"
  by (simp add: get32_def nth_append)

lemma get32_put32: "i + 4 \<le> length bs \<Longrightarrow> get32 (put32 bs i v) i = v"
  by (simp add: get32_def put32_def nth_append bytes32_def le32_bytes32 nth_Cons')

lemma get32_put32_other:
  "i + 4 \<le> length bs \<Longrightarrow> j + 4 \<le> length bs \<Longrightarrow> j + 4 \<le> i \<or> i + 4 \<le> j \<Longrightarrow>
     get32 (put32 bs i v) j = get32 bs j"
  by (auto simp: get32_def put32_def nth_append bytes32_def min_def add.commute)

lemma fat_off_bound: "fat_off n + 4 \<le> 512" "unat (of_nat (fat_off n) :: u32) = fat_off n"
proof -
  show *: "fat_off n + 4 \<le> 512"
    by (simp add: fat_off_def)
  show "unat (of_nat (fat_off n) :: u32) = fat_off n"
    using * by (intro unat_of_nat32) simp
qed

lemma fat32_table_bytes:
  fixes s t :: "('d, 'z) fat_scheme"
  assumes "fat32_ok drv s" "off_screen (ram t) (mem_write (ram s) DISK_READ_LOCATION (sector_run f sec 1))"
    and "length (f sec) = 512" "tty.more t = tty.more s"
  shows "table_bytes t = ret (f sec)"
proof -
  have "mem_read (ram t) DISK_READ_LOCATION 512 = mem_read (mem_write (ram s) DISK_READ_LOCATION (f sec))
      DISK_READ_LOCATION 512"
    using off_screen_low [OF assms(2), of DISK_READ_LOCATION 512] by (simp add: DISK_READ_LOCATION_def)
  then show ?thesis
    using assms(1,3) fat_fields [OF assms(4)] mem_read_write_same [of "f sec" "ram s" DISK_READ_LOCATION]
    by (simp add: table_bytes_def FAT_TABLE_SIZE_def fat32_ok_def)
qed

lemma fat32_ok_step:
  fixes s t :: "('d, 'z) fat_scheme"
  shows "fat32_ok drv s \<Longrightarrow> disk_ready drv t \<Longrightarrow> tty.more t = tty.more s \<Longrightarrow> fat32_ok drv t"
  using fat_fields [of t s] by (simp add: fat32_ok_def)

lemma FATRead_ok:
  assumes dev: "ata_on B drv" "uart_ready B" and s: "fat32_ok drv s" and n: "2 \<le> n" "n < total_clusters s"
  shows "\<exists>t. FATRead B n s = ret (uint (fat_raw drv s n AND 0x0FFFFFFF), t) \<and> fat32_ok drv t
    \<and> disk drv t = disk drv s \<and> tty.more t = tty.more s
    \<and> off_screen (ram t) (mem_write (ram s) DISK_READ_LOCATION (disk drv s (fat_sec s n)))"
proof -
  note bd = int13h_block_device [OF dev]
  note loc = fat32_locate [OF s n(2)]
  have r: "disk_ready drv s" using s by (simp add: fat32_ok_def)
  obtain t where t: "int13h_read B (fat_sec s n) 1 s = (0, t)" "disk_ready drv t" "disk drv t = disk drv s"
    "tty.more t = tty.more s"
    "off_screen (ram t) (mem_write (ram s) DISK_READ_LOCATION (sector_run (disk drv s) (fat_sec s n) 1))"
    using block_device.load_ok [OF bd r loc(2)] by auto
  have len: "length (disk drv s (fat_sec s n)) = 512"
    using block_device.sect_length [OF bd r] .
  have "table_bytes t = ret (disk drv s (fat_sec s n))"
    using fat32_table_bytes [OF s t(5) len t(4)] .
  then have "FATRead32 B n s = ret (uint (fat_raw drv s n AND 0x0FFFFFFF), t)"
    using t(1) loc(1) len fat_off_bound [of n]
    by (simp add: FATRead32_def fat_raw_def get32_append FAT_TABLE_SIZE_def)
  then have "FATRead B n s = ret (uint (fat_raw drv s n AND 0x0FFFFFFF), t)"
    using leD [OF n(1)] leD [of "total_clusters s" n] n(2) s by (auto simp: FATRead_def fat32_ok_def)
  then show ?thesis
    using t fat32_ok_step [OF s t(2,4)] by auto
qed

lemma fat_raw_set_sector:
  fixes s t :: "('d, 'z) fat_scheme"
  assumes "fat32_ok drv s" "length (disk drv s (fat_sec s n)) = 512"
    and "disk drv t = set_sector (disk drv s) (fat_sec s n) (put32 (disk drv s (fat_sec s n)) (fat_off n) v)"
    and "tty.more t = tty.more s"
  shows "fat_raw drv t m = (if m = n then v else fat_raw drv s m)"
proof -
  have sec: "fat_sec t k = fat_sec s k" for k
    using fat_fields [OF assms(4)] by (simp add: fat_sec_def)
  have small: "unat k div 128 < 2 ^ 32" for k :: u32
    using unat_u32_less [of k] by (simp del: unat_u32_less)
  have eq: "fat_sec s m = fat_sec s n \<longleftrightarrow> unat m div 128 = unat n div 128"
    using of_nat32_inject [OF small small] by (simp add: fat_sec_def)
  have "m \<noteq> n \<Longrightarrow> unat m div 128 = unat n div 128 \<Longrightarrow> unat m mod 128 \<noteq> unat n mod 128"
    by (metis div_mult_mod_eq word_unat_eq_iff)
  then have off: "m \<noteq> n \<Longrightarrow> fat_sec s m = fat_sec s n \<Longrightarrow> fat_off m + 4 \<le> fat_off n \<or> fat_off n + 4 \<le> fat_off m"
    using eq by (auto simp: fat_off_def)
  show ?thesis
    using assms(2) off fat_off_bound(1) [of m] fat_off_bound(1) [of n]
    by (auto simp: fat_raw_def sec assms(3) set_sector_def get32_put32 get32_put32_other)
qed

lemma fat_update_ok:
  assumes dev: "ata_on B drv" "uart_ready B" and s: "fat32_ok drv s" and n: "n < total_clusters s"
  shows "\<exists>t. fat_update B m1 m2 (n * 4) (bytes32 v) s = ret (0, t) \<and> fat32_ok drv t
    \<and> tty.more t = tty.more s
    \<and> off_screen (ram t) (mem_write (ram s) DISK_READ_LOCATION (disk drv t (fat_sec s n)))
    \<and> disk drv t = set_sector (disk drv s) (fat_sec s n) (put32 (disk drv s (fat_sec s n)) (fat_off n) v)"
proof -
  note bd = int13h_block_device [OF dev]
  note loc = fat32_locate [OF s n]
  let ?bs = "disk drv s (fat_sec s n)"
  let ?new = "put32 ?bs (fat_off n) v"
  have r: "disk_ready drv s" using s by (simp add: fat32_ok_def)
  obtain t where t: "int13h_read B (fat_sec s n) 1 s = (0, t)" "disk_ready drv t" "disk drv t = disk drv s"
    "tty.more t = tty.more s"
    "off_screen (ram t) (mem_write (ram s) DISK_READ_LOCATION (sector_run (disk drv s) (fat_sec s n) 1))"
    using block_device.load_ok [OF bd r loc(2)] by auto
  have len: "length ?bs = 512"
    using block_device.sect_length [OF bd r] .
  let ?u = "t\<lparr>ram := mem_write (ram t) DISK_WRITE_LOCATION ?new\<rparr>"
  have "mem_read (ram ?u) DISK_WRITE_LOCATION 512 = ?new"
    using mem_read_write_same [of ?new "ram t"] len fat_off_bound(1) [of n] by simp
  then obtain v' where v': "int13h_write B (fat_sec s n) 1 ?u = ret (0, v')" "disk_ready drv v'"
    "tty.more v' = tty.more ?u" "ram v' = ram ?u" "disk drv v' = set_sector (disk drv s) (fat_sec s n) ?new"
    using block_device.update_sector [OF bd, of ?u s "fat_sec s n" ?new] t(2,3) loc(2) by auto
  have blit: "ablit (?bs @ replicate (FAT_TABLE_SIZE - 512) 0) (fat_off n) (bytes32 v) =
      ret (?new @ replicate (FAT_TABLE_SIZE - 512) 0)"
    using len fat_off_bound(1) [of n] by (simp add: ablit_def put32_def FAT_TABLE_SIZE_def)
  have "fat_update B m1 m2 (n * 4) (bytes32 v) s = ret (0, v')"
    using fat32_table_bytes [OF s t(5) len t(4)] loc(1) t(1) v'(1) len fat_off_bound [of n]
    by (simp add: fat_update_def blit)
  moreover have "off_screen (ram v') (mem_write (ram s) DISK_READ_LOCATION ?new)"
    using off_screen_write [OF t(5), of DISK_READ_LOCATION ?new] len fat_off_bound(1) [of n]
    by (simp add: v'(4) DISK_READ_LOCATION_def DISK_WRITE_LOCATION_def mem_write_twice)
  ultimately show ?thesis
    using v' t(4) fat32_ok_step [OF s v'(2)] by (auto simp: set_sector_def)
qed

lemma FATWrite_ok:
  assumes "ata_on B drv" "uart_ready B" "fat32_ok drv s" "2 \<le> n" "n < total_clusters s"
  shows "\<exists>t. FATWrite B n v s = ret (0, t) \<and> fat32_ok drv t \<and> tty.more t = tty.more s
    \<and> (\<forall>m. fat_raw drv t m = (if m = n then v else fat_raw drv s m))
    \<and> (\<forall>l. l \<noteq> fat_sec s n \<longrightarrow> disk drv t l = disk drv s l)
    \<and> off_screen (ram t) (mem_write (ram s) DISK_READ_LOCATION (disk drv t (fat_sec s n)))"
proof -
  have len: "length (disk drv s (fat_sec s n)) = 512"
    using block_device.sect_length [OF int13h_block_device [OF assms(1,2)], of s] assms(3)
    by (simp add: fat32_ok_def)
  have "FATWrite B n v s = fat_update B
      ''Function FATWrite: Could not read sector that contains FAT32 table entry needed.''
      ''Function FATWrite: Could not write new FAT32 cluster number to sector.'' (n * 4) (bytes32 v) s"
    using assms(3,5) leD [OF assms(4)] leD [of "total_clusters s" n] by (auto simp: FATWrite_def fat32_ok_def)
  moreover obtain t where "fat_update B
      ''Function FATWrite: Could not read sector that contains FAT32 table entry needed.''
      ''Function FATWrite: Could not write new FAT32 cluster number to sector.'' (n * 4) (bytes32 v) s = ret (0, t)"
    and t: "fat32_ok drv t" "tty.more t = tty.more s"
      "off_screen (ram t) (mem_write (ram s) DISK_READ_LOCATION (disk drv t (fat_sec s n)))"
      "disk drv t = set_sector (disk drv s) (fat_sec s n) (put32 (disk drv s (fat_sec s n)) (fat_off n) v)"
    using fat_update_ok [OF assms(1-3,5)] by blast
  ultimately show ?thesis
    using t(3) fat_raw_set_sector [OF assms(3) len t(4,2)] by (auto simp: set_sector_def)
qed

subsection \<open>The table component keeps its contract\<close>

definition fat_entry :: "('d \<Rightarrow> ata) \<Rightarrow> ('d, 'z) fat_scheme \<Rightarrow> u32 \<Rightarrow> u32" where
  "fat_entry drv s n = fat_raw drv s n AND 0x0FFFFFFF"

text \<open>What a table operation keeps: memory outside the transfer buffer and the screen, and the disk
  outside the table.\<close>

definition table_frame :: "('d \<Rightarrow> ata) \<Rightarrow> ('d, 'z) fat_scheme \<Rightarrow> ('d, 'z) fat_scheme \<Rightarrow> bool" where
  "table_frame drv s t \<longleftrightarrow> tty.more t = tty.more s
     \<and> (\<forall>x. \<not> in_block DISK_READ_LOCATION 512 x \<and> \<not> in_block VGA_MEMORY 4000 x \<longrightarrow> ram t x = ram s x)
     \<and> (\<forall>l. (\<forall>n < total_clusters s. l \<noteq> fat_sec s n) \<longrightarrow> disk drv t l = disk drv s l)"

text \<open>The transfer buffer holds the table sector of an entry.\<close>

definition fat_cached :: "('d \<Rightarrow> ata) \<Rightarrow> ('d, 'z) fat_scheme \<Rightarrow> u32 \<Rightarrow> bool" where
  "fat_cached drv s n \<longleftrightarrow> mem_read (ram s) DISK_READ_LOCATION 512 = disk drv s (fat_sec s n)"

lemma buffer_holds:
  assumes "off_screen m (mem_write m' DISK_READ_LOCATION bs)" "length bs = 512"
  shows "mem_read m DISK_READ_LOCATION 512 = bs"
  using off_screen_low [OF assms(1), of DISK_READ_LOCATION 512] mem_read_write_same [of bs m' DISK_READ_LOCATION] assms(2)
  by (simp add: DISK_READ_LOCATION_def)

lemma table_frameI:
  fixes s t :: "('d, 'z) fat_scheme"
  assumes "off_screen (ram t) (mem_write (ram s) DISK_READ_LOCATION bs)" "length bs = 512"
    and "\<And>l. (\<And>n. n < total_clusters s \<Longrightarrow> l \<noteq> fat_sec s n) \<Longrightarrow> disk drv t l = disk drv s l"
    and "tty.more t = tty.more s"
  shows "table_frame drv s t"
  using assms by (simp add: table_frame_def off_screen_def mem_write_out)

lemma table_frame_trans:
  fixes s t u :: "('d, 'z) fat_scheme"
  assumes "table_frame drv s t" "table_frame drv t u"
  shows "table_frame drv s u"
  using assms fat_fields [of t s] by (simp add: table_frame_def fat_sec_def)

lemma fat32_alloc_table:
  assumes dev: "ata_on B drv" "uart_ready B"
  shows "alloc_table (fat32_ok drv) (fat_entry drv) total_clusters (FATRead B) (FATWrite B)
    (\<lambda>v. v AND 0x0FFFFFFF = v) (table_frame drv) (fat_cached drv)"
proof
  fix s t u :: "('a, 'b) fat_scheme"
  assume "table_frame drv s t" "table_frame drv t u"
  then show "table_frame drv s u" by (rule table_frame_trans)
next
  fix s :: "('a, 'b) fat_scheme" and n v :: u32
  assume s: "fat32_ok drv s" "2 \<le> n" "n < total_clusters s"
  have len: "length (disk drv t l) = 512" if "fat32_ok drv t" for t :: "('a, 'b) fat_scheme" and l
    using that by (simp add: fat32_ok_def disk_ready_def disk_def drive_ok_def)
  obtain t where t: "FATRead B n s = ret (uint (fat_entry drv s n), t)" "fat32_ok drv t"
    "disk drv t = disk drv s" "tty.more t = tty.more s"
    "off_screen (ram t) (mem_write (ram s) DISK_READ_LOCATION (disk drv s (fat_sec s n)))"
    using FATRead_ok [OF dev s] by (auto simp: fat_entry_def)
  then show "\<exists>t. FATRead B n s = ret (uint (fat_entry drv s n), t) \<and> fat32_ok drv t
      \<and> fat_entry drv t = fat_entry drv s \<and> total_clusters t = total_clusters s \<and> table_frame drv s t"
    using fat_fields [OF t(4)] table_frameI [OF t(5) len [OF s(1)] _ t(4)]
    by (auto simp: fat_entry_def fat_raw_def fat_sec_def fun_eq_iff)
  assume v: "v AND 0x0FFFFFFF = v"
  obtain u where u: "FATWrite B n v s = ret (0, u)" "fat32_ok drv u" "tty.more u = tty.more s"
    "\<forall>m. fat_raw drv u m = (if m = n then v else fat_raw drv s m)"
    "\<forall>l. l \<noteq> fat_sec s n \<longrightarrow> disk drv u l = disk drv s l"
    "off_screen (ram u) (mem_write (ram s) DISK_READ_LOCATION (disk drv u (fat_sec s n)))"
    using FATWrite_ok [OF dev s] by blast
  have "table_frame drv s u"
    using table_frameI [OF u(6) len [OF u(2)] _ u(3)] u(5) s(3) by blast
  moreover have "fat_cached drv u n"
    using buffer_holds [OF u(6) len [OF u(2)]] fat_fields [OF u(3)] by (simp add: fat_cached_def fat_sec_def)
  ultimately show "\<exists>t. FATWrite B n v s = ret (0, t) \<and> fat32_ok drv t \<and> total_clusters t = total_clusters s
      \<and> table_frame drv s t \<and> fat_cached drv t n
      \<and> (\<forall>m. 2 \<le> m \<and> m < total_clusters s \<longrightarrow>
            fat_entry drv t m = (if m = n then v else fat_entry drv s m))"
    using u(1,2,4) fat_fields [OF u(3)] v by (auto simp: fat_entry_def)
qed

interpretation fat32: alloc_table "fat32_ok (\<lambda>a. a)" "fat_entry (\<lambda>a. a)" total_clusters
  "FATRead ata_bus" "FATWrite ata_bus" "\<lambda>v. v AND 0x0FFFFFFF = v" "table_frame (\<lambda>a. a)" "fat_cached (\<lambda>a. a)"
  by (rule fat32_alloc_table [OF ata_bus_on])

lemma allocate_unfold:
  assumes "fat32_ok drv s"
  shows "allocateFreeFAT B s = alloc_loop (FATRead B) (\<lambda>c. FATWrite B c END_CLUSTER_32)
    (complain B ''Function allocateFreeFAT: Error occurred with FATWrite, aborting operations...'' BAD_CLUSTER_32)
    FREE_CLUSTER_32 BAD_CLUSTER_32 (unat (total_clusters s) - 2) 2 s"
  using assms by (simp add: allocateFreeFAT_def fat32_ok_def Let_def)

lemma allocate_first:
  assumes dev: "ata_on B drv" "uart_ready B" and s: "fat32_ok drv s" and k: "2 + k < unat (total_clusters s)"
    and "\<And>i. i < k \<Longrightarrow> fat_entry drv s (2 + of_nat i) \<noteq> FREE_CLUSTER_32"
    and free: "fat_entry drv s (2 + of_nat k) = FREE_CLUSTER_32"
  shows "\<exists>t. allocateFreeFAT B s = ret (2 + of_nat k, t) \<and> fat32_ok drv t
    \<and> table_frame drv s t \<and> fat_cached drv t (2 + of_nat k)
    \<and> (\<forall>m. 2 \<le> m \<and> m < total_clusters s \<longrightarrow>
         fat_entry drv t m = (if m = 2 + of_nat k then END_CLUSTER_32 else fat_entry drv s m))"
proof -
  have fits: "END_CLUSTER_32 AND 0x0FFFFFFF = END_CLUSTER_32"
    by (simp add: END_CLUSTER_32_def)
  have k': "k < unat (total_clusters s) - 2" "unat (2 :: u32) + k < unat (total_clusters s)"
    using k by auto
  show ?thesis
    unfolding allocate_unfold [OF s]
    using alloc_table.alloc_first [OF fat32_alloc_table [OF dev] fits s order_refl k'(2,1) _ free] assms(5)
    by fast
qed

lemma allocate_none:
  assumes dev: "ata_on B drv" "uart_ready B" and s: "fat32_ok drv s" "2 \<le> total_clusters s"
    and "\<And>i. 2 + i < unat (total_clusters s) \<Longrightarrow> fat_entry drv s (2 + of_nat i) \<noteq> FREE_CLUSTER_32"
  shows "\<exists>t. allocateFreeFAT B s = ret (BAD_CLUSTER_32, t) \<and> fat32_ok drv t
    \<and> fat_entry drv t = fat_entry drv s \<and> (s = t \<or> table_frame drv s t)"
  unfolding allocate_unfold [OF s(1)]
proof (rule alloc_table.alloc_none [OF fat32_alloc_table [OF dev] s(1) order_refl])
  show "unat (2 :: u32) + (unat (total_clusters s) - 2) \<le> unat (total_clusters s)"
    using s(2) by (simp add: word_le_nat_alt)
qed (use assms(5) in auto)

subsection \<open>Clusters larger than a sector\<close>

text \<open>
  With more than one sector per cluster the code divides the entry's byte offset by the size of
  a cluster, but reads only one sector. An entry whose offset lies beyond that sector is looked
  up in the zero-filled rest of the local array.
\<close>

lemma FATRead32_beyond_sector:
  assumes dev: "ata_on B drv" "uart_ready B" and s: "disk_ready drv s" "fat_type s = 32"
    and n: "2 \<le> n" "n < total_clusters s"
    and loc: "fat_locate (n * 4) s = ret (sec, off)" "in_partition sec 1"
    and beyond: "unat (bytes_per_sector (bootsect s)) \<le> unat off" "unat off + 4 \<le> FAT_TABLE_SIZE"
  shows "\<exists>t. FATRead B n s = ret (0, t)"
proof -
  obtain t where t: "int13h_read B sec 1 s = (0, t)" "tty.more t = tty.more s"
    using block_device.load_ok [OF int13h_block_device [OF dev] s(1) loc(2)] by auto
  let ?bs = "mem_read (ram t) DISK_READ_LOCATION (unat (bytes_per_sector (bootsect s)))"
  have bytes: "table_bytes t = ret ?bs"
    using fat_fields [OF t(2)] beyond by (simp add: table_bytes_def)
  have "get32 (?bs @ replicate (FAT_TABLE_SIZE - length ?bs) 0) (unat off) = 0"
    using beyond by (simp add: get32_def nth_append le32_def)
  then have "FATRead32 B n s = ret (0, t)"
    using loc(1) t(1) beyond(2) bytes by (simp add: FATRead32_def)
  then show ?thesis
    using n s(2) leD [OF n(1)] leD [of "total_clusters s" n] by (auto simp: FATRead_def)
qed

subsection \<open>A volume\<close>

text \<open>A machine with an empty FAT32 volume of 500 clusters of one sector on its disk.\<close>

definition sample_boot :: fat_BS where
  "sample_boot = (fat_BS_of (replicate 90 0))\<lparr>bytes_per_sector := 512, sectors_per_cluster := 1,
     extended_section := replicate 8 0 @ [2] @ replicate 45 0\<rparr>"

definition sample_fat :: "fat_BS \<Rightarrow> ata fat" where
  "sample_fat b = tty.extend (boot_tty blank_drive) (fat.fields 32 32 100 500 b)"

lemma sample_fat_simps [simp]:
  "fat_type (sample_fat b) = 32" "first_fat_sector (sample_fat b) = 32"
  "first_data_sector (sample_fat b) = 100" "total_clusters (sample_fat b) = 500"
  "bootsect (sample_fat b) = b" "dev (sample_fat b) = blank_drive"
  "disk_ready (\<lambda>a. a) (sample_fat b)" "disk (\<lambda>a. a) (sample_fat b) l = replicate 512 0"
  using blank_drive_ready
  by (simp_all add: sample_fat_def tty.defs fat.defs disk_ready_def tty_ok_def disk_def boot_tty_def
      terminal_initialize_def fill_screen_eq Let_def blank_drive_def)

lemma sample_fat_ok [simp]: "fat32_ok (\<lambda>a. a) (sample_fat sample_boot)"
  by (simp add: fat32_ok_def) (simp add: sample_boot_def part_length_def)

lemma sample_fat_entry [simp]: "fat_entry (\<lambda>a. a) (sample_fat b) n = 0"
  by (simp add: fat_entry_def fat_raw_def get32_def fat_off_def le32_def)

subsection \<open>Properties\<close>

text \<open>C7: an entry of the allocation table that was written is read back. On a FAT32 volume with
  clusters of one sector, \<open>FATWrite\<close> of a cluster of the volume succeeds, replaces the entry and
  no other, changes no sector but the entry's, and \<open>FATRead\<close> then returns the value without
  its upper four bits.\<close>

theorem FAT_entry_round_trip:
  assumes "ata_on B drv" "uart_ready B" "fat32_ok drv s" "2 \<le> n" "n < total_clusters s"
  shows "\<exists>t u. FATWrite B n v s = ret (0, t) \<and> FATRead B n t = ret (uint (v AND 0x0FFFFFFF), u)
    \<and> (\<forall>m. m \<noteq> n \<longrightarrow> fat_raw drv t m = fat_raw drv s m)
    \<and> (\<forall>l. l \<noteq> fat_sec s n \<longrightarrow> disk drv t l = disk drv s l)"
proof -
  obtain t where t: "FATWrite B n v s = ret (0, t)" "fat32_ok drv t" "tty.more t = tty.more s"
    "\<forall>m. fat_raw drv t m = (if m = n then v else fat_raw drv s m)"
    "\<forall>l. l \<noteq> fat_sec s n \<longrightarrow> disk drv t l = disk drv s l"
    using FATWrite_ok [OF assms] by blast
  moreover obtain u where "FATRead B n t = ret (uint (v AND 0x0FFFFFFF), u)"
    using FATRead_ok [OF assms(1,2) t(2) assms(4)] assms(5) fat_fields(4) [OF t(3)] t(4) by auto
  ultimately show ?thesis by auto
qed

theorem FAT_entry_round_trip_witness:
  "\<exists>t u. FATWrite ata_bus 7 0xF0000009 (sample_fat sample_boot) = ret (0, t)
    \<and> FATRead ata_bus 7 t = ret (9, u)"
  using FAT_entry_round_trip [OF ata_bus_on sample_fat_ok, of 7 "0xF0000009"] by auto

text \<open>C8: \<open>allocateFreeFAT\<close> returns the first free cluster. On a FAT32 volume with clusters of one
  sector, if cluster \<open>2 + k\<close> is free and the ones before it are not, the call returns it, its
  entry is the end-of-chain mark and every other entry is as before.\<close>

theorem allocate_first_free:
  assumes "ata_on B drv" "uart_ready B" "fat32_ok drv s" "2 + k < unat (total_clusters s)"
    and "\<forall>i < k. fat_entry drv s (2 + of_nat i) \<noteq> FREE_CLUSTER_32"
    and "fat_entry drv s (2 + of_nat k) = FREE_CLUSTER_32"
  shows "\<exists>t. allocateFreeFAT B s = ret (2 + of_nat k, t) \<and> fat32_ok drv t
    \<and> (\<forall>m. 2 \<le> m \<and> m < total_clusters s \<longrightarrow>
         fat_entry drv t m = (if m = 2 + of_nat k then END_CLUSTER_32 else fat_entry drv s m))"
  using allocate_first [OF assms(1-4)] assms(5,6) by blast

theorem allocate_first_free_witness:
  "\<exists>t. allocateFreeFAT ata_bus (sample_fat sample_boot) = ret (2, t)
    \<and> fat_entry (\<lambda>a. a) t 2 = END_CLUSTER_32 \<and> fat_entry (\<lambda>a. a) t 3 = 0"
  using allocate_first_free [OF ata_bus_on sample_fat_ok, of 0]
  by (fastforce simp: FREE_CLUSTER_32_def)

text \<open>C34: with more than one sector per cluster the table is misread. If the entry's offset within a
  cluster lies beyond the first sector, \<open>FATRead\<close> returns 0, the mark of a free cluster,
  whatever the disk holds.\<close>

theorem FATRead_misses_later_sectors:
  assumes "ata_on B drv" "uart_ready B" "disk_ready drv s" "fat_type s = 32"
    and "2 \<le> n" "n < total_clusters s" "fat_locate (n * 4) s = ret (sec, off)" "in_partition sec 1"
    and "unat (bytes_per_sector (bootsect s)) \<le> unat off" "unat off + 4 \<le> FAT_TABLE_SIZE"
  shows "\<exists>t. FATRead B n s = ret (0, t)"
  using assms by (rule FATRead32_beyond_sector)

theorem FATRead_misses_later_sectors_witness:
  "\<exists>t. FATRead ata_bus 128 (sample_fat (sample_boot\<lparr>sectors_per_cluster := 2\<rparr>)) = ret (0, t)"
  using FATRead_misses_later_sectors [OF ata_bus_on sample_fat_simps(7), of "sample_boot\<lparr>sectors_per_cluster := 2\<rparr>"
      128 32 512]
  by (simp add: fat_locate_def sample_boot_def in_partition_def part_length_def FAT_TABLE_SIZE_def)

text \<open>The boot sector of the disk becomes the description of the volume.\<close>

lemma FATInitialize_ok:
  fixes s :: "('d, 'z) fat_scheme"
  assumes dev: "ata_on B drv" "uart_ready B" and s: "disk_ready drv s" "b = fat_BS_of (disk drv s 0)" and spill: "spares drv spill"
    and b: "sectors_per_cluster b \<noteq> 0" "bytes_per_sector b \<noteq> 0"
      "unat (reserved_sector_count b) + table_sectors b + root_sectors b < 2 ^ 32"
  shows "\<exists>t. FATInitialize B spill s = ret (0, t) \<and> disk_ready drv t \<and> disk drv t = disk drv s \<and> bootsect t = b
    \<and> unat (total_clusters t) = clusters_of b \<and> unat (fat_type t) = entry_width (clusters_of b)
    \<and> unat (first_fat_sector t) = unat (reserved_sector_count b)
    \<and> unat (first_data_sector t) = unat (reserved_sector_count b) + table_sectors b + root_sectors b"
proof -
  note bd = int13h_block_device [OF dev]
  let ?bs = "disk drv s 0"
  have "in_partition 0 1" by (simp add: in_partition_def part_length_def)
  then obtain u where u: "int13h_read B 0 1 s = (0, u)" "disk_ready drv u" "disk drv u = disk drv s" "tty.more u = tty.more s"
    "off_screen (ram u) (mem_write (ram s) DISK_READ_LOCATION ?bs)"
    using block_device.load_ok [OF bd s(1), of 0 1] by auto
  have len: "length ?bs = 512" using block_device.sect_length [OF bd s(1)] .
  have buf: "mem_read (ram u) DISK_READ_LOCATION 512 = ?bs"
    using off_screen_low [OF u(5), of DISK_READ_LOCATION 512] mem_read_write_same [of ?bs "ram s" DISK_READ_LOCATION] len
    by (simp add: DISK_READ_LOCATION_def)
  obtain tc ft fd where g: "fat_geometry b u = ret (u\<lparr>total_clusters := tc, fat_type := ft, first_data_sector := fd\<rparr>)" (is "_ = ret ?u")
    "unat tc = clusters_of b" "ft = of_nat (entry_width (clusters_of b))"
    "unat fd = unat (reserved_sector_count b) + table_sectors b + root_sectors b"
    using fat_geometry_ok [OF b] by blast
  let ?v = "?u\<lparr>bootsect := b\<rparr>" and ?x = "drop 90 ?bs"
  let ?t = "(spill ?x ?v)\<lparr>first_fat_sector := ucast (reserved_sector_count b)\<rparr>"
  have "disk_ready drv ?v" using u(2) by (simp add: disk_ready_def tty_ok_def)
  then have v: "disk_ready drv (spill ?x ?v)" "disk drv (spill ?x ?v) = disk drv ?v" "tty.more (spill ?x ?v) = tty.more ?v"
    "mem_read (ram (spill ?x ?v)) DISK_READ_LOCATION 512 = ?bs"
    using spill buf by (simp_all add: spares_def)
  note f = fat_fields [OF v(3)]
  have "FATInitialize B spill s = ret (0, ?t)"
    using u(1) buf g(1) v(4) fat_BS_of_take [OF len] s(2)
    by (simp add: FATInitialize_def copy_bootsect_def sizeof_fat_BS_def Let_def)
  moreover have "disk_ready drv ?t" "disk drv ?t = disk drv s"
    using v(1,2) u(3) by (simp_all add: disk_ready_def tty_ok_def disk_def [abs_def])
  moreover have "unat ft = entry_width (clusters_of b)" by (simp add: g(3) entry_width_def)
  ultimately show ?thesis
    using f g(2,4) by (intro exI [of _ ?t]) (simp add: unat_ucast_wide16)
qed

text \<open>A cluster that is not on the volume is refused. \<open>FATRead\<close>, \<open>FATWrite\<close> and
  \<open>clusterRead\<close> of a number below 2 or from \<open>total_clusters\<close> on return -1; if the lowest
  kilobyte of memory is harmless as format strings, the only effect is text on the terminal.\<close>

lemma invalid_cluster_refused:
  assumes "n < 2 \<or> total_clusters s \<le> n" "tty_ok s" "benign (ram s)"
  shows "\<exists>d1 d2 d3. FATRead B n s = ret (-1, terminal_write B d1 s)
    \<and> FATWrite B n v s = ret (-1, terminal_write B d2 s)
    \<and> clusterRead B n off s = ret (-1, terminal_write B d3 s)"
proof -
  have "ascii (lit ''Function FATRead: invalid cluster number!'')"
    "ascii (lit ''Function FATWrite: invalid cluster number!'')"
    "ascii (lit ''Function clusterRead: Invalid cluster number!'')"
    by (simp_all add: ascii_def lit_def)
  then show ?thesis
    using complain_benign [OF _ assms(2,3), of _ B "-1 :: int"] assms(1)
    by (simp add: FATRead_def FATWrite_def clusterRead_def)
qed

lemma sample_fat_benign [simp]: "benign (ram (sample_fat b))" "tty_ok (sample_fat b)"
proof -
  have "ram (sample_fat b) a = 0" if "a < 0x400" for a
  proof -
    have "ram (sample_fat b) = ram (boot_tty blank_drive)"
      by (simp add: sample_fat_def tty.defs)
    moreover have "\<not> in_block VGA_MEMORY 4000 a"
      using that by (simp add: in_block_unat VGA_MEMORY_def word_less_nat_alt)
    ultimately show ?thesis
      by (simp add: boot_tty_def terminal_initialize_outside)
  qed
  then show "benign (ram (sample_fat b))"
    by (auto simp: benign_def intro!: exI [of _ 128])
  show "tty_ok (sample_fat b)"
    using sample_fat_simps(7) [of b] by (simp add: disk_ready_def)
qed

text \<open>A cluster that was written is read back. For a cluster of the volume whose sectors lie in the
  partition, \<open>clusterWrite\<close> of at most a cluster of bytes, from memory apart from the transfer
  buffer, succeeds, and \<open>clusterRead\<close> then brings those bytes to the start of the buffer.\<close>

lemma cluster_round_trip:
  assumes "ata_on B drv" "uart_ready B" "disk_ready drv s" "2 \<le> n" "n < total_clusters s"
    and "in_partition (start_sect n s) (sectors_per_cluster (bootsect s))"
    and "unat sz \<le> 512 * unat (sectors_per_cluster (bootsect s))" "unat src + unat sz \<le> 2 ^ 32"
    and "apart DISK_WRITE_LOCATION (unat sz) src (unat sz)"
  shows "\<exists>t u. clusterWrite B src sz 0 n s = ret (0, t) \<and> clusterRead B n 0 t = ret (0, u)
    \<and> mem_read (ram u) DISK_READ_LOCATION (unat sz) = mem_read (ram s) src (unat sz)"
proof -
  note bd = int13h_block_device [OF assms(1,2)]
  let ?bs = "mem_read (ram s) src (unat sz)"
  let ?s = "s\<lparr>ram := mem_write (ram s) DISK_WRITE_LOCATION ?bs\<rparr>"
  let ?sec = "start_sect n s" and ?spc = "sectors_per_cluster (bootsect s)"
  have sz: "unat sz \<le> 512 * 127"
    using assms(6,7) by (simp add: in_partition_def word_le_nat_alt)
  then have copy: "memcpy DISK_WRITE_LOCATION src sz (ram s) = mem_write (ram s) DISK_WRITE_LOCATION ?bs"
    using memcpy_block [of DISK_WRITE_LOCATION sz src "ram s"] assms(8,9)
    by (simp add: DISK_WRITE_LOCATION_def)
  obtain t u where tu: "int13h_write B ?sec ?spc ?s = ret (0, t)" "int13h_read B ?sec ?spc t = (0, u)"
    "off_screen (ram u) (ram ?s)"
    using block_device.store_load [OF bd, of ?s ?sec ?spc] assms(3,6) by auto
  moreover have more: "tty.more t = tty.more s"
    using block_device.store_ok [OF bd, of ?s ?sec ?spc] assms(3,6) tu(1) by auto
  ultimately have "clusterWrite B src sz 0 n s = ret (0, t)" "clusterRead B n 0 t = ret (0, u)"
    using copy fat_fields [OF more] leD [OF assms(4)] leD [of "total_clusters s" n] assms(5)
    by (auto simp: clusterWrite_def clusterRead_def int13h_write_def int13h_read_def start_sect_def Let_def)
  moreover have "mem_read (ram u) DISK_READ_LOCATION (unat sz) = ?bs"
    using off_screen_low [OF tu(3), of DISK_READ_LOCATION "unat sz"] sz
      mem_read_write_same [of ?bs "ram s" DISK_WRITE_LOCATION]
    by (simp add: DISK_READ_LOCATION_def DISK_WRITE_LOCATION_def)
  ultimately show ?thesis by blast
qed

end
