(* ===== verification/FatDir.thy ===== *)
theory FatDir
  imports FatTable
begin

section \<open>Directories\<close>

text \<open>
  The directory operations of \<^verbatim>\<open>kernel/arch/i386/FAT.c\<close>: \<open>directoryList\<close>,
  \<open>directorySearch\<close> and \<open>directoryAdd\<close>, which walk the entries of a directory cluster in the
  transfer buffer and follow the cluster chain of the directory by recursion. A chain may be
  cyclic, so the three are partial.
\<close>

subsection \<open>Entries\<close>

definition FILE_READ_ONLY :: u8 where "FILE_READ_ONLY = 0x01"
definition FILE_HIDDEN :: u8 where "FILE_HIDDEN = 0x02"
definition FILE_SYSTEM :: u8 where "FILE_SYSTEM = 0x04"
definition FILE_VOLUME_ID :: u8 where "FILE_VOLUME_ID = 0x08"
definition FILE_DIRECTORY :: u8 where "FILE_DIRECTORY = 0x10"
definition FILE_ARCHIVE :: u8 where "FILE_ARCHIVE = 0x20"

definition FILE_LONG_NAME :: u8 where
  "FILE_LONG_NAME = FILE_READ_ONLY OR FILE_HIDDEN OR FILE_SYSTEM OR FILE_VOLUME_ID"

definition ENTRY_FREE :: u8 where "ENTRY_FREE = 0xE5"
definition ENTRY_END :: u8 where "ENTRY_END = 0"

record directory_entry =
  file_name :: "u8 list"
  attributes :: u8
  reserved0 :: u8
  creation_time_tenths :: u8
  creation_time :: u16
  creation_date :: u16
  last_accessed :: u16
  high_bits :: u16
  last_modification_time :: u16
  last_modification_date :: u16
  low_bits :: u16
  file_size :: u32

text \<open>The packed structure of 32 bytes.\<close>

definition sizeof_directory_entry :: u32 where "sizeof_directory_entry = 32"

definition directory_entry_of :: "u8 list \<Rightarrow> directory_entry" where
  "directory_entry_of bs =
     \<lparr>file_name = take 11 bs, attributes = bs ! 11, reserved0 = bs ! 12, creation_time_tenths = bs ! 13,
      creation_time = get16 bs 14, creation_date = get16 bs 16, last_accessed = get16 bs 18,
      high_bits = get16 bs 20, last_modification_time = get16 bs 22, last_modification_date = get16 bs 24,
      low_bits = get16 bs 26, file_size = get32 bs 28\<rparr>"

definition entry_bytes :: "directory_entry \<Rightarrow> u8 list" where
  "entry_bytes e =
     file_name e @ [attributes e, reserved0 e, creation_time_tenths e] @ bytes16 (creation_time e)
     @ bytes16 (creation_date e) @ bytes16 (last_accessed e) @ bytes16 (high_bits e)
     @ bytes16 (last_modification_time e) @ bytes16 (last_modification_date e) @ bytes16 (low_bits e)
     @ bytes32 (file_size e)"

text \<open>The entry a pointer into the transfer buffer points to.\<close>

definition entry_at :: "mem \<Rightarrow> u32 \<Rightarrow> directory_entry" where
  "entry_at m p = directory_entry_of (mem_read m p 32)"

text \<open>The macros that join and split a cluster number; the shift is by \<open>fat_type / 2\<close>.\<close>

definition GET_CLUSTER_FROM_ENTRY :: "u32 \<Rightarrow> directory_entry \<Rightarrow> u32 comp" where
  "GET_CLUSTER_FROM_ENTRY ft x =
     (if ft div 2 < 32 then ret (ucast (low_bits x) OR push_bit (unat (ft div 2)) (ucast (high_bits x)))
      else stuck BadShift)"

definition GET_ENTRY_LOW_BITS :: "u32 \<Rightarrow> u32 \<Rightarrow> u32" where
  "GET_ENTRY_LOW_BITS ft x = x AND (ft div 2 - 1)"

definition GET_ENTRY_HIGH_BITS :: "u32 \<Rightarrow> u32 \<Rightarrow> u32 comp" where
  "GET_ENTRY_HIGH_BITS ft x = (if ft div 2 < 32 then ret (drop_bit (unat (ft div 2)) x) else stuck BadShift)"

text \<open>The clock of the driver is three constants.\<close>

definition CurrentTime :: u16 where "CurrentTime = 0"
definition CurrentDate :: u16 where "CurrentDate = 0x11"
definition CurrentTimeTenths :: u8 where "CurrentTimeTenths = 0"

subsection \<open>Chains\<close>

text \<open>The end-of-chain test of the three FAT types, on the value compared.\<close>

definition last_cluster :: "u32 \<Rightarrow> int \<Rightarrow> bool" where
  "last_cluster ft next_cluster \<longleftrightarrow>
     uint END_CLUSTER_32 \<le> next_cluster \<and> ft = 32 \<or> uint END_CLUSTER_16 \<le> next_cluster \<and> ft = 16
     \<or> uint END_CLUSTER_12 \<le> next_cluster \<and> ft = 12"

definition bad_cluster :: "u32 \<Rightarrow> u32 \<Rightarrow> bool" where
  "bad_cluster ft n \<longleftrightarrow>
     n = BAD_CLUSTER_32 \<and> ft = 32 \<or> n = BAD_CLUSTER_16 \<and> ft = 16 \<or> n = BAD_CLUSTER_12 \<and> ft = 12"

text \<open>The number of the last entry of a cluster.\<close>

definition last_entry :: "('d, 'z) fat_scheme \<Rightarrow> u32" where
  "last_entry s = cluster_bytes s div sizeof_directory_entry - 1"

subsection \<open>Searching\<close>

text \<open>How the loop over the entries of one cluster ends.\<close>

datatype scan = AtEnd | Exhausted | Match u32 u32

function search_scan :: "mem \<Rightarrow> u32 \<Rightarrow> u8 list \<Rightarrow> u32 \<Rightarrow> u32 \<Rightarrow> scan comp" where
  "search_scan m limit searchName p seen =
     (if m p = ENTRY_END then ret AtEnd
      else bnd (strncmp (mem_read m p 11) searchName 11) (\<lambda>r.
        if r \<noteq> 0 then
          if seen < limit then search_scan m limit searchName (p + sizeof_directory_entry) (seen + 1)
          else ret Exhausted
        else ret (Match p seen)))"
  by pat_completeness auto
termination
proof (relation "measure (\<lambda>(m, limit, searchName, p, seen). unat limit - unat seen)")
  fix limit seen :: u32
  assume "seen < limit"
  then show "((m, limit, n, q, seen + 1), m, limit, n, p, seen)
      \<in> measure (\<lambda>(m, limit, searchName, p, seen). unat limit - unat seen)"
    for m :: mem and n :: "u8 list" and p q :: u32
    using unat_u32_less [of limit] by (simp add: word_less_nat_alt unat_word_ariths del: unat_u32_less)
qed simp

declare search_scan.simps [simp del]

text \<open>The result is the status, the two variables pointed to, and the state.\<close>

type_synonym ('d, 'z) search_result = "(int \<times> directory_entry ref \<times> u32 ref \<times> ('d, 'z) fat_scheme) comp"

partial_function (option) directorySearch ::
  "'d bus \<Rightarrow> u8 list \<Rightarrow> u32 \<Rightarrow> directory_entry ref \<Rightarrow> u32 ref \<Rightarrow> ('d, 'z) fat_scheme
    \<Rightarrow> ('d, 'z) search_result" where
  "directorySearch B filepart cluster file entryOffset s =
     (if cluster < 2 \<or> cluster \<ge> total_clusters s then
        bnd (complain B ''Function directorySearch: Invalid cluster number!'' (-1) s)
          (\<lambda>(r, s). ret (r, file, entryOffset, s))
      else
        bnd (search_name filepart) (\<lambda>searchName.
        bnd (clusterRead B cluster 0 s) (\<lambda>(r, s).
          if r \<noteq> 0 then
            bnd (complain B ''Function directorySearch: clusterRead encountered an error. Aborting...'' (-1) s)
              (\<lambda>(r, s). ret (r, file, entryOffset, s))
          else
            bnd (search_scan (ram s) (last_entry s) searchName DISK_READ_LOCATION 0) (\<lambda>res.
              case res of
                AtEnd \<Rightarrow> ret (-2, file, entryOffset, s)
              | Match p seen \<Rightarrow> ret (0, assign file (entry_at (ram s) p), assign entryOffset seen, s)
              | Exhausted \<Rightarrow>
                  bnd (FATRead B cluster s) (\<lambda>(next_cluster, s).
                    if last_cluster (fat_type s) next_cluster then ret (-2, file, entryOffset, s)
                    else if next_cluster < 0 then
                      bnd (complain B ''Function directorySearch: FATRead encountered an error. Aborting...'' (-1) s)
                        (\<lambda>(r, s). ret (r, file, entryOffset, s))
                    else directorySearch B filepart (of_int next_cluster) file entryOffset s)))))"

subsection \<open>Listing\<close>

primrec d_printall :: "'d bus \<Rightarrow> string list \<Rightarrow> ('d, 'z) tty_scheme \<Rightarrow> ('d, 'z) tty_scheme comp" where
  "d_printall B [] s = ret s"
| "d_printall B (msg # msgs) s = bnd (d_printss B (cstr msg) s) (d_printall B msgs)"

definition attributes_to_hide :: "u8 \<Rightarrow> int \<Rightarrow> u8" where
  "attributes_to_hide attributesToAdd exclusive =
     (let default_hidden_attributes = FILE_HIDDEN OR FILE_SYSTEM in
      if exclusive = 0 then default_hidden_attributes AND NOT attributesToAdd
      else if exclusive = 1 then NOT attributesToAdd
      else default_hidden_attributes)"

text \<open>The line of an entry; \<open>stale\<close> is what the local array \<open>conversion\<close> holds before.\<close>

definition list_entry ::
  "'d bus \<Rightarrow> u8 list \<Rightarrow> directory_entry \<Rightarrow> ('d, 'z) fat_scheme \<Rightarrow> ('d, 'z) fat_scheme comp" where
  "list_entry B stale e s =
     bnd (convertFromFATFormat (file_name e) stale) (\<lambda>conversion.
     bnd (d_printss B conversion s) (\<lambda>s.
     bnd (d_printss B (cstr [CHR 0x09]) s) (\<lambda>s.
     bnd (if attributes e AND FILE_DIRECTORY \<noteq> FILE_DIRECTORY then d_printhex B (file_size e) 8 s
          else d_printss B (cstr [CHR 0x09]) s) (\<lambda>s.
     bnd (d_printss B (cstr [CHR 0x09]) s) (\<lambda>s.
     bnd (if attributes e AND FILE_DIRECTORY = FILE_DIRECTORY then d_printss B (cstr ''DIR'') s else ret s)
       (d_printss B (cstr [CHR 0x0A])))))))"

text \<open>
  The loop over the entries of a cluster. It returns \<^term>\<open>True\<close> when it breaks at the end of the
  directory and \<^term>\<open>False\<close> when it has to go on with the next cluster. Only an entry that is
  not shown is counted against the size of the cluster.
\<close>

partial_function (option) list_scan ::
  "'d bus \<Rightarrow> u8 list \<Rightarrow> u8 \<Rightarrow> u32 \<Rightarrow> u32 \<Rightarrow> ('d, 'z) fat_scheme \<Rightarrow> (bool \<times> ('d, 'z) fat_scheme) comp" where
  "list_scan B stale hide p seen s =
     (let e = entry_at (ram s) p; name = file_name e in
      if name ! 0 = ENTRY_END then ret (True, s)
      else
        bnd (strncmp name (cstr ''..'') 2) (\<lambda>dotdot.
        bnd (strncmp name (cstr ''.'') 1) (\<lambda>dot.
          if dotdot = 0 \<or> dot = 0 then
            bnd (d_printall B [if name ! 1 = 0x2E then ''..'' else ''.'', [CHR 0x09], [CHR 0x09], [CHR 0x09],
                   ''DIR'', [CHR 0x0A]] s)
              (list_scan B stale hide (p + sizeof_directory_entry) (seen + 1))
          else if name ! 0 = ENTRY_FREE \<or> attributes e AND FILE_LONG_NAME = FILE_LONG_NAME
              \<or> attributes e AND hide \<noteq> 0 then
            if seen < last_entry s then list_scan B stale hide (p + sizeof_directory_entry) (seen + 1) s
            else ret (False, s)
          else
            bnd (list_entry B stale e s) (list_scan B stale hide (p + sizeof_directory_entry) (seen + 1)))))"

text \<open>The next cluster is unsigned here: an error of \<open>FATRead\<close> reads as the end of the chain.\<close>

partial_function (option) directoryList ::
  "'d bus \<Rightarrow> u8 list \<Rightarrow> u32 \<Rightarrow> u8 \<Rightarrow> int \<Rightarrow> ('d, 'z) fat_scheme \<Rightarrow> (int \<times> ('d, 'z) fat_scheme) comp" where
  "directoryList B stale cluster attributesToAdd exclusive s =
     (if cluster < 2 \<or> cluster \<ge> total_clusters s then
        complain B ''Function directoryList: Invalid cluster number!'' (-1) s
      else
        bnd (clusterRead B cluster 0 s) (\<lambda>(r, s).
          if r \<noteq> 0 then
            complain B ''Function directoryList: clusterRead encountered an error. Aborting...'' (-1) s
          else
            bnd (list_scan B stale (attributes_to_hide attributesToAdd exclusive) DISK_READ_LOCATION 0 s)
              (\<lambda>(at_end, s).
                if at_end then ret (0, s)
                else
                  bnd (FATRead B cluster s) (\<lambda>(r, s).
                    let next_cluster = of_int r :: u32 in
                    if last_cluster (fat_type s) (uint next_cluster) then ret (0, s)
                    else directoryList B stale next_cluster attributesToAdd exclusive s))))"

subsection \<open>Adding an entry\<close>

text \<open>The first slot from \<open>p\<close> on that is free or past the end, unless the cluster is full.\<close>

function add_scan :: "mem \<Rightarrow> u32 \<Rightarrow> u32 \<Rightarrow> u32 \<Rightarrow> u32 option" where
  "add_scan m limit p seen =
     (if m p \<noteq> ENTRY_FREE \<and> m p \<noteq> ENTRY_END then
        if seen < limit then add_scan m limit (p + sizeof_directory_entry) (seen + 1) else None
      else Some p)"
  by pat_completeness auto
termination
proof (relation "measure (\<lambda>(m, limit, p, seen). unat limit - unat seen)")
  fix limit seen :: u32
  assume "seen < limit"
  then show "((m, limit, q, seen + 1), m, limit, p, seen)
      \<in> measure (\<lambda>(m, limit, p, seen). unat limit - unat seen)"
    for m :: mem and p q :: u32
    using unat_u32_less [of limit] by (simp add: word_less_nat_alt unat_word_ariths del: unat_u32_less)
qed simp

declare add_scan.simps [simp del]

text \<open>The fields that the driver fills in.\<close>

definition stamp :: "directory_entry \<Rightarrow> directory_entry" where
  "stamp f = f\<lparr>creation_date := CurrentDate, creation_time := CurrentTime,
     creation_time_tenths := CurrentTimeTenths, last_accessed := CurrentDate,
     last_modification_date := CurrentDate, last_modification_time := CurrentTime\<rparr>"

text \<open>The message about the halves of the cluster number, with the labels as the source has them.\<close>

definition print_bits :: "'d bus \<Rightarrow> directory_entry \<Rightarrow> ('d, 'z) tty_scheme \<Rightarrow> ('d, 'z) tty_scheme comp" where
  "print_bits B f s =
     bnd (d_printss B (cstr ([CHR 0x0A] @ ''High bits are: '')) s) (\<lambda>s.
     bnd (d_printhex B (ucast (low_bits f)) 4 s) (\<lambda>s.
     bnd (d_printss B (cstr ([CHR 0x0A] @ ''Low bits are: '')) s) (\<lambda>s.
     bnd (d_printhex B (ucast (high_bits f)) 4 s)
       (d_printss B (cstr [CHR 0x0A])))))"

text \<open>
  The branch of \<open>directoryAdd\<close> for a free slot at \<open>file_metadata\<close>. The result is the status, the
  caller's entry and the state.
\<close>

definition add_entry ::
  "'d bus \<Rightarrow> u32 \<Rightarrow> u32 \<Rightarrow> directory_entry \<Rightarrow> ('d, 'z) fat_scheme
    \<Rightarrow> (int \<times> directory_entry \<times> ('d, 'z) fat_scheme) comp" where
  "add_entry B cluster file_metadata f s =
     (if 0x2E \<in> set (take 11 (file_name f)) then
        bnd (d_printss B (cstr ''Function directoryAdd: Invalid file name!'') s) (\<lambda>s. ret (-1, f, s))
      else
        let f = stamp f in
        bnd (allocateFreeFAT B s) (\<lambda>(new_cluster, s).
        bnd (complain_hex B ''Function directoryAdd: the new cluster for the file is '' new_cluster [] () s) (\<lambda>(_, s).
          if bad_cluster (fat_type s) new_cluster then
            bnd (complain B ''Function directoryAdd: allocation of new cluster failed. Aborting...'' (-1) s)
              (\<lambda>(r, s). ret (r, f, s))
          else
            bnd (GET_ENTRY_HIGH_BITS (fat_type s) new_cluster) (\<lambda>high.
            let f = f\<lparr>low_bits := ucast (GET_ENTRY_LOW_BITS (fat_type s) new_cluster), high_bits := ucast high\<rparr> in
            bnd (print_bits B f s) (\<lambda>s.
            bnd (clusterWrite B DISK_WRITE_LOCATION (cluster_bytes s) 0 cluster
                   (s\<lparr>ram := mem_write (ram s) file_metadata (entry_bytes f)\<rparr>)) (\<lambda>(r, s).
              if r \<noteq> 0 then
                bnd (complain B ''Function directoryAdd: Writing new directory entry failed. Aborting...'' (-1) s)
                  (\<lambda>(r, s). ret (r, f, s))
              else ret (0, f, s)))))))"

text \<open>The branch for a full cluster: the cluster to go on with, or the end with a status.\<close>

definition extend_chain ::
  "'d bus \<Rightarrow> u32 \<Rightarrow> ('d, 'z) fat_scheme \<Rightarrow> (u32 option \<times> ('d, 'z) fat_scheme) comp" where
  "extend_chain B cluster s =
     bnd (FATRead B cluster s) (\<lambda>(r, s).
       let next_cluster = of_int r :: u32 in
       bnd (d_printhex B next_cluster 8 s) (\<lambda>s.
       bnd (d_printss B (cstr [CHR 0x0A]) s) (\<lambda>s.
         if last_cluster (fat_type s) (uint next_cluster) then
           bnd (allocateFreeFAT B s) (\<lambda>(next_cluster, s).
             if bad_cluster (fat_type s) next_cluster then
               complain B ''Function directoryAdd: allocation of new cluster failed. Aborting...'' None s
             else
               bnd (FATWrite B cluster next_cluster s) (\<lambda>(r, s).
                 if r \<noteq> 0 then
                   complain B ''Function directoryAdd: extension of the cluster chain with new cluster failed. Aborting...'' None s
                 else ret (Some next_cluster, s)))
         else ret (Some next_cluster, s))))"

partial_function (option) directoryAdd ::
  "'d bus \<Rightarrow> u32 \<Rightarrow> directory_entry \<Rightarrow> ('d, 'z) fat_scheme
    \<Rightarrow> (int \<times> directory_entry \<times> ('d, 'z) fat_scheme) comp" where
  "directoryAdd B cluster file_to_add s =
     bnd (testIfFATFormat (file_name file_to_add)) (\<lambda>r.
       if r \<noteq> 0 then
         bnd (d_printss B (cstr ''Function directoryAdd: file name supplied is invalid!'') s)
           (\<lambda>s. ret (-1, file_to_add, s))
       else
         bnd (clusterRead B cluster 0 s) (\<lambda>(r, s).
           if r \<noteq> 0 then
             bnd (complain B ''Function directoryAdd: clusterRead encountered an error. Aborting...'' (-1) s)
               (\<lambda>(r, s). ret (r, file_to_add, s))
           else
             case add_scan (ram s) (last_entry s) DISK_READ_LOCATION 0 of
               Some file_metadata \<Rightarrow> add_entry B cluster file_metadata file_to_add s
             | None \<Rightarrow>
                 bnd (extend_chain B cluster s) (\<lambda>(next, s).
                   case next of
                     None \<Rightarrow> ret (-1, file_to_add, s)
                   | Some next_cluster \<Rightarrow> directoryAdd B next_cluster file_to_add s)))"

subsection \<open>A volume\<close>

text \<open>
  A FAT32 volume with clusters of one sector: the table lies before the data area, and both
  lie in the partition.
\<close>

definition fat32_vol :: "('d \<Rightarrow> ata) \<Rightarrow> ('d, 'z) fat_scheme \<Rightarrow> bool" where
  "fat32_vol drv s \<longleftrightarrow> fat32_ok drv s
     \<and> unat (first_fat_sector s) + unat (total_clusters s) div 128 < unat (first_data_sector s)
     \<and> unat (first_data_sector s) + unat (total_clusters s) \<le> unat part_length"

definition on_volume :: "('d, 'z) fat_scheme \<Rightarrow> u32 \<Rightarrow> bool" where
  "on_volume s n \<longleftrightarrow> 2 \<le> n \<and> n < total_clusters s"

definition cluster_data :: "('d \<Rightarrow> ata) \<Rightarrow> ('d, 'z) fat_scheme \<Rightarrow> u32 \<Rightarrow> u8 list" where
  "cluster_data drv s n = disk drv s (start_sect n s)"

text \<open>Steps that leave the volume and its description as they are.\<close>

definition vol_step :: "('d \<Rightarrow> ata) \<Rightarrow> ('d, 'z) fat_scheme \<Rightarrow> ('d, 'z) fat_scheme \<Rightarrow> bool" where
  "vol_step drv s t \<longleftrightarrow> fat32_vol drv t \<and> disk drv t = disk drv s \<and> tty.more t = tty.more s"

lemma vol_step_refl: "fat32_vol drv s \<Longrightarrow> vol_step drv s s"
  by (simp add: vol_step_def)

lemma vol_step_trans: "vol_step drv s t \<Longrightarrow> vol_step drv t u \<Longrightarrow> vol_step drv s u"
  by (simp add: vol_step_def)

lemma vol_stepI:
  fixes s t :: "('d, 'z) fat_scheme"
  assumes "fat32_vol drv s" "disk_ready drv t" "disk drv t = disk drv s" "tty.more t = tty.more s"
  shows "vol_step drv s t"
  using assms fat_fields [OF assms(4)] by (simp add: vol_step_def fat32_vol_def fat32_ok_def)

lemma vol_step_view:
  fixes s t :: "('d, 'z) fat_scheme"
  assumes "vol_step drv s t"
  shows "fat_entry drv t = fat_entry drv s" "cluster_data drv t = cluster_data drv s"
    "on_volume t = on_volume s" "fat32_vol drv t" "total_clusters t = total_clusters s"
    "fat_type t = fat_type s" "bootsect t = bootsect s"
  using assms fat_fields [of t s]
  by (auto simp: vol_step_def fat_entry_def fat_raw_def fat_sec_def cluster_data_def start_sect_def
      on_volume_def fun_eq_iff)

lemma fat32_vol_cluster:
  assumes "fat32_vol drv s" "on_volume s n"
  shows "unat (start_sect n s) = unat (first_data_sector s) + unat n - 2"
    and "in_partition (start_sect n s) (sectors_per_cluster (bootsect s))"
    and "sectors_per_cluster (bootsect s) = 1" "cluster_bytes s = 512" "last_entry s = 15"
    and "length (cluster_data drv s n) = 512"
proof -
  show spc: "sectors_per_cluster (bootsect s) = 1" and cb: "cluster_bytes s = 512"
    using assms(1) by (simp_all add: fat32_vol_def fat32_ok_def cluster_bytes_def)
  then show "last_entry s = 15"
    by (simp add: last_entry_def sizeof_directory_entry_def)
  have n: "2 \<le> unat n" "unat n < unat (total_clusters s)"
    using assms(2) by (simp_all add: on_volume_def word_le_nat_alt word_less_nat_alt)
  have len: "unat (first_data_sector s) + unat (total_clusters s) \<le> 16771860"
    using assms(1) by (simp add: fat32_vol_def part_length_def)
  have "unat (n - 2) = unat n - 2"
    using n by (simp add: unat_sub word_le_nat_alt)
  then show u: "unat (start_sect n s) = unat (first_data_sector s) + unat n - 2"
    using n len spc by (simp add: start_sect_def unat_word_ariths)
  show "in_partition (start_sect n s) (sectors_per_cluster (bootsect s))"
    using u n len spc by (simp add: in_partition_def part_length_def)
  show "length (cluster_data drv s n) = 512"
    using assms(1) by (simp add: cluster_data_def fat32_vol_def fat32_ok_def disk_ready_def disk_def drive_ok_def)
qed

lemma clusterRead_ok:
  assumes dev: "ata_on B drv" and s: "fat32_vol drv s" "on_volume s n"
  shows "\<exists>t. clusterRead B n off s = ret (0, t) \<and> vol_step drv s t
    \<and> off_screen (ram t) (mem_write (ram s) (DISK_READ_LOCATION + off * 512) (cluster_data drv s n))"
proof -
  note c = fat32_vol_cluster [OF s]
  have d: "disk_ready drv s" using s(1) by (simp add: fat32_vol_def fat32_ok_def)
  obtain t where t: "int13h_read_o B (start_sect n s) 1 (off * 512) s = (0, t)" "tty_ok t"
    "tty.more t = tty.more s" "drive_ok (drv (dev t))"
    "off_screen (ram t) (mem_write (ram s) (DISK_READ_LOCATION + off * 512)
      (sector_run (sectors (drv (dev s))) (start_sect n s + part_start_lba) (unat (1 :: u8))))"
    "mode (drv (dev t)) = Idle" "sectors (drv (dev t)) = sectors (drv (dev s))"
    using int13h_read_o_ok [OF dev, of s "start_sect n s" 1 "off * 512"] d c(2,3)
    by (auto simp: disk_ready_def in_partition_def)
  have "disk_ready drv t" "disk drv t = disk drv s"
    using t by (simp_all add: disk_ready_def disk_def fun_eq_iff)
  then have "vol_step drv s t"
    using vol_stepI [OF s(1)] t(3) by blast
  then show ?thesis
    using t leD [of 2 n] leD [of "total_clusters s" n] s(2) c(3,4)
    by (auto simp: clusterRead_def on_volume_def cluster_data_def disk_def)
qed

lemma FATRead_vol:
  assumes dev: "ata_on B drv" "uart_ready B" and s: "fat32_vol drv s" "on_volume s n"
  shows "\<exists>t. FATRead B n s = ret (uint (fat_entry drv s n), t) \<and> vol_step drv s t
    \<and> off_screen (ram t) (mem_write (ram s) DISK_READ_LOCATION (disk drv s (fat_sec s n)))"
  using FATRead_ok [OF dev, of s n] s
  by (auto simp: fat_entry_def on_volume_def fat32_vol_def fat32_ok_def intro!: vol_stepI)

subsection \<open>Text output on a volume\<close>

lemma benign_cong: "(\<And>a. a < 0x400 \<Longrightarrow> m a = m' a) \<Longrightarrow> benign m \<longleftrightarrow> benign m'"
proof -
  assume *: "\<And>a. a < 0x400 \<Longrightarrow> m a = m' a"
  have "(of_nat q :: u32) < 0x400" if "q < 0x400" for q
    using that by (simp add: word_less_nat_alt)
  with * show ?thesis by (fastforce simp: benign_def)
qed

lemma low_outside:
  assumes "a < (0x400 :: u32)"
  shows "\<not> in_block VGA_MEMORY 4000 a" "n \<le> 0x80000 \<Longrightarrow> \<not> in_block DISK_READ_LOCATION n a"
  using assms
  by (simp_all add: in_block_unat VGA_MEMORY_def DISK_READ_LOCATION_def word_less_nat_alt)

lemma benign_buffer:
  assumes "off_screen m (mem_write m' DISK_READ_LOCATION bs)" "length bs \<le> 0x80000" "benign m'"
  shows "benign m"
proof -
  have "m a = m' a" if "a < 0x400" for a
    using assms(1) low_outside [OF that] assms(2) by (simp add: off_screen_def mem_write_out)
  with assms(3) show ?thesis using benign_cong by blast
qed

lemma benign_table_frame:
  assumes "table_frame drv s t" "benign (ram s)"
  shows "benign (ram t)"
proof -
  have "ram t a = ram s a" if "a < 0x400" for a
    using assms(1) low_outside [OF that] by (simp add: table_frame_def)
  with assms(2) show ?thesis using benign_cong by blast
qed

text \<open>Text on the terminal is a step that keeps the volume and the memory outside the screen.\<close>

lemma fat32_vol_tty: "fat32_vol drv s \<Longrightarrow> tty_ok s"
  by (simp add: fat32_vol_def fat32_ok_def disk_ready_def)

lemma write_vol:
  fixes s :: "('d, 'z) fat_scheme"
  assumes "ata_on B drv" "fat32_vol drv s"
  shows "vol_step drv s (terminal_write B ds s)" "off_screen (ram (terminal_write B ds s)) (ram s)"
proof -
  note step = terminal_write_step [OF fat32_vol_tty [OF assms(2)], of B ds]
  show "off_screen (ram (terminal_write B ds s)) (ram s)"
    using console_step_off_screen [OF step] .
  have "drv (dev (terminal_write B ds s)) = drv (dev s)"
    using drv_writestring [OF assms(1)] by (simp add: terminal_writestring_def)
  then show "vol_step drv s (terminal_write B ds s)"
    using step assms(2)
    by (intro vol_stepI) (auto simp: disk_ready_def disk_def fun_eq_iff console_step_def screen_frame_def
        fat32_vol_def fat32_ok_def)
qed

subsection \<open>Searching a chain\<close>

text \<open>
  A directory is the list of its 32-byte slots, each with its number in its cluster, over the
  clusters of its chain. A lookup takes the first slot of the wanted name before the first slot
  that starts with a NUL.
\<close>

definition slots :: "u8 list \<Rightarrow> (nat \<times> u8 list) list" where
  "slots bs = map (\<lambda>k. (k, take 32 (drop (32 * k) bs))) [0..<16]"

definition live_slot :: "nat \<times> u8 list \<Rightarrow> bool" where
  "live_slot kb \<longleftrightarrow> snd kb ! 0 \<noteq> ENTRY_END"

definition dir_lookup :: "u8 list \<Rightarrow> (nat \<times> u8 list) list \<Rightarrow> (nat \<times> u8 list) option" where
  "dir_lookup name ds = find (\<lambda>kb. take 11 (snd kb) = name) (takeWhile live_slot ds)"

definition dir_slots :: "('d \<Rightarrow> ata) \<Rightarrow> ('d, 'z) fat_scheme \<Rightarrow> u32 list \<Rightarrow> (nat \<times> u8 list) list" where
  "dir_slots drv s cs = concat (map (\<lambda>c. slots (cluster_data drv s c)) cs)"

text \<open>The clusters of a chain, from its first to the one marked as the last.\<close>

fun chain :: "('d \<Rightarrow> ata) \<Rightarrow> ('d, 'z) fat_scheme \<Rightarrow> u32 list \<Rightarrow> bool" where
  "chain drv s [] \<longleftrightarrow> False"
| "chain drv s [c] \<longleftrightarrow> on_volume s c \<and> END_CLUSTER_32 \<le> fat_entry drv s c"
| "chain drv s (c # d # cs) \<longleftrightarrow> on_volume s c \<and> fat_entry drv s c = d \<and> d < END_CLUSTER_32 \<and> chain drv s (d # cs)"

lemma dir_lookup_append:
  "dir_lookup name (xs @ ys) =
     (case dir_lookup name xs of Some r \<Rightarrow> Some r
      | None \<Rightarrow> if list_all live_slot xs then dir_lookup name ys else None)"
proof (induction xs)
  case Nil
  then show ?case by (simp add: dir_lookup_def)
next
  case (Cons x xs)
  then show ?case by (simp add: dir_lookup_def)
qed

lemma strncmp_11:
  assumes "length a = n" "n \<le> length b" "0 \<notin> set (take n b)"
  shows "\<exists>r. strncmp a b n = ret r \<and> (r = 0 \<longleftrightarrow> a = take n b)"
  using assms
proof (induction n arbitrary: a b)
  case (Suc n)
  then obtain x a' y b' where ab: "a = x # a'" "b = y # b'"
    by (metis Suc_le_length_iff length_Suc_conv)
  have "\<exists>r. strncmp a' b' n = ret r \<and> (r = 0 \<longleftrightarrow> a' = take n b')"
    using Suc.prems ab by (intro Suc.IH) auto
  then show ?case
    using Suc.prems ab by auto
qed auto

definition scan_result :: "u8 list \<Rightarrow> (nat \<times> u8 list) list \<Rightarrow> scan" where
  "scan_result name ds =
     (case dir_lookup name ds of Some (k, b) \<Rightarrow> Match (DISK_READ_LOCATION + 32 * of_nat k) (of_nat k)
      | None \<Rightarrow> if list_all live_slot ds then Exhausted else AtEnd)"

lemma drop_slots:
  assumes "k < 16"
  shows "drop k (slots bs) = (k, take 32 (drop (32 * k) bs)) # drop (Suc k) (slots bs)"
proof -
  have "length (slots bs) = 16" "slots bs ! k = (k, take 32 (drop (32 * k) bs))"
    using assms by (simp_all add: slots_def del: upt_rec_numeral)
  then show ?thesis
    using assms by (metis Cons_nth_drop_Suc)
qed

lemma buffer_slot:
  assumes "mem_read m a 512 = bs" "k < 16"
  shows "take 32 (drop (32 * k) bs) = mem_read m (a + 32 * of_nat k) 32"
  unfolding assms(1) [symmetric] using assms(2)
  by (intro nth_equalityI) (auto simp: add.assoc)

lemma slot_name: "mem_read m p 11 = take 11 (mem_read m p 32)"
  by (simp add: mem_read_def take_map del: upt_rec_numeral)

text \<open>One round of the search.\<close>

lemma search_scan_step:
  assumes buf: "mem_read m DISK_READ_LOCATION 512 = bs"
    and name: "11 \<le> length nm" "0 \<notin> set (take 11 nm)" and k: "k < 16"
  defines "kb \<equiv> (k, take 32 (drop (32 * k) bs))"
  shows "search_scan m 15 nm (DISK_READ_LOCATION + 32 * of_nat k) (of_nat k) =
    (if \<not> live_slot kb then ret AtEnd
     else if take 11 (snd kb) = take 11 nm then ret (Match (DISK_READ_LOCATION + 32 * of_nat k) (of_nat k))
     else if k < 15 then search_scan m 15 nm (DISK_READ_LOCATION + 32 * of_nat (Suc k)) (of_nat (Suc k))
     else ret Exhausted)"
proof -
  let ?p = "DISK_READ_LOCATION + 32 * of_nat k"
  note slot = buffer_slot [OF buf k]
  obtain r where r: "strncmp (mem_read m ?p 11) nm 11 = ret r" "r = 0 \<longleftrightarrow> take 11 (snd kb) = take 11 nm"
    using strncmp_11 [OF _ name, of "mem_read m ?p 11"] by (auto simp: slot_name [of m ?p] slot kb_def)
  have "(of_nat k :: u32) < 15 \<longleftrightarrow> k < 15"
    using k by (simp add: word_less_nat_alt)
  moreover have "m ?p = snd kb ! 0"
    by (simp add: kb_def slot)
  ultimately show ?thesis
    using r by (subst search_scan.simps)
      (simp add: live_slot_def sizeof_directory_entry_def add.assoc add.commute [of 1] distrib_left
        add.commute [of 32])
qed

lemma search_scan_slots:
  assumes buf: "mem_read m DISK_READ_LOCATION 512 = bs"
    and name: "11 \<le> length nm" "0 \<notin> set (take 11 nm)" and "k < 16"
  shows "search_scan m 15 nm (DISK_READ_LOCATION + 32 * of_nat k) (of_nat k) =
    ret (scan_result (take 11 nm) (drop k (slots bs)))"
  using \<open>k < 16\<close>
proof (induction "15 - k" arbitrary: k)
  case 0
  then have "drop (Suc k) (slots bs) = []" "\<not> k < 15" by (simp_all add: slots_def del: upt_rec_numeral)
  then show ?case
    unfolding search_scan_step [OF buf name 0(2)] drop_slots [OF 0(2)]
    by (simp add: scan_result_def dir_lookup_def)
next
  case (Suc x)
  then have k: "k < 15" by simp
  have "search_scan m 15 nm (DISK_READ_LOCATION + 32 * of_nat (Suc k)) (of_nat (Suc k)) =
      ret (scan_result (take 11 nm) (drop (Suc k) (slots bs)))"
    using Suc k by (intro Suc.hyps(1)) auto
  then show ?case
    using k unfolding search_scan_step [OF buf name Suc.prems] drop_slots [OF Suc.prems]
    by (auto simp: scan_result_def dir_lookup_def)
qed

lemma dir_lookup_slots:
  assumes "dir_lookup name (slots bs) = Some (k, b)"
  shows "k < 16" "b = take 32 (drop (32 * k) bs)"
proof -
  have "(k, b) \<in> set (takeWhile live_slot (slots bs))"
    using assms by (auto simp: dir_lookup_def find_Some_iff)
  then have "(k, b) \<in> set (slots bs)"
    by (rule set_takeWhileD [THEN conjunct1])
  then show "k < 16" "b = take 32 (drop (32 * k) bs)"
    by (auto simp: slots_def simp del: upt_rec_numeral)
qed

lemma last_cluster_32: "last_cluster 32 (uint n) \<longleftrightarrow> END_CLUSTER_32 \<le> n"
  by (simp add: last_cluster_def word_le_def)

lemma fat32_vol_type: "fat32_vol drv s \<Longrightarrow> fat_type s = 32"
  by (simp add: fat32_vol_def fat32_ok_def)

text \<open>What the operations on files change in memory: the screen and the buffers of the disk driver.\<close>

definition data_frame :: "('d, 'z) fat_scheme \<Rightarrow> ('d, 'z) fat_scheme \<Rightarrow> bool" where
  "data_frame s t \<longleftrightarrow>
     (\<forall>x. \<not> in_block VGA_MEMORY 4000 x \<and> \<not> in_block DISK_READ_LOCATION 1025 x \<longrightarrow> ram t x = ram s x)"

lemma data_frame_trans: "data_frame s t \<Longrightarrow> data_frame t u \<Longrightarrow> data_frame s u"
  by (simp add: data_frame_def)

lemma in_buffers:
  "n \<le> 512 \<Longrightarrow> in_block DISK_READ_LOCATION n x \<Longrightarrow> in_block DISK_READ_LOCATION 1025 x"
  "n \<le> 513 \<Longrightarrow> in_block (DISK_WRITE_LOCATION + 512) n x \<Longrightarrow> in_block DISK_READ_LOCATION 1025 x"
  by (auto simp: in_block_unat DISK_READ_LOCATION_def DISK_WRITE_LOCATION_def)

lemma table_data_frame: "table_frame drv s t \<Longrightarrow> data_frame s t"
  using in_buffers(1) [of 512] by (auto simp: table_frame_def data_frame_def)

lemma screen_data_frame: "off_screen (ram t) (ram s) \<Longrightarrow> data_frame s t"
  by (simp add: data_frame_def off_screen_def)

lemma write_data_frame:
  assumes "\<And>x. in_block a (length bs) x \<Longrightarrow> in_block DISK_READ_LOCATION 1025 x"
    and "off_screen (ram t) (mem_write (ram s) a bs)"
  shows "data_frame s t"
  using assms mem_write_out [of a bs _ "ram s"] unfolding data_frame_def off_screen_def by metis

lemma buffer_data_frame:
  assumes "off_screen (ram t) (mem_write (ram s) DISK_READ_LOCATION bs)" "length bs = 512"
  shows "data_frame s t"
  using assms in_buffers(1) [of 512] by (intro write_data_frame [OF _ assms(1)]) simp

lemma benign_data_frame: "data_frame s t \<Longrightarrow> benign (ram s) \<Longrightarrow> benign (ram t)"
  using benign_cong [of "ram t" "ram s"] low_outside by (simp add: data_frame_def)

text \<open>The search in one cluster, and what it does at the end of it.\<close>

lemma directorySearch_step:
  fixes s :: "('d, 'z) fat_scheme"
  assumes dev: "ata_on B drv" "uart_ready B" and s: "fat32_vol drv s" "on_volume s c"
    and nm: "search_name filepart = ret nm" "11 \<le> length nm" "0 \<notin> set (take 11 nm)"
  defines "ds \<equiv> slots (cluster_data drv s c)"
  shows "\<exists>t u. vol_step drv s t \<and> vol_step drv s u \<and> data_frame s t \<and> data_frame s u
    \<and> directorySearch B filepart c fl off s =
    (case dir_lookup (take 11 nm) ds of
       Some (k, b) \<Rightarrow> ret (0, assign fl (directory_entry_of b), assign off (of_nat k), t)
     | None \<Rightarrow>
         if \<not> list_all live_slot ds then ret (-2, fl, off, t)
         else if END_CLUSTER_32 \<le> fat_entry drv s c then ret (-2, fl, off, u)
         else directorySearch B filepart (fat_entry drv s c) fl off u)"
proof -
  note c = fat32_vol_cluster [OF s]
  obtain t where t: "clusterRead B c 0 s = ret (0, t)" "vol_step drv s t"
    "off_screen (ram t) (mem_write (ram s) (DISK_READ_LOCATION + 0 * 512) (cluster_data drv s c))"
    using clusterRead_ok [OF dev(1) s] by blast
  note v = vol_step_view [OF t(2)]
  obtain u where u: "FATRead B c t = ret (uint (fat_entry drv s c), u)" "vol_step drv t u"
    "off_screen (ram u) (mem_write (ram t) DISK_READ_LOCATION (disk drv t (fat_sec t c)))"
    using FATRead_vol [OF dev v(4), of c] s(2) v(1,3) by auto
  have "length (disk drv t (fat_sec t c)) = 512"
    using v(4) by (simp add: fat32_vol_def fat32_ok_def disk_ready_def disk_def drive_ok_def)
  then have frame: "data_frame s t" "data_frame s u"
    using buffer_data_frame [of t s "cluster_data drv s c"] t(3) c(6) buffer_data_frame [OF u(3)] data_frame_trans
    by auto
  have buf: "mem_read (ram t) DISK_READ_LOCATION 512 = cluster_data drv s c"
    using buffer_holds [of "ram t" "ram s"] t(3) c(6) by simp
  have entry: "last_entry t = 15"
    using fat32_vol_cluster(5) [OF v(4), of c] s(2) v(3) by simp
  have scan: "search_scan (ram t) (last_entry t) nm DISK_READ_LOCATION 0 = ret (scan_result (take 11 nm) ds)"
    using search_scan_slots [OF buf nm(2,3), of 0] by (simp add: entry ds_def)
  have ft: "fat_type u = 32"
    using vol_step_view(4) [OF u(2)] by (rule fat32_vol_type)
  have found: "entry_at (ram t) (DISK_READ_LOCATION + 32 * of_nat k) = directory_entry_of b"
    if "dir_lookup (take 11 nm) ds = Some (k, b)" for k b
    using dir_lookup_slots [OF that [unfolded ds_def]] buffer_slot [OF buf] by (simp add: entry_at_def)
  have "directorySearch B filepart c fl off s = (case dir_lookup (take 11 nm) ds of
       Some (k, b) \<Rightarrow> ret (0, assign fl (directory_entry_of b), assign off (of_nat k), t)
     | None \<Rightarrow>
         if \<not> list_all live_slot ds then ret (-2, fl, off, t)
         else if END_CLUSTER_32 \<le> fat_entry drv s c then ret (-2, fl, off, u)
         else directorySearch B filepart (fat_entry drv s c) fl off u)"
    using s(2) leD [of 2 c] leD [of "total_clusters s" c] nm(1) t(1) u(1) scan ft found
    by (subst directorySearch.simps)
      (auto simp: on_volume_def scan_result_def last_cluster_32 split: option.splits)
  then show ?thesis
    using t(2) vol_step_trans [OF t(2) u(2)] frame by blast
qed

lemma directorySearch_chain:
  assumes dev: "ata_on B drv" "uart_ready B"
    and nm: "search_name filepart = ret nm" "11 \<le> length nm" "0 \<notin> set (take 11 nm)"
  shows "fat32_vol drv s \<Longrightarrow> chain drv s cs \<Longrightarrow>
    \<exists>t. vol_step drv s t \<and> data_frame s t \<and> directorySearch B filepart (hd cs) fl off s =
      ret (case dir_lookup (take 11 nm) (dir_slots drv s cs) of
        Some (k, b) \<Rightarrow> (0, assign fl (directory_entry_of b), assign off (of_nat k), t)
      | None \<Rightarrow> (-2, fl, off, t))"
proof (induction cs arbitrary: s rule: induct_list012)
  case (2 c)
  then show ?case
    using directorySearch_step [OF dev 2(1) _ nm, where c = c and fl = fl and off = off]
    by (fastforce simp: dir_slots_def split: option.splits)
next
  case (3 c d cs)
  then have c: "on_volume s c" "fat_entry drv s c = d" "\<not> END_CLUSTER_32 \<le> d" "chain drv s (d # cs)"
    by (simp_all add: not_le)
  let ?ds = "slots (cluster_data drv s c)"
  obtain t u where tu: "vol_step drv s t" "vol_step drv s u" "data_frame s t" "data_frame s u"
    "directorySearch B filepart c fl off s = (case dir_lookup (take 11 nm) ?ds of
       Some (k, b) \<Rightarrow> ret (0, assign fl (directory_entry_of b), assign off (of_nat k), t)
     | None \<Rightarrow> if \<not> list_all live_slot ?ds then ret (-2, fl, off, t)
         else directorySearch B filepart d fl off u)"
    using directorySearch_step [OF dev 3(3) c(1) nm, where fl = fl and off = off] c(2,3) by auto
  have same: "chain drv u xs = chain drv s xs" "dir_slots drv u xs = dir_slots drv s xs" for xs
    using vol_step_view [OF tu(2)] by (induction xs rule: induct_list012) (simp_all add: dir_slots_def)
  obtain v where v: "vol_step drv u v" "data_frame u v" "directorySearch B filepart d fl off u =
      ret (case dir_lookup (take 11 nm) (dir_slots drv s (d # cs)) of
        Some (k, b) \<Rightarrow> (0, assign fl (directory_entry_of b), assign off (of_nat k), v)
      | None \<Rightarrow> (-2, fl, off, v))"
    using "3.IH"(2) [OF vol_step_view(4) [OF tu(2)]] c(4) same by auto
  have "dir_slots drv s (c # d # cs) = ?ds @ dir_slots drv s (d # cs)"
    by (simp add: dir_slots_def)
  then show ?case
    using tu v vol_step_trans [OF tu(2) v(1)] data_frame_trans [OF tu(4) v(2)]
    by (auto simp: dir_lookup_append split: option.splits)
qed simp

subsection \<open>Messages\<close>

text \<open>Messages one after the other.\<close>

definition says :: "'d bus \<Rightarrow> (('d, 'z) tty_scheme \<Rightarrow> ('d, 'z) tty_scheme comp) \<Rightarrow> bool" where
  "says B p \<longleftrightarrow> (\<forall>s. tty_ok s \<and> benign (ram s) \<longrightarrow> (\<exists>ds. p s = ret (terminal_write B ds s)))"

named_theorems says_intros

lemma saysD: "says B p \<Longrightarrow> tty_ok s \<Longrightarrow> benign (ram s) \<Longrightarrow> \<exists>ds. p s = ret (terminal_write B ds s)"
  by (simp add: says_def)

lemma says_bnd [says_intros]:
  assumes "says B p" "says B q"
  shows "says B (\<lambda>s. bnd (p s) q)"
  unfolding says_def
proof (intro allI impI)
  fix s :: "('a, 'b) tty_scheme"
  assume s: "tty_ok s \<and> benign (ram s)"
  obtain d1 where 1: "p s = ret (terminal_write B d1 s)"
    using assms(1) s by (auto simp: says_def)
  obtain d2 where "q (terminal_write B d1 s) = ret (terminal_write B d2 (terminal_write B d1 s))"
    using assms(2) s terminal_write_ok(1) [of s B d1] benign_write [of s B d1] unfolding says_def by blast
  with 1 show "\<exists>ds. bnd (p s) q = ret (terminal_write B ds s)"
    by (auto simp: terminal_write_append)
qed

lemma says_ret [says_intros]: "says B ret"
  unfolding says_def by (metis append_Nil terminal_write_def fold_simps(1))

lemma says_printss [says_intros]: "ascii (lit msg) \<Longrightarrow> says B (d_printss B (cstr msg))"
  unfolding says_def cstr_def by (auto intro: d_printss_benign)

lemma says_printhex [says_intros]: "says B (d_printhex B num k)"
  unfolding says_def by (auto intro: d_printhex_benign)

lemma says_print_bits [says_intros]: "says B (print_bits B f)"
  unfolding print_bits_def by (intro says_intros) (simp_all add: ascii_def lit_def)

subsection \<open>Adding an entry\<close>

lemma copy_up_self: "copy_up n a a m = m"
  by (induction n arbitrary: a) simp_all

text \<open>A cluster written from the transfer buffer itself.\<close>

lemma clusterWrite_buffer:
  fixes s :: "('d, 'z) fat_scheme"
  assumes dev: "ata_on B drv" "uart_ready B" and s: "fat32_vol drv s" "on_volume s n"
  shows "\<exists>t. clusterWrite B DISK_WRITE_LOCATION (cluster_bytes s) 0 n s = ret (0, t) \<and> fat32_vol drv t
    \<and> tty.more t = tty.more s \<and> ram t = ram s
    \<and> disk drv t = set_sector (disk drv s) (start_sect n s) (mem_read (ram s) DISK_READ_LOCATION 512)"
proof -
  note c = fat32_vol_cluster [OF s]
  have d: "disk_ready drv s" using s(1) by (simp add: fat32_vol_def fat32_ok_def)
  obtain t where t: "int13h_write B (start_sect n s) 1 s = ret (0, t)" "disk_ready drv t"
    "tty.more t = tty.more s" "ram t = ram s"
    "disk drv t = set_sector (disk drv s) (start_sect n s) (mem_read (ram s) DISK_READ_LOCATION 512)"
    using block_device.update_sector [OF int13h_block_device [OF dev] d refl] c(2,3)
    by (auto simp: DISK_WRITE_LOCATION_def DISK_READ_LOCATION_def)
  have self: "s\<lparr>ram := ram s\<rparr> = s" by simp
  have "clusterWrite B DISK_WRITE_LOCATION (cluster_bytes s) 0 n s = ret (0, t)"
    using t(1) leD [of 2 n] leD [of "total_clusters s" n] s(2) c(3)
    by (auto simp: clusterWrite_def on_volume_def memcpy_def copy_up_self int13h_write_def self Let_def)
  moreover have "fat32_vol drv t"
    using s(1) t(2) fat_fields [OF t(3)] by (simp add: fat32_vol_def fat32_ok_def)
  ultimately show ?thesis
    using t by blast
qed

text \<open>A slot that can take a new entry, and the search for the first one.\<close>

definition open_slot :: "nat \<times> u8 list \<Rightarrow> bool" where
  "open_slot kb \<longleftrightarrow> snd kb ! 0 = ENTRY_FREE \<or> snd kb ! 0 = ENTRY_END"

lemma add_scan_slots:
  assumes buf: "mem_read m DISK_READ_LOCATION 512 = bs" and "k < 16"
  shows "add_scan m 15 (DISK_READ_LOCATION + 32 * of_nat k) (of_nat k) =
    map_option (\<lambda>kb. DISK_READ_LOCATION + 32 * of_nat (fst kb)) (find open_slot (drop k (slots bs)))"
  using \<open>k < 16\<close>
proof (induction "15 - k" arbitrary: k)
  case 0
  then have k: "drop (Suc k) (slots bs) = []" "k = 15" by (simp_all add: slots_def del: upt_rec_numeral)
  then show ?case
    using buffer_slot [OF buf 0(2)]
    by (subst add_scan.simps) (auto simp: drop_slots open_slot_def)
next
  case (Suc x)
  then have k: "k < 15" by simp
  then have w: "(of_nat k :: u32) < 15" by (simp add: word_less_nat_alt)
  have "add_scan m 15 (DISK_READ_LOCATION + 32 * of_nat (Suc k)) (of_nat (Suc k)) =
      map_option (\<lambda>kb. DISK_READ_LOCATION + 32 * of_nat (fst kb)) (find open_slot (drop (Suc k) (slots bs)))"
    using Suc k by (intro Suc.hyps(1)) auto
  then show ?case
    using w buffer_slot [OF buf Suc.prems] drop_slots [OF Suc.prems, of bs]
    by (subst add_scan.simps)
      (auto simp: open_slot_def sizeof_directory_entry_def add.assoc add.commute [of 1] distrib_left add.commute [of 32])
qed

definition patch :: "'a list \<Rightarrow> nat \<Rightarrow> 'a list \<Rightarrow> 'a list" where
  "patch bs i cs = take i bs @ cs @ drop (i + length cs) bs"

lemma in_block_ex:
  assumes "n < 2 ^ 32"
  shows "in_block a n x \<longleftrightarrow> (\<exists>l < n. x = a + of_nat l)"
proof
  assume "in_block a n x"
  then show "\<exists>l < n. x = a + of_nat l"
    by (intro exI [of _ "unat (x - a)"]) (simp add: in_block_def)
qed (use assms in auto)

lemma mem_read_patch:
  assumes "i + length cs \<le> n" "n < 2 ^ 32"
  shows "mem_read (mem_write m (a + of_nat i) cs) a n = patch (mem_read m a n) i cs"
proof (rule nth_equalityI)
  fix j
  assume "j < length (mem_read (mem_write m (a + of_nat i) cs) a n)"
  then have j: "j < n" by simp
  have "a + of_nat j = a + of_nat i + of_nat l \<longleftrightarrow> j = i + l" if "l < length cs" for l
    using of_nat32_inject [of j "i + l"] j that assms by (simp add: add.assoc)
  then have "in_block (a + of_nat i) (length cs) (a + of_nat j) \<longleftrightarrow> (\<exists>l < length cs. j = i + l)"
    using assms by (subst in_block_ex) auto
  moreover have "unat (a + of_nat j - (a + of_nat i) :: u32) = l" if "j = i + l" for l
    using that j assms(2) by simp
  ultimately show "mem_read (mem_write m (a + of_nat i) cs) a n ! j = patch (mem_read m a n) i cs ! j"
    using j assms(1) by (auto simp: patch_def nth_append mem_write_in mem_write_out)
qed (use assms in \<open>simp add: patch_def\<close>)

lemma length_entry_bytes: "length (file_name e) = 11 \<Longrightarrow> length (entry_bytes e) = 32"
  by (simp add: entry_bytes_def)

lemma table_apart_from_data:
  assumes s: "fat32_vol drv s" "on_volume s c" and "m < total_clusters s"
  shows "fat_sec s m \<noteq> start_sect c s"
proof -
  have lt: "unat (first_fat_sector s) + unat (total_clusters s) div 128 < unat (first_data_sector s)"
    using s(1) by (simp add: fat32_vol_def)
  have le: "unat m div 128 \<le> unat (total_clusters s) div 128"
    using assms(3) by (simp add: word_less_nat_alt div_le_mono)
  have "unat (fat_sec s m) = unat (first_fat_sector s) + unat m div 128"
    using lt le unat_u32_less [of "first_data_sector s"]
    by (simp add: fat_sec_def unat_word_ariths unat_of_nat del: unat_u32_less)
  moreover have "2 \<le> unat c"
    using s(2) by (simp add: on_volume_def word_le_nat_alt)
  ultimately have "unat (fat_sec s m) \<noteq> unat (start_sect c s)"
    using fat32_vol_cluster(1) [OF s] lt le by linarith
  then show ?thesis by metis
qed

text \<open>A write to the sector of one cluster, or to the table, keeps the rest of the volume.\<close>

lemma set_cluster:
  assumes "tty.more t = tty.more s" "disk drv t = set_sector (disk drv s) (start_sect c s) data"
  shows "cluster_data drv t c = data"
  using assms(2) fat_fields [OF assms(1)] by (simp add: cluster_data_def start_sect_def set_sector_def)

lemma table_kept:
  fixes s :: "('d, 'z) fat_scheme"
  assumes "fat32_vol drv s" "on_volume s c" "tty.more t = tty.more s"
    and "disk drv t = set_sector (disk drv s) (start_sect c s) data" "n < total_clusters s"
  shows "fat_entry drv t n = fat_entry drv s n"
  using table_apart_from_data [OF assms(1,2,5)] assms(4) fat_fields [OF assms(3)]
  by (simp add: fat_entry_def fat_raw_def fat_sec_def set_sector_def)

lemma set_cluster_other:
  fixes s :: "('d, 'z) fat_scheme"
  assumes "fat32_vol drv s" "on_volume s c" "on_volume s n" "n \<noteq> c" "tty.more t = tty.more s"
    and "disk drv t = set_sector (disk drv s) (start_sect c s) data"
  shows "cluster_data drv t n = cluster_data drv s n"
proof -
  have "2 \<le> unat c" "2 \<le> unat n" "unat n \<noteq> unat c"
    using assms(2,3,4) word_unat_eq_iff [of n c] by (auto simp: on_volume_def word_le_nat_alt)
  then have "start_sect n s \<noteq> start_sect c s"
    using fat32_vol_cluster(1) [OF assms(1,2)] fat32_vol_cluster(1) [OF assms(1,3)] by auto
  then show ?thesis
    using assms(6) fat_fields [OF assms(5)] by (simp add: cluster_data_def start_sect_def set_sector_def)
qed

lemma table_frame_data:
  fixes s :: "('d, 'z) fat_scheme"
  assumes "fat32_vol drv s" "table_frame drv s t" "on_volume s c"
  shows "cluster_data drv t c = cluster_data drv s c"
proof -
  have "\<forall>n < total_clusters s. start_sect c s \<noteq> fat_sec s n"
    using table_apart_from_data [OF assms(1,3)] by metis
  then have "disk drv t (start_sect c s) = disk drv s (start_sect c s)"
    using assms(2) unfolding table_frame_def by blast
  moreover have "tty.more t = tty.more s" using assms(2) by (simp add: table_frame_def)
  ultimately show ?thesis
    using fat_fields [of t s] by (simp add: cluster_data_def start_sect_def)
qed

text \<open>Allocation on a volume.\<close>

lemma allocate_vol:
  fixes s :: "('d, 'z) fat_scheme"
  assumes dev: "ata_on B drv" "uart_ready B" and s: "fat32_vol drv s" and j: "2 + j < unat (total_clusters s)"
    and used: "\<And>i. i < j \<Longrightarrow> fat_entry drv s (2 + of_nat i) \<noteq> FREE_CLUSTER_32"
    and free: "fat_entry drv s (2 + of_nat j) = FREE_CLUSTER_32"
  shows "\<exists>t. allocateFreeFAT B s = ret (2 + of_nat j, t) \<and> fat32_vol drv t \<and> table_frame drv s t
    \<and> fat_cached drv t (2 + of_nat j) \<and> \<not> bad_cluster 32 (2 + of_nat j)
    \<and> fat_entry drv t (2 + of_nat j) = END_CLUSTER_32 \<and> on_volume s (2 + of_nat j)
    \<and> (\<forall>m. on_volume s m \<longrightarrow> fat_entry drv t m = (if m = 2 + of_nat j then END_CLUSTER_32 else fat_entry drv s m))"
proof -
  have fat: "fat32_ok drv s" using s by (simp add: fat32_vol_def)
  obtain t where t: "allocateFreeFAT B s = ret (2 + of_nat j, t)" "fat32_ok drv t" "table_frame drv s t"
    "fat_cached drv t (2 + of_nat j)" "\<forall>m. 2 \<le> m \<and> m < total_clusters s \<longrightarrow>
         fat_entry drv t m = (if m = 2 + of_nat j then END_CLUSTER_32 else fat_entry drv s m)"
    using allocate_first [OF dev fat j used free] by blast
  have "unat (total_clusters s) \<le> 16771860"
    using s by (simp add: fat32_vol_def part_length_def)
  then have u: "unat (2 + of_nat j :: u32) = 2 + j" "2 + j < 16771860"
    using j by (simp_all add: unat_word_ariths)
  then have "on_volume s (2 + of_nat j)"
    using j by (simp add: on_volume_def word_le_nat_alt word_less_nat_alt)
  moreover have "\<not> bad_cluster 32 (2 + of_nat j)"
  proof
    assume "bad_cluster 32 (2 + of_nat j)"
    then have "unat (2 + of_nat j :: u32) = unat BAD_CLUSTER_32" by (simp add: bad_cluster_def)
    then show False using u by (simp add: BAD_CLUSTER_32_def)
  qed
  moreover have "fat32_vol drv t"
    using s t(2,3) fat_fields [of t s] by (simp add: fat32_vol_def table_frame_def)
  ultimately show ?thesis
    using t by (auto simp: on_volume_def)
qed

definition new_entry :: "directory_entry \<Rightarrow> u32 \<Rightarrow> directory_entry" where
  "new_entry f n = (stamp f)\<lparr>low_bits := ucast (n AND 15), high_bits := ucast (drop_bit 16 n)\<rparr>"

text \<open>The transfer buffer with a new entry in it is written to a cluster.\<close>

lemma write_slot:
  fixes s :: "('d, 'z) fat_scheme"
  assumes dev: "ata_on B drv" "uart_ready B" and s: "fat32_vol drv s" "on_volume s c"
    and e: "length e = 32" and k: "k < 16"
  defines "w \<equiv> s\<lparr>ram := mem_write (ram s) (DISK_READ_LOCATION + 32 * of_nat k) e\<rparr>"
  shows "\<exists>t. clusterWrite B DISK_WRITE_LOCATION (cluster_bytes s) 0 c w = ret (0, t) \<and> fat32_vol drv t
    \<and> tty.more t = tty.more s \<and> ram t = ram w
    \<and> disk drv t = set_sector (disk drv s) (start_sect c s) (patch (mem_read (ram s) DISK_READ_LOCATION 512) (32 * k) e)"
proof -
  have w: "fat32_vol drv w" "on_volume w c" "cluster_bytes w = cluster_bytes s" "disk drv w = disk drv s"
    "start_sect c w = start_sect c s" "tty.more w = tty.more s"
    using s by (simp_all add: fat32_vol_def fat32_ok_def on_volume_def cluster_bytes_def w_def start_sect_def)
  have "mem_read (ram w) DISK_READ_LOCATION 512 = patch (mem_read (ram s) DISK_READ_LOCATION 512) (32 * k) e"
    using mem_read_patch [of "32 * k" e 512 "ram s" DISK_READ_LOCATION] e k by (simp add: w_def)
  then show ?thesis
    using clusterWrite_buffer [OF dev w(1,2)] w by auto
qed

text \<open>What an entry for cluster \<open>n\<close> in the directory cluster \<open>c\<close> keeps: the other entries of the table and
  the data of the other clusters.\<close>

definition entry_added ::
  "('d \<Rightarrow> ata) \<Rightarrow> u32 \<Rightarrow> u32 \<Rightarrow> ('d, 'z) fat_scheme \<Rightarrow> ('d, 'z) fat_scheme \<Rightarrow> bool" where
  "entry_added drv c n s t \<longleftrightarrow> tty.more t = tty.more s \<and> data_frame s t \<and> on_volume s n
     \<and> (\<forall>m. on_volume s m \<longrightarrow> fat_entry drv t m = (if m = n then END_CLUSTER_32 else fat_entry drv s m)
          \<and> (m \<noteq> c \<longrightarrow> cluster_data drv t m = cluster_data drv s m))"

lemma slot_data_frame:
  assumes "length e = 32" "k < 16" "ram t = mem_write (ram s) (DISK_READ_LOCATION + 32 * of_nat k) e"
  shows "data_frame s t"
proof -
  have "in_block DISK_READ_LOCATION 1025 x" if "in_block (DISK_READ_LOCATION + 32 * of_nat k) 32 x" for x
    using that in_block_shift [of DISK_READ_LOCATION "32 * of_nat k" 32 x 1025] assms(2)
    by (simp add: unat_word_ariths unat_of_nat DISK_READ_LOCATION_def)
  then show ?thesis using assms(1,3) write_data_frame [of "DISK_READ_LOCATION + 32 * of_nat k" e t s] by simp
qed

text \<open>
  The branch for a free slot: the allocation replaces the directory cluster in the transfer buffer
  by the sector of the table, and that sector, with the new entry in it, goes to the directory.
\<close>

lemma add_entry_slot:
  fixes s :: "('d, 'z) fat_scheme"
  assumes dev: "ata_on B drv" "uart_ready B" and s: "fat32_vol drv s" "on_volume s c" "benign (ram s)"
    and f: "length (file_name f) = 11" "0x2E \<notin> set (file_name f)" and k: "k < 16"
    and j: "2 + j < unat (total_clusters s)"
      "\<And>i. i < j \<Longrightarrow> fat_entry drv s (2 + of_nat i) \<noteq> FREE_CLUSTER_32"
      "fat_entry drv s (2 + of_nat j) = FREE_CLUSTER_32"
  defines "n \<equiv> 2 + of_nat j"
  shows "\<exists>t. add_entry B c (DISK_READ_LOCATION + 32 * of_nat k) f s = ret (0, new_entry f n, t)
    \<and> fat32_vol drv t \<and> fat_entry drv t n = END_CLUSTER_32 \<and> entry_added drv c n s t
    \<and> cluster_data drv t c = patch (disk drv t (fat_sec t n)) (32 * k) (entry_bytes (new_entry f n))"
proof -
  obtain t where t: "allocateFreeFAT B s = ret (n, t)" "fat32_vol drv t" "table_frame drv s t"
    "fat_cached drv t n" "\<not> bad_cluster 32 n" "fat_entry drv t n = END_CLUSTER_32" "on_volume s n"
    "\<forall>m. on_volume s m \<longrightarrow> fat_entry drv t m = (if m = n then END_CLUSTER_32 else fat_entry drv s m)"
    using allocate_vol [OF dev s(1) j] unfolding n_def by blast
  have ram_t: "benign (ram t)" using benign_table_frame [OF t(3) s(3)] .
  obtain d1 where d1: "complain_hex B ''Function directoryAdd: the new cluster for the file is '' n [] () t =
      ret ((), terminal_write B d1 t)"
    using complain_hex_benign [of "''Function directoryAdd: the new cluster for the file is ''" "[]" t B n "()"]
      fat32_vol_tty [OF t(2)] ram_t by (auto simp: ascii_def lit_def)
  let ?u = "terminal_write B d1 t"
  note u = vol_step_view [OF write_vol(1) [OF dev(1) t(2)], of d1]
  obtain d2 where d2: "print_bits B (new_entry f n) ?u = ret (terminal_write B d2 ?u)"
    using saysD [OF says_print_bits] fat32_vol_tty [OF u(4)] benign_write [OF fat32_vol_tty [OF t(2)] ram_t] by blast
  let ?v = "terminal_write B d2 ?u"
  have uv: "vol_step drv t ?v" "off_screen (ram ?v) (ram t)"
    using vol_step_trans [OF write_vol(1) [OF dev(1) t(2)] write_vol(1) [OF dev(1) u(4)]]
      off_screen_trans [OF write_vol(2) [OF dev(1) u(4)] write_vol(2) [OF dev(1) t(2)]] by blast+
  note v = vol_step_view [OF uv(1)]
  let ?e = "entry_bytes (new_entry f n)"
  have more: "tty.more ?v = tty.more s" "disk drv ?v = disk drv t"
    using uv(1) t(3) by (simp_all add: vol_step_def table_frame_def)
  note fv = fat_fields [OF more(1)]
  have on: "on_volume ?v c" "n < total_clusters ?v"
    using t(7) s(2) fv by (simp_all add: on_volume_def)
  have e: "length ?e = 32"
    using f(1) by (simp add: length_entry_bytes new_entry_def stamp_def)
  then obtain x where x: "clusterWrite B DISK_WRITE_LOCATION (cluster_bytes ?v) 0 c
      (?v\<lparr>ram := mem_write (ram ?v) (DISK_READ_LOCATION + 32 * of_nat k) ?e\<rparr>) = ret (0, x)"
    "fat32_vol drv x" "tty.more x = tty.more ?v" "disk drv x =
      set_sector (disk drv t) (start_sect c ?v) (patch (mem_read (ram ?v) DISK_READ_LOCATION 512) (32 * k) ?e)"
    "ram x = mem_write (ram ?v) (DISK_READ_LOCATION + 32 * of_nat k) ?e"
    using write_slot [OF dev v(4) on(1) _ k] more(2) by auto
  have add: "add_entry B c (DISK_READ_LOCATION + 32 * of_nat k) f s = ret (0, new_entry f n, x)"
    using f t(1,5) d1 d2 x(1) u(6) v(6) fat32_vol_type [OF t(2)]
    by (simp add: add_entry_def new_entry_def GET_ENTRY_HIGH_BITS_def GET_ENTRY_LOW_BITS_def Let_def)
  have "mem_read (ram ?v) DISK_READ_LOCATION 512 = disk drv t (fat_sec t n)"
    using off_screen_low [OF uv(2), of DISK_READ_LOCATION 512] t(4)
    by (simp add: fat_cached_def DISK_READ_LOCATION_def)
  moreover have same: "fat_sec x n = fat_sec ?v n" "fat_sec ?v n = fat_sec t n" "start_sect c x = start_sect c ?v"
    using fat_fields [OF x(3)] fv t(3) fat_fields [of t s]
    by (simp_all add: fat_sec_def start_sect_def table_frame_def)
  moreover have "fat_sec ?v n \<noteq> start_sect c ?v"
    using table_apart_from_data [OF v(4) on] .
  moreover have "entry_added drv c n s x"
    unfolding entry_added_def
  proof (intro conjI allI impI)
    show "tty.more x = tty.more s" "on_volume s n" using x(3) more(1) t(7) by simp_all
    show "data_frame s x"
      using data_frame_trans [OF data_frame_trans] table_data_frame [OF t(3)] screen_data_frame [OF uv(2)]
        slot_data_frame [OF e k x(5)] by blast
    fix m
    assume m: "on_volume s m"
    then have "on_volume ?v m" using fv by (simp add: on_volume_def)
    then show "fat_entry drv x m = (if m = n then END_CLUSTER_32 else fat_entry drv s m)"
      "m \<noteq> c \<Longrightarrow> cluster_data drv x m = cluster_data drv s m"
      using table_kept [OF v(4) on(1) x(3), of _ m] set_cluster_other [OF v(4) on(1) _ _ x(3), of m] x(4) more(2)
        m t(8) v(1,2) table_frame_data [OF s(1) t(3) m] by (auto simp: on_volume_def)
  qed
  ultimately show ?thesis
    using add x(2-4) more(1) t(6)
    by (simp add: cluster_data_def set_sector_def fat_entry_def fat_raw_def)
qed

lemma directoryAdd_slot:
  fixes s :: "('d, 'z) fat_scheme"
  assumes dev: "ata_on B drv" "uart_ready B" and s: "fat32_vol drv s" "on_volume s c" "benign (ram s)"
    and f: "length (file_name f) = 11" "0x2E \<notin> set (file_name f)" "testIfFATFormat (file_name f) = ret 0"
    and slot: "find open_slot (slots (cluster_data drv s c)) = Some (k, b)"
    and j: "2 + j < unat (total_clusters s)"
      "\<And>i. i < j \<Longrightarrow> fat_entry drv s (2 + of_nat i) \<noteq> FREE_CLUSTER_32"
      "fat_entry drv s (2 + of_nat j) = FREE_CLUSTER_32"
  defines "n \<equiv> 2 + of_nat j"
  shows "\<exists>t. directoryAdd B c f s = ret (0, new_entry f n, t)
    \<and> fat32_vol drv t \<and> fat_entry drv t n = END_CLUSTER_32 \<and> entry_added drv c n s t
    \<and> cluster_data drv t c = patch (disk drv t (fat_sec t n)) (32 * k) (entry_bytes (new_entry f n))"
proof -
  obtain t where t: "clusterRead B c 0 s = ret (0, t)" "vol_step drv s t"
    "off_screen (ram t) (mem_write (ram s) (DISK_READ_LOCATION + 0 * 512) (cluster_data drv s c))"
    using clusterRead_ok [OF dev(1) s(1,2)] by blast
  note c = fat32_vol_cluster [OF s(1,2)] and v = vol_step_view [OF t(2)]
  have on: "on_volume t c" using s(2) v(3) by simp
  have buf: "mem_read (ram t) DISK_READ_LOCATION 512 = cluster_data drv s c"
    using buffer_holds [of "ram t" "ram s"] t(3) c(6) by simp
  have ben: "benign (ram t)"
    using benign_buffer [of "ram t" "ram s" "cluster_data drv s c"] t(3) s(3) c(6) by simp
  have k: "k < 16"
    using slot by (auto simp: find_Some_iff slots_def simp del: upt_rec_numeral)
  have "add_scan (ram t) (last_entry t) DISK_READ_LOCATION 0 = Some (DISK_READ_LOCATION + 32 * of_nat k)"
    using add_scan_slots [OF buf, of 0] slot fat32_vol_cluster(5) [OF v(4) on] by simp
  then have "directoryAdd B c f s = add_entry B c (DISK_READ_LOCATION + 32 * of_nat k) f t"
    using f(3) t(1) by (subst directoryAdd.simps) simp
  moreover have "data_frame s t" using buffer_data_frame [of t s] t(3) c(6) by simp
  ultimately show ?thesis
    using add_entry_slot [OF dev v(4) on ben f(1,2) k, of j] j v data_frame_trans t(2) unfolding n_def
    by (auto simp: entry_added_def vol_step_def)
qed

subsection \<open>A small volume\<close>

text \<open>
  A volume with a root directory in cluster 2 that holds one file of five bytes, in cluster 3.
\<close>

definition sample_entry :: directory_entry where
  "sample_entry = (directory_entry_of (replicate 32 0))
     \<lparr>file_name := lit ''BOOT    C  '', low_bits := 3, file_size := 5\<rparr>"

definition sample_table :: "u8 list" where
  "sample_table = put32 (put32 (replicate 512 0) 8 END_CLUSTER_32) 12 END_CLUSTER_32"

definition sample_sectors :: "u32 \<Rightarrow> u8 list" where
  "sample_sectors l =
     (if l = 32 then sample_table
      else if l = 100 then entry_bytes sample_entry @ replicate 480 0
      else if l = 101 then lit ''hello'' @ replicate 507 0
      else replicate 512 0)"

definition sample_vol :: "ata fat" where
  "sample_vol = (sample_fat sample_boot)
     \<lparr>dev := blank_drive\<lparr>sectors := \<lambda>l. sample_sectors (l - part_start_lba)\<rparr>\<rparr>"

lemma sample_name [simp]: "length (file_name sample_entry) = 11"
  by (simp add: sample_entry_def lit_def)

lemma length_sample_sectors [simp]: "length (sample_sectors l) = 512"
  by (simp add: sample_sectors_def sample_table_def length_entry_bytes)

lemma sample_vol_disk [simp]: "disk (\<lambda>a. a) sample_vol l = sample_sectors l"
  by (simp add: disk_def sample_vol_def)

lemma sample_vol_fields [simp]:
  "first_fat_sector sample_vol = 32" "first_data_sector sample_vol = 100" "total_clusters sample_vol = 500"
  "fat_type sample_vol = 32" "bootsect sample_vol = sample_boot" "ram sample_vol = ram (sample_fat sample_boot)"
  by (simp_all add: sample_vol_def)

lemma sample_vol_ok [simp]: "fat32_vol (\<lambda>a. a) sample_vol" "benign (ram sample_vol)"
proof -
  have "disk_ready (\<lambda>a. a) sample_vol"
    using sample_fat_simps(7) [of sample_boot]
    by (simp add: disk_ready_def sample_vol_def tty_ok_def drive_ok_def blank_drive_def)
  then show "fat32_vol (\<lambda>a. a) sample_vol"
    by (simp add: fat32_vol_def fat32_ok_def part_length_def) (simp add: sample_boot_def)
qed simp

lemma sample_vol_entry:
  "fat_entry (\<lambda>a. a) sample_vol 2 = END_CLUSTER_32" "fat_entry (\<lambda>a. a) sample_vol 3 = END_CLUSTER_32"
  "fat_entry (\<lambda>a. a) sample_vol 4 = FREE_CLUSTER_32"
  by (simp_all add: fat_entry_def fat_raw_def fat_sec_def fat_off_def sample_sectors_def sample_table_def
      get32_put32 get32_put32_other)
    (simp_all add: END_CLUSTER_32_def FREE_CLUSTER_32_def get32_def le32_def)

lemma sample_vol_data:
  "cluster_data (\<lambda>a. a) sample_vol 2 = entry_bytes sample_entry @ replicate 480 0"
  "cluster_data (\<lambda>a. a) sample_vol 3 = lit ''hello'' @ replicate 507 0"
  by (simp_all add: cluster_data_def start_sect_def sample_sectors_def) (simp_all add: sample_boot_def)

lemma sample_vol_chain:
  "chain (\<lambda>a. a) sample_vol [2]" "chain (\<lambda>a. a) sample_vol [3]" "on_volume sample_vol 2"
  by (simp_all add: on_volume_def sample_vol_entry)

lemma slots_one:
  assumes "length e = 32"
  shows "slots (e @ replicate 480 0) = (0, e) # map (\<lambda>k. (k, replicate 32 0)) [1..<16]"
proof -
  have "take 32 (drop (32 * k) (e @ replicate 480 0)) = replicate 32 0" if "k \<in> set [1..<16]" for k
    using that assms by (auto simp: min_def)
  then have "map (\<lambda>k. (k, take 32 (drop (32 * k) (e @ replicate 480 0)))) [1..<16] =
      map (\<lambda>k. (k, replicate 32 0)) [1..<16]"
    by (intro map_cong) auto
  moreover have "[0..<16] = 0 # [1..<16]" by (simp add: upt_rec)
  ultimately show ?thesis
    using assms by (simp add: slots_def del: upt_rec_numeral)
qed

subsection \<open>Properties\<close>

lemma directory_entry_bytes: "length (file_name e) = 11 \<Longrightarrow> directory_entry_of (entry_bytes e) = e"
  by (cases e) (simp add: directory_entry_of_def entry_bytes_def get16_def get32_def bytes16_def bytes32_def
      nth_append le16_bytes16 le32_bytes32)

lemma entry_cluster_bits:
  "bnd (GET_ENTRY_HIGH_BITS 32 n) (\<lambda>h. GET_CLUSTER_FROM_ENTRY 32
     (f\<lparr>low_bits := ucast (GET_ENTRY_LOW_BITS 32 n), high_bits := ucast h\<rparr>)) = ret (n AND 0xFFFF000F)"
proof -
  have m: "(15 :: u32) = mask 4" "(0xFFFF000F :: u32) = mask 4 OR push_bit 16 (mask 16)"
    by (simp_all add: mask_eq_exp_minus_1 push_bit_eq_mult)
  have "ucast (ucast (n AND mask 4) :: u16) OR push_bit 16 (ucast (ucast (drop_bit 16 n) :: u16)) =
      n AND (mask 4 OR push_bit 16 (mask 16))"
    by (rule bit_word_eqI) (auto simp: bit_simps)
  then show ?thesis
    unfolding m(2)
    by (simp add: GET_CLUSTER_FROM_ENTRY_def GET_ENTRY_HIGH_BITS_def GET_ENTRY_LOW_BITS_def m(1))
qed

text \<open>C4: a directory search is a lookup in the directory. On a FAT32 volume with clusters of one
  sector, for a directory whose clusters form a chain and a name with a proper 8.3 form,
  \<open>directorySearch\<close> returns the first entry of that name before the end mark, with its number in
  its cluster, or -2 if there is none; it changes no sector.\<close>

theorem directorySearch_is_lookup:
  assumes "ata_on B drv" "uart_ready B" "fat32_vol drv s" "chain drv s cs"
    and "search_name filepart = ret nm" "11 \<le> length nm" "0 \<notin> set (take 11 nm)"
  shows "\<exists>t. disk drv t = disk drv s \<and> directorySearch B filepart (hd cs) fl off s =
    ret (case dir_lookup (take 11 nm) (dir_slots drv s cs) of
      Some (k, b) \<Rightarrow> (0, assign fl (directory_entry_of b), assign off (of_nat k), t)
    | None \<Rightarrow> (-2, fl, off, t))"
  using directorySearch_chain [OF assms(1,2,5-7,3,4)] unfolding vol_step_def by blast

lemma search_name_boot: "search_name (cstr ''boot.c'') = ret (lit ''BOOT    C  '' @ [0, 0])"
  using search_name_typed [of "lit ''boot''" "lit ''c''" "cstr ''boot.c''"]
  by (simp add: plain_def terminated_def typed_def name83_def uppercase_def replicate_numeral lit_def cstr_def)

lemma sample_lookup:
  "dir_lookup (lit ''BOOT    C  '') (dir_slots (\<lambda>a. a) sample_vol [2]) = Some (0, entry_bytes sample_entry)"
proof -
  have name: "take 11 (entry_bytes sample_entry) = lit ''BOOT    C  ''"
    by (simp add: entry_bytes_def) (simp add: sample_entry_def)
  moreover have "entry_bytes sample_entry ! 0 = take 11 (entry_bytes sample_entry) ! 0" by simp
  ultimately have "live_slot (0, entry_bytes sample_entry)"
    by (simp add: live_slot_def lit_def ENTRY_END_def)
  with name show ?thesis
    by (simp add: dir_slots_def sample_vol_data slots_one length_entry_bytes dir_lookup_def)
qed

theorem directorySearch_is_lookup_witness:
  "\<exists>t. directorySearch ata_bus (cstr ''boot.c'') 2 (Ref None) Null sample_vol =
    ret (0, Ref (Some sample_entry), Null, t)"
  using directorySearch_is_lookup [OF ata_bus_on sample_vol_ok(1) sample_vol_chain(1) search_name_boot,
      of "Ref None" Null] sample_lookup
  by (auto simp: directory_entry_bytes lit_def)

text \<open>C31: adding a file destroys the directory. On a FAT32 volume with clusters of one sector, if the
  directory cluster \<open>c\<close> has room at slot \<open>k\<close> and cluster \<open>n\<close> is the first free one,
  \<open>directoryAdd\<close> reports success, but the cluster then holds the sector of the allocation table
  that \<open>allocateFreeFAT\<close> left in the transfer buffer, with the new entry at slot \<open>k\<close>: every other
  entry of the cluster is lost.\<close>

theorem directoryAdd_overwrites_directory:
  assumes "ata_on B drv" "uart_ready B" "fat32_vol drv s" "on_volume s c" "benign (ram s)"
    and "length (file_name f) = 11" "0x2E \<notin> set (file_name f)" "testIfFATFormat (file_name f) = ret 0"
    and "find open_slot (slots (cluster_data drv s c)) = Some (k, b)"
    and "2 + j < unat (total_clusters s)" "\<forall>i < j. fat_entry drv s (2 + of_nat i) \<noteq> FREE_CLUSTER_32"
    and "n = 2 + of_nat j" "fat_entry drv s n = FREE_CLUSTER_32"
  shows "\<exists>t. directoryAdd B c f s = ret (0, new_entry f n, t) \<and> fat_entry drv t n = END_CLUSTER_32
    \<and> cluster_data drv t c = patch (disk drv t (fat_sec t n)) (32 * k) (entry_bytes (new_entry f n))"
  using directoryAdd_slot [OF assms(1-10)] assms(11-) by blast

theorem directoryAdd_overwrites_directory_witness:
  "\<exists>t. directoryAdd ata_bus 2 sample_entry sample_vol = ret (0, new_entry sample_entry 4, t)
    \<and> cluster_data (\<lambda>a. a) t 2 =
        patch (disk (\<lambda>a. a) t (fat_sec t 4)) 32 (entry_bytes (new_entry sample_entry 4))"
proof -
  have name: "file_name sample_entry = lit ''BOOT    C  ''"
    by (simp add: sample_entry_def)
  have "entry_bytes sample_entry ! 0 = file_name sample_entry ! 0"
    by (simp add: entry_bytes_def nth_append)
  then have "entry_bytes sample_entry ! 0 = 66" by (simp add: name lit_def)
  then have slot: "find open_slot (slots (cluster_data (\<lambda>a. a) sample_vol 2)) = Some (1, replicate 32 0)"
    by (simp add: sample_vol_data slots_one length_entry_bytes open_slot_def ENTRY_FREE_def ENTRY_END_def
        upt_conv_Cons)
  have fmt: "testIfFATFormat (file_name sample_entry) = ret 0" "0x2E \<notin> set (file_name sample_entry)"
    by (simp_all add: name testIfFATFormat_def test_byte_def lit_def)
  have "\<forall>i < 2. fat_entry (\<lambda>a. a) sample_vol (2 + of_nat i) \<noteq> FREE_CLUSTER_32"
    using sample_vol_entry by (auto simp: less_2_cases_iff END_CLUSTER_32_def FREE_CLUSTER_32_def)
  then show ?thesis
    using directoryAdd_overwrites_directory [OF ata_bus_on sample_vol_ok(1) sample_vol_chain(3) sample_vol_ok(2)
        sample_name fmt(2,1) slot, of 2 4] sample_vol_entry(3) by auto
qed

text \<open>C32: a new entry does not name its cluster. On FAT32 the number that \<open>directoryAdd\<close> splits for
  cluster \<open>n\<close> and that is later read from the entry is \<open>n\<close> with its bits 4 to 15 cleared, so
  every file in a cluster with one of these bits set is lost.\<close>

theorem new_entry_loses_cluster_bits:
  "bnd (GET_ENTRY_HIGH_BITS 32 n) (\<lambda>h. GET_CLUSTER_FROM_ENTRY 32
     (f\<lparr>low_bits := ucast (GET_ENTRY_LOW_BITS 32 n), high_bits := ucast h\<rparr>)) = ret (n AND 0xFFFF000F)"
  by (rule entry_cluster_bits)

text \<open>A directory entry survives the disk. The 32 bytes of an entry with an 11-byte name give the
  entry back.\<close>

lemma directory_entry_round_trip:
  assumes "length (file_name e) = 11"
  shows "length (entry_bytes e) = 32 \<and> directory_entry_of (entry_bytes e) = e"
  using assms directory_entry_bytes length_entry_bytes by blast



text \<open>A machine with an unopened volume of 70000 clusters, where the overrun goes to plain memory.\<close>

definition boot_sector_32 :: "u8 list" where
  "boot_sector_32 = replicate 11 0 @ bytes16 512 @ [1] @ bytes16 32 @ [2] @ replicate 15 0 @ bytes32 70000 @ bytes32 600 @ replicate 472 0"

definition unopened :: "ata fat" where
  "unopened = (sample_fat sample_boot)
     \<lparr>dev := blank_drive\<lparr>sectors := \<lambda>l. if l = part_start_lba then boot_sector_32 else replicate 512 0\<rparr>\<rparr>"

definition spill_high :: "u8 list \<Rightarrow> ata fat \<Rightarrow> ata fat" where
  "spill_high bs s = s\<lparr>ram := mem_write (ram s) 0x106000 (take 422 bs)\<rparr>"

lemma spill_high_spares: "spares (\<lambda>a. a) spill_high"
proof -
  have "apart 0x106000 422 DISK_READ_LOCATION 512"
    using apart_below [of DISK_READ_LOCATION 512 "0x106000" 422] by (simp add: DISK_READ_LOCATION_def)
  then have "mem_read (mem_write m 0x106000 (take 422 bs)) DISK_READ_LOCATION 512 = mem_read m DISK_READ_LOCATION 512" for m bs
    by (intro mem_read_cong) (auto simp: mem_write_def apart_def in_block_def)
  then show ?thesis
    by (auto simp: spares_def spill_high_def disk_ready_def tty_ok_def disk_def fun_eq_iff)
qed

lemma unopened_boot:
  "disk_ready (\<lambda>a. a) unopened" "disk (\<lambda>a. a) unopened 0 = boot_sector_32"
  "sectors_per_cluster (fat_BS_of boot_sector_32) = 1" "bytes_per_sector (fat_BS_of boot_sector_32) = 512"
  "reserved_sector_count (fat_BS_of boot_sector_32) = 32" "clusters_of (fat_BS_of boot_sector_32) = 70000"
  "table_sectors (fat_BS_of boot_sector_32) = 1200" "root_sectors (fat_BS_of boot_sector_32) = 0"
proof -
  have len: "length boot_sector_32 = 512" by (simp add: boot_sector_32_def bytes16_def bytes32_def)
  show "disk_ready (\<lambda>a. a) unopened"
    using sample_fat_simps(7) [of sample_boot] len
    by (simp add: disk_ready_def unopened_def drive_ok_def tty_ok_def blank_drive_def)
  show "disk (\<lambda>a. a) unopened 0 = boot_sector_32" by (simp add: disk_def unopened_def)
  show spc: "sectors_per_cluster (fat_BS_of boot_sector_32) = 1" and "bytes_per_sector (fat_BS_of boot_sector_32) = 512"
    "reserved_sector_count (fat_BS_of boot_sector_32) = 32"
    by (simp_all add: fat_BS_of_def boot_sector_32_def nth_append get16_def bytes16_def bytes32_def le16_def)
  have "total_sectors_16 (fat_BS_of boot_sector_32) = 0" "total_sectors_32 (fat_BS_of boot_sector_32) = 70000"
    "table_count (fat_BS_of boot_sector_32) = 2" "table_size_32 (extBS_32_of (extended_section (fat_BS_of boot_sector_32))) = 600"
    by (simp_all add: fat_BS_of_def extBS_32_of_def boot_sector_32_def nth_append get16_def get32_def bytes16_def bytes32_def le16_def le32_def)
  with spc show "clusters_of (fat_BS_of boot_sector_32) = 70000" "table_sectors (fat_BS_of boot_sector_32) = 1200"
    "root_sectors (fat_BS_of boot_sector_32) = 0"
    by (simp_all add: clusters_of_def table_sectors_def root_sectors_def entry_width_def)
qed


end
