(* ===== verification/FatFile.thy ===== *)
theory FatFile
  imports FatDir
begin

section \<open>Files\<close>

text \<open>
  \<open>getFile\<close> and \<open>putFile\<close> of \<^verbatim>\<open>kernel/arch/i386/FAT.c\<close>: a path is walked component by
  component with \<open>directorySearch\<close>, a file is read cluster by cluster into the transfer buffer
  from a given cluster offset on, and a new file is entered in its directory and written.
\<close>

subsection \<open>Paths\<close>

definition root_of :: "('d, 'z) fat_scheme \<Rightarrow> u32" where
  "root_of s = root_cluster (extBS_32_of (extended_section (bootsect s)))"

text \<open>
  \<open>memset\<close> and \<open>memcpy\<close> on \<open>char fileNamePart[256]\<close>: the component from \<open>start\<close> up to \<open>iterator\<close>.
  The start is an unsigned short.
\<close>

definition path_part :: "u8 list \<Rightarrow> u16 \<Rightarrow> nat \<Rightarrow> u8 list comp" where
  "path_part filePath start iterator =
     (let n = unat (of_nat iterator - ucast start :: u32) in
      if unat start + n \<le> length filePath
      then ablit (replicate 256 0) 0 (take n (drop (unat start) filePath))
      else stuck OutOfBounds)"

text \<open>
  The loop over the path. It returns the status, the cluster and the entry of the last component;
  \<open>err\<close> and \<open>none\<close> are the messages of the caller.
\<close>

type_synonym ('d, 'z) walk_result = "(int \<times> u32 \<times> directory_entry ref \<times> ('d, 'z) fat_scheme) comp"

function walk_path ::
  "'d bus \<Rightarrow> (('d, 'z) fat_scheme \<Rightarrow> (int \<times> ('d, 'z) fat_scheme) comp)
    \<Rightarrow> (('d, 'z) fat_scheme \<Rightarrow> (int \<times> ('d, 'z) fat_scheme) comp)
    \<Rightarrow> u8 list \<Rightarrow> u16 \<Rightarrow> nat \<Rightarrow> u32 \<Rightarrow> directory_entry ref \<Rightarrow> ('d, 'z) fat_scheme \<Rightarrow> ('d, 'z) walk_result" where
  "walk_path B none err filePath start iterator active_cluster file_info s =
     bnd (aget filePath (iterator - 1)) (\<lambda>before.
       if before = 0 then ret (0, active_cluster, file_info, s)
       else
         bnd (aget filePath iterator) (\<lambda>c.
           if c = 0x5C \<or> c = 0 then
             bnd (path_part filePath start iterator) (\<lambda>part.
             bnd (directorySearch B part active_cluster file_info Null s) (\<lambda>(retVal, file_info, _, s).
               if retVal = -2 then bnd (none s) (\<lambda>(r, s). ret (r, active_cluster, file_info, s))
               else if retVal = -1 then bnd (err s) (\<lambda>(r, s). ret (r, active_cluster, file_info, s))
               else
                 bnd (deref file_info) (\<lambda>e.
                 bnd (GET_CLUSTER_FROM_ENTRY (fat_type s) e) (\<lambda>active_cluster.
                   walk_path B none err filePath (of_nat (iterator + 1)) (iterator + 1) active_cluster file_info s))))
           else walk_path B none err filePath start (iterator + 1) active_cluster file_info s))"
  by pat_completeness auto
termination
  by (relation "measure (\<lambda>(B, none, err, filePath, start, iterator, active_cluster, file_info, s).
        length filePath - iterator)") (auto simp: aget_def split: if_splits)

declare walk_path.simps [simp del]

subsection \<open>Reading a file\<close>

text \<open>
  The loop over the clusters of a file. The number of a cluster is a signed int, and the status of
  \<open>clusterRead\<close> is not looked at.
\<close>

partial_function (option) read_chain ::
  "'d bus \<Rightarrow> u32 \<Rightarrow> int \<Rightarrow> u32 \<Rightarrow> ('d, 'z) fat_scheme \<Rightarrow> (int \<times> ('d, 'z) fat_scheme) comp" where
  "read_chain B readInOffset cluster clusterReadCount s =
     (if cluster < sint END_CLUSTER_32 then
        bnd (clusterRead B (of_int cluster) (clusterReadCount + readInOffset) s) (\<lambda>(_, s).
        bnd (FATRead B (of_int cluster) s) (\<lambda>(cluster, s).
          if cluster = sint BAD_CLUSTER_32 then
            complain B ''Function getFile: the cluster chain is corrupted with a bad cluster. Aborting...'' (-1) s
          else if cluster = -1 then
            complain B ''Function getFile: an error occurred in FATRead. Aborting...'' (-1) s
          else read_chain B readInOffset cluster (clusterReadCount + 1) s))
      else ret (0, s))"

text \<open>
  The pointer that the function hands back through \<open>fileContents\<close> is an address in the transfer
  buffer. The result is the status, the two variables pointed to, and the state.
\<close>

type_synonym ('d, 'z) get_result = "(int \<times> u32 ref \<times> directory_entry ref \<times> ('d, 'z) fat_scheme) comp"

definition read_file ::
  "'d bus \<Rightarrow> u32 ref \<Rightarrow> directory_entry ref \<Rightarrow> u32 \<Rightarrow> directory_entry \<Rightarrow> ('d, 'z) fat_scheme
    \<Rightarrow> ('d, 'z) get_result" where
  "read_file B fileContents fileMeta readInOffset file_info s =
     (if attributes file_info AND FILE_DIRECTORY \<noteq> FILE_DIRECTORY then
        if readInOffset < 1 \<or> readInOffset * cluster_bytes s + file_size file_info > 262144
        then ret (-3, fileContents, fileMeta, s)
        else
          bnd (GET_CLUSTER_FROM_ENTRY (fat_type s) file_info) (\<lambda>cluster.
          bnd (read_chain B readInOffset (sint cluster) 0 s) (\<lambda>(r, s).
            if r \<noteq> 0 then ret (r, fileContents, fileMeta, s)
            else ret (0, assign fileContents (DISK_READ_LOCATION + cluster_bytes s * readInOffset), fileMeta, s)))
      else ret (-3, fileContents, fileMeta, s))"

definition getFile ::
  "'d bus \<Rightarrow> u8 list \<Rightarrow> u32 ref \<Rightarrow> directory_entry ref \<Rightarrow> u32 \<Rightarrow> ('d, 'z) fat_scheme \<Rightarrow> ('d, 'z) get_result" where
  "getFile B filePath fileContents fileMeta readInOffset s =
     (let fail = (\<lambda>msg. bnd (complain B msg (-1) s) (\<lambda>(r, s). ret (r, fileContents, fileMeta, s))) in
      if fileContents = Null \<or> fileMeta = Null then fail ''Function getFile: an argument was invalid!''
      else if fat_type s = 32 then
        bnd (walk_path B (\<lambda>s. ret (-2, s))
               (complain B ''Function getFile: An error occurred in directorySearch. Aborting...'' (-1))
               filePath 3 3 (root_of s) (Ref None) s) (\<lambda>(r, active_cluster, file_info, s).
          if r \<noteq> 0 then ret (r, fileContents, fileMeta, s)
          else
            bnd (deref file_info) (\<lambda>e.
              read_file B fileContents (assign fileMeta e) readInOffset e s))
      else fail ''Function getFile: FAT16 and FAT12 are not supported!'')"

subsection \<open>Writing a file\<close>

text \<open>
  The loop over the data. A full cluster is written with one byte more than a cluster holds, and
  the number of bytes left is unsigned.
\<close>

partial_function (option) write_chain ::
  "'d bus \<Rightarrow> u32 \<Rightarrow> u32 \<Rightarrow> u32 \<Rightarrow> u32 \<Rightarrow> ('d, 'z) fat_scheme \<Rightarrow> (int \<times> ('d, 'z) fat_scheme) comp" where
  "write_chain B body sz active_cluster dataLeftToWrite s =
     (if 0 < dataLeftToWrite then
        bnd (d_printhex B dataLeftToWrite 8 s) (\<lambda>s.
        bnd (d_printss B (cstr [CHR 0x0A]) s) (\<lambda>s.
        let dataWrite = (if dataLeftToWrite \<ge> cluster_bytes s then cluster_bytes s + 1 else dataLeftToWrite) in
        bnd (clusterWrite B (body + (sz - dataLeftToWrite)) dataWrite 1 active_cluster s) (\<lambda>(r, s).
          if r \<noteq> 0 then complain B ''Function putFile: clusterWrite encountered an error. Aborting...'' (-1) s
          else if dataLeftToWrite - dataWrite = 0 then ret (0, s)
          else
            bnd (allocateFreeFAT B s) (\<lambda>(new_cluster, s).
              if bad_cluster (fat_type s) new_cluster then
                complain B ''Function putFile: allocateFreeFAT encountered an error. Aborting...'' (-1) s
              else
                bnd (FATWrite B active_cluster new_cluster s) (\<lambda>(r, s).
                  if r \<noteq> 0 then complain B ''Function putFile: FATWrite encountered an error. Aborting...'' (-1) s
                  else write_chain B body sz new_cluster (dataLeftToWrite - dataWrite) s)))))
      else ret (0, s))"

text \<open>
  For the path of the root directory the code fills in four fields of the entry; the others are
  not read before they are set.
\<close>

definition root_info :: "u32 \<Rightarrow> u32 \<Rightarrow> directory_entry comp" where
  "root_info ft cluster =
     bnd (GET_ENTRY_HIGH_BITS ft cluster) (\<lambda>high.
       ret ((directory_entry_of (replicate 32 0))
         \<lparr>attributes := FILE_DIRECTORY OR FILE_VOLUME_ID, file_size := 0, high_bits := ucast high,
          low_bits := ucast (GET_ENTRY_LOW_BITS ft cluster)\<rparr>))"

text \<open>
  The entry of the new file in the directory at \<open>active_cluster\<close>, then its data; \<open>stale\<close> is what the
  local array for the shown name holds before. The result is the status, the caller's entry and
  the state.
\<close>

definition put_in_directory ::
  "'d bus \<Rightarrow> u8 list \<Rightarrow> u32 \<Rightarrow> directory_entry \<Rightarrow> u32 \<Rightarrow> ('d, 'z) fat_scheme
    \<Rightarrow> (int \<times> directory_entry \<times> ('d, 'z) fat_scheme) comp" where
  "put_in_directory B stale body fileMeta active_cluster s =
     bnd (d_printsss B (file_name fileMeta) 11 s) (\<lambda>s.
     bnd (d_printhex B active_cluster 8 s) (\<lambda>s.
     bnd (d_printss B (cstr [CHR 0x0A]) s) (\<lambda>s.
     bnd (directoryAdd B active_cluster fileMeta s) (\<lambda>(r, fileMeta, s).
       let fail = (\<lambda>r msg s. bnd (complain B msg r s) (\<lambda>(r, s). ret (r, fileMeta, s))) in
       if r \<noteq> 0 then fail (-1) ''Function putFile: directoryAdd encountered an error. Aborting...'' s
       else
         bnd (convertFromFATFormat (file_name fileMeta) stale) (\<lambda>output.
         bnd (d_printsss B output 11 s) (\<lambda>s.
         bnd (d_printhex B active_cluster 8 s) (\<lambda>s.
         bnd (d_printss B (cstr [CHR 0x0A]) s) (\<lambda>s.
         bnd (directorySearch B output active_cluster (Ref None) Null s) (\<lambda>(retVal, file_info, _, s).
           if retVal = -2 then
             fail (-2) ''Function putFile: directoryAdd did not properly write the new file's entry to disk. Aborting...'' s
           else if retVal \<noteq> 0 then
             fail (-1) ''Function putFile: directorySearch has encountered an error. Aborting...'' s
           else
             bnd (deref file_info) (\<lambda>e.
             bnd (GET_CLUSTER_FROM_ENTRY (fat_type s) e) (\<lambda>active_cluster.
             bnd (complain_hex B ''Cluster of Entry: '' active_cluster [] () s) (\<lambda>(_, s).
             bnd (write_chain B body (file_size fileMeta) active_cluster (file_size fileMeta) s) (\<lambda>(r, s).
               ret (r, fileMeta, s))))))))))))))"

definition putFile ::
  "'d bus \<Rightarrow> u8 list \<Rightarrow> u8 list \<Rightarrow> u8 list \<Rightarrow> u32 \<Rightarrow> directory_entry \<Rightarrow> ('d, 'z) fat_scheme
    \<Rightarrow> (int \<times> directory_entry \<times> ('d, 'z) fat_scheme) comp" where
  "putFile B stale stale' filePath body fileMeta s =
     bnd (testIfFATFormat (file_name fileMeta)) (\<lambda>t.
     let fail = (\<lambda>r msg s. bnd (complain B msg r s) (\<lambda>(r, s). ret (r, fileMeta, s))) in
     if t \<noteq> 0 then
       bnd (d_printhex B (scast t) 8 s) (\<lambda>s.
       bnd (d_printss B (entry_bytes fileMeta) s) (\<lambda>s.
       bnd (d_printss B (cstr [CHR 0x0A]) s) (\<lambda>s.
         fail (-2) ([CHR 0x0A] @ ''Function putFile: Invalid file name!'') s)))
     else if fat_type s \<noteq> 32 then fail (-1) ''Function putFile: FAT16 and FAT12 are not supported!'' s
     else
       bnd (strcmp filePath (cstr (''C:'' @ [CHR 0x5C]))) (\<lambda>cmp.
       bnd (if cmp = 0 then bnd (root_info (fat_type s) (root_of s)) (\<lambda>e. ret (0, root_of s, Ref (Some e), s))
            else walk_path B
                   (complain B ''Function putFile: No matching directory found. Aborting...'' (-2))
                   (complain B ''Function putFile: An error occurred in directorySearch. Aborting...'' (-1))
                   filePath 3 3 (root_of s) (Ref None) s) (\<lambda>(r, active_cluster, file_info, s).
       if r \<noteq> 0 then ret (r, fileMeta, s)
       else
         bnd (convertFromFATFormat (file_name fileMeta) stale) (\<lambda>output.
         bnd (directorySearch B output active_cluster Null Null s) (\<lambda>(retVal, _, _, s).
           if retVal = -1 then fail (-1) ''Function putFile: directorySearch encountered an error. Aborting...'' s
           else if retVal \<noteq> -2 then
             fail (-3) ''Function putFile: a file matching the name given already exists. Aborting...'' s
           else
             bnd (deref file_info) (\<lambda>e.
               if attributes e AND FILE_DIRECTORY = FILE_DIRECTORY then
                 put_in_directory B stale' body fileMeta active_cluster s
               else fail (-2) ''Function putFile: Invalid path!'' s))))))"

subsection \<open>The clusters of a file\<close>

lemma vol_step_chain:
  assumes "vol_step drv s t"
  shows "chain drv t cs = chain drv s cs" "dir_slots drv t cs = dir_slots drv s cs"
  using vol_step_view [OF assms] by (induction cs rule: induct_list012) (simp_all add: dir_slots_def)

lemma chain_hd: "chain drv s cs \<Longrightarrow> on_volume s (hd cs)"
  by (cases "(drv, s, cs)" rule: chain.cases) auto

lemma on_volume_small:
  assumes "fat32_vol drv s" "on_volume s n"
  shows "uint n < 16771860" "sint n = uint n"
proof -
  have "unat (total_clusters s) \<le> 16771860"
    using assms(1) by (simp add: fat32_vol_def part_length_def)
  then have u: "unat n < 16771860"
    using assms(2) by (simp add: on_volume_def word_less_nat_alt)
  then have "int (unat n) < 16771860" by linarith
  then show i: "uint n < 16771860" by simp
  have "sint n = (uint n + 2 ^ 31) mod 2 ^ 32 - 2 ^ 31"
    by (simp add: sint_uint signed_take_bit_eq_take_bit_shift take_bit_eq_mod)
  then show "sint n = uint n"
    using i uint_ge_0 [of n] by (simp add: mod_pos_pos_trivial)
qed

text \<open>The cluster-sized blocks of the transfer area, below the text screen.\<close>

definition block_at :: "nat \<Rightarrow> u32" where
  "block_at q = DISK_READ_LOCATION + of_nat (512 * q)"

lemma unat_block_at: "512 * q \<le> 0x78000 \<Longrightarrow> unat (block_at q) = 0x40000 + 512 * q"
  unfolding block_at_def DISK_READ_LOCATION_def
  by (subst unat_add_lem [THEN iffD1]) (simp_all add: unat_of_nat del: of_nat_mult)

lemma block_at_0: "block_at 0 = DISK_READ_LOCATION"
  by (simp add: block_at_def)

lemma block_after_write:
  assumes m: "off_screen m (mem_write m' (block_at q) bs)" "length bs = 512"
    and q: "512 * (q + 1) \<le> 0x78000" "512 * (i + 1) \<le> 0x78000"
  shows "mem_read m (block_at i) 512 = (if i = q then bs else mem_read m' (block_at i) 512)"
proof -
  note u = unat_block_at [of i] unat_block_at [of q]
  have "mem_read m (block_at i) 512 = mem_read (mem_write m' (block_at q) bs) (block_at i) 512"
    using off_screen_low [OF m(1), of "block_at i" 512] u q by simp
  moreover have "apart (block_at q) 512 (block_at i) 512" if "i \<noteq> q"
    using apart_below [of "block_at q" 512 "block_at i" 512] apart_below [of "block_at i" 512 "block_at q" 512]
      u q that by (cases "i < q") auto
  ultimately show ?thesis
    using m(2) mem_read_write_same [of bs m' "block_at q"] mem_read_write_apart [of "block_at q" bs "block_at i" 512 m']
    by auto
qed

text \<open>One round: the cluster arrives in its block, the other blocks but the first are kept.\<close>

lemma read_chain_step:
  fixes s :: "('d, 'z) fat_scheme"
  assumes dev: "ata_on B drv" "uart_ready B" and s: "fat32_vol drv s" "on_volume s c"
    and cnt: "cnt + off = of_nat q" "1 \<le> q" "512 * (q + 1) \<le> 0x78000"
    and next_ok: "END_CLUSTER_32 \<le> fat_entry drv s c \<or> on_volume s (fat_entry drv s c)"
  shows "\<exists>t. vol_step drv s t
    \<and> read_chain B off (uint c) cnt s = read_chain B off (uint (fat_entry drv s c)) (cnt + 1) t
    \<and> (\<forall>i. 1 \<le> i \<and> 512 * (i + 1) \<le> 0x78000 \<longrightarrow>
        mem_read (ram t) (block_at i) 512 = (if i = q then cluster_data drv s c else mem_read (ram s) (block_at i) 512))"
proof -
  obtain t where t: "clusterRead B c (cnt + off) s = ret (0, t)" "vol_step drv s t"
    "off_screen (ram t) (mem_write (ram s) (DISK_READ_LOCATION + (cnt + off) * 512) (cluster_data drv s c))"
    using clusterRead_ok [OF dev(1) s] by blast
  note v = vol_step_view [OF t(2)] and small = on_volume_small [OF s]
  have on: "on_volume t c" using s(2) v(3) by simp
  obtain u where u: "FATRead B c t = ret (uint (fat_entry drv s c), u)" "vol_step drv t u"
    "off_screen (ram u) (mem_write (ram t) DISK_READ_LOCATION (disk drv t (fat_sec t c)))"
    using FATRead_vol [OF dev v(4) on] v(1) by auto
  have e: "268435447 < uint (fat_entry drv s c) \<or> uint (fat_entry drv s c) < 16771860"
    using next_ok on_volume_small(1) [OF s(1), of "fat_entry drv s c"]
    by (auto simp: END_CLUSTER_32_def word_le_def)
  then have nb: "uint (fat_entry drv s c) \<noteq> sint BAD_CLUSTER_32" "uint (fat_entry drv s c) \<noteq> -1"
    by (auto simp: BAD_CLUSTER_32_def intro: less_imp_neq not_sym uint_ge_0 [THEN le_less_trans])
      (use uint_ge_0 [of "fat_entry drv s c"] in linarith)
  have "read_chain B off (uint c) cnt s = read_chain B off (uint (fat_entry drv s c)) (cnt + 1) u"
    using t(1) u(1) small nb by (subst read_chain.simps) (simp add: END_CLUSTER_32_def)
  moreover have "mem_read (ram u) (block_at i) 512 =
      (if i = q then cluster_data drv s c else mem_read (ram s) (block_at i) 512)"
    if i: "1 \<le> i" "512 * (i + 1) \<le> 0x78000" for i
  proof -
    have at: "DISK_READ_LOCATION + (cnt + off) * 512 = block_at q"
      by (simp add: cnt(1) block_at_def mult.commute)
    have "length (disk drv t (fat_sec t c)) = 512"
      using v(4) by (simp add: fat32_vol_def fat32_ok_def disk_ready_def disk_def drive_ok_def)
    then have "mem_read (ram u) (block_at i) 512 = mem_read (ram t) (block_at i) 512"
      using block_after_write [of "ram u" "ram t" 0] u(3) i by (simp add: block_at_0)
    then show ?thesis
      using block_after_write [OF t(3) [unfolded at] fat32_vol_cluster(6) [OF s] cnt(3) i(2)] by simp
  qed
  ultimately show ?thesis
    using vol_step_trans [OF t(2) u(2)] by blast
qed

lemma read_chain_end:
  "END_CLUSTER_32 \<le> e \<Longrightarrow> read_chain B off (uint e) cnt s = ret (0, s)"
  by (subst read_chain.simps) (simp add: END_CLUSTER_32_def word_le_def)

lemma mem_read_blocks:
  "mem_read m (block_at q) (512 * Suc n) = mem_read m (block_at q) 512 @ mem_read m (block_at (Suc q)) (512 * n)"
  using mem_read_append [of m "block_at q" 512 "512 * n"]
  by (simp add: block_at_def add.assoc add.commute [of 512])

lemma read_chain_ok:
  assumes dev: "ata_on B drv" "uart_ready B"
  shows "fat32_vol drv s \<Longrightarrow> chain drv s cs \<Longrightarrow> cnt + off = of_nat q \<Longrightarrow> 1 \<le> q \<Longrightarrow>
    512 * (q + length cs) \<le> 0x78000 \<Longrightarrow>
    \<exists>t. read_chain B off (uint (hd cs)) cnt s = ret (0, t) \<and> vol_step drv s t
      \<and> mem_read (ram t) (block_at q) (512 * length cs) = concat (map (cluster_data drv s) cs)
      \<and> (\<forall>i. 1 \<le> i \<and> i < q \<longrightarrow> mem_read (ram t) (block_at i) 512 = mem_read (ram s) (block_at i) 512)"
proof (induction cs arbitrary: s cnt q rule: induct_list012)
  case (2 c)
  then have c: "on_volume s c" "END_CLUSTER_32 \<le> fat_entry drv s c" by simp_all
  obtain t where t: "vol_step drv s t"
    "read_chain B off (uint c) cnt s = read_chain B off (uint (fat_entry drv s c)) (cnt + 1) t"
    "\<forall>i. 1 \<le> i \<and> 512 * (i + 1) \<le> 0x78000 \<longrightarrow>
        mem_read (ram t) (block_at i) 512 = (if i = q then cluster_data drv s c else mem_read (ram s) (block_at i) 512)"
    using read_chain_step [OF dev 2(1) c(1) 2(3,4)] 2(5) c(2) by auto
  with 2(4,5) show ?case
    using read_chain_end [OF c(2)] by (auto intro!: exI [of _ t])
next
  case (3 c d cs)
  then have c: "on_volume s c" "fat_entry drv s c = d" "chain drv s (d # cs)" by simp_all
  have d: "on_volume s d" using chain_hd [OF c(3)] by simp
  obtain t where t: "vol_step drv s t"
    "read_chain B off (uint c) cnt s = read_chain B off (uint d) (cnt + 1) t"
    "\<forall>i. 1 \<le> i \<and> 512 * (i + 1) \<le> 0x78000 \<longrightarrow>
        mem_read (ram t) (block_at i) 512 = (if i = q then cluster_data drv s c else mem_read (ram s) (block_at i) 512)"
    using read_chain_step [OF dev 3(3) c(1) 3(5,6)] 3(7) c(2) d by auto
  note v = vol_step_view [OF t(1)] vol_step_chain [OF t(1)]
  have q: "cnt + 1 + off = of_nat (Suc q)" using 3(5) by (simp add: add.assoc add.commute)
  obtain u where u: "read_chain B off (uint d) (cnt + 1) t = ret (0, u)" "vol_step drv t u"
    "mem_read (ram u) (block_at (Suc q)) (512 * length (d # cs)) = concat (map (cluster_data drv s) (d # cs))"
    "\<forall>i. 1 \<le> i \<and> i < Suc q \<longrightarrow> mem_read (ram u) (block_at i) 512 = mem_read (ram t) (block_at i) 512"
    using "3.IH"(2) [OF v(4) _ q] c(3) v(2) vol_step_chain(1) [OF t(1)] 3(6,7) by auto
  have "mem_read (ram u) (block_at q) 512 = cluster_data drv s c"
    using u(4) t(3) 3(6,7) by auto
  then have "mem_read (ram u) (block_at q) (512 * length (c # d # cs)) = concat (map (cluster_data drv s) (c # d # cs))"
    using u(3) mem_read_blocks [of "ram u" q "length (d # cs)"] by simp
  moreover have "mem_read (ram u) (block_at i) 512 = mem_read (ram s) (block_at i) 512" if "1 \<le> i \<and> i < q" for i
    using that u(4) t(3) 3(7) by auto
  ultimately show ?case
    using t(2) u(1) vol_step_trans [OF t(1) u(2)] by auto
qed simp

subsection \<open>Walking a path\<close>

text \<open>
  A component is looked up in the directory whose chain starts at a cluster. A path leads from a
  cluster to the entry of its last component, or to nothing when a component is missing.
\<close>

definition dir_entry ::
  "('d \<Rightarrow> ata) \<Rightarrow> ('d, 'z) fat_scheme \<Rightarrow> u32 \<Rightarrow> u8 list \<Rightarrow> directory_entry option \<Rightarrow> bool" where
  "dir_entry drv s c p r \<longleftrightarrow> (\<exists>cs nm. chain drv s cs \<and> hd cs = c \<and> search_name (p @ [0]) = ret nm
     \<and> 11 \<le> length nm \<and> 0 \<notin> set (take 11 nm)
     \<and> r = map_option (\<lambda>kb. directory_entry_of (snd kb)) (dir_lookup (take 11 nm) (dir_slots drv s cs)))"

definition entry_cluster :: "directory_entry \<Rightarrow> u32" where
  "entry_cluster e = ucast (low_bits e) OR push_bit 16 (ucast (high_bits e))"

inductive leads_to ::
  "('d \<Rightarrow> ata) \<Rightarrow> ('d, 'z) fat_scheme \<Rightarrow> u32 \<Rightarrow> u8 list list \<Rightarrow> directory_entry option \<Rightarrow> bool"
  for drv :: "'d \<Rightarrow> ata" and s :: "('d, 'z) fat_scheme" where
  missing: "dir_entry drv s c p None \<Longrightarrow> leads_to drv s c (p # ps) None"
| target: "dir_entry drv s c p (Some e) \<Longrightarrow> leads_to drv s c [p] (Some e)"
| enter: "dir_entry drv s c p (Some e) \<Longrightarrow> leads_to drv s (entry_cluster e) (q # ps) r
    \<Longrightarrow> leads_to drv s c (p # q # ps) r"

text \<open>The bytes of a path from its first component on.\<close>

fun path_bytes :: "u8 list list \<Rightarrow> u8 list" where
  "path_bytes [] = [0]"
| "path_bytes [p] = p @ [0]"
| "path_bytes (p # q # ps) = p @ 0x5C # path_bytes (q # ps)"

definition component :: "u8 list \<Rightarrow> bool" where
  "component p \<longleftrightarrow> 0 \<notin> set p \<and> 0x5C \<notin> set p \<and> length p < 256"

lemma path_before:
  assumes "filePath = pre @ p @ r" "pre \<noteq> []" "last pre \<noteq> 0" "0 \<notin> set p" "j \<le> length p"
  shows "aget filePath (length pre + j - 1) = ret (filePath ! (length pre + j - 1))"
    "filePath ! (length pre + j - 1) \<noteq> 0"
proof -
  have n: "length pre + j - 1 < length (pre @ p)" using assms(2,5) by (cases pre) auto
  then show "aget filePath (length pre + j - 1) = ret (filePath ! (length pre + j - 1))"
    using assms(1) by (simp add: aget_def)
  have "filePath ! (length pre + j - 1) = (pre @ p) ! (length pre + j - 1)"
    unfolding assms(1) append_assoc [symmetric] nth_append using n by simp
  also have "\<dots> \<noteq> 0"
  proof (cases j)
    case 0
    then show ?thesis using assms(2,3) by (simp add: nth_append last_conv_nth)
  next
    case (Suc i)
    then have "(pre @ p) ! (length pre + j - 1) = p ! i" by simp
    then show ?thesis using assms(4,5) Suc by (metis Suc_le_eq nth_mem)
  qed
  finally show "filePath ! (length pre + j - 1) \<noteq> 0" .
qed

text \<open>The loop skips over the characters of a component.\<close>

lemma walk_skip:
  assumes path: "filePath = pre @ p @ d # post" "pre \<noteq> []" "last pre \<noteq> 0" and p: "component p" and "j \<le> length p"
  shows "walk_path B none err filePath start (length pre + j) c fi s =
    walk_path B none err filePath start (length pre + length p) c fi s"
  using \<open>j \<le> length p\<close>
proof (induction "length p - j" arbitrary: j)
  case (Suc n)
  then have j: "j < length p" by simp
  then have at: "aget filePath (length pre + j) = ret (p ! j)"
    using path(1) by (simp add: aget_def nth_append)
  have "p ! j \<noteq> 0x5C" "p ! j \<noteq> 0"
    using j p nth_mem by (metis component_def)+
  then have "walk_path B none err filePath start (length pre + j) c fi s =
      walk_path B none err filePath start (length pre + Suc j) c fi s"
    using at path_before [OF path(1-3) _ Suc(3)] p
    by (subst walk_path.simps) (simp add: component_def)
  also have "\<dots> = walk_path B none err filePath start (length pre + length p) c fi s"
    using j Suc by (intro Suc.hyps(1)) auto
  finally show ?case .
qed simp

lemma path_part_component:
  assumes "filePath = pre @ p @ r" "component p" "unat start = length pre" "length filePath < 65536"
  shows "path_part filePath start (length pre + length p) = ret (p @ replicate (256 - length p) 0)"
proof -
  have "unat (of_nat (length pre + length p) - ucast start :: u32) = length p"
  proof -
    have "(of_nat (length pre + length p) :: u32) = ucast start + of_nat (length p)"
      unfolding assms(3) [symmetric] by (simp add: word_unat_eq_iff unat_word_ariths unat_of_nat)
    then show ?thesis using assms(2) by (simp add: component_def)
  qed
  then show ?thesis
    using assms by (simp add: path_part_def ablit_def component_def Let_def)
qed

text \<open>The search for a component does not look behind its end.\<close>

lemma strcpy_tail: "0 \<notin> set p \<Longrightarrow> strcpy dest (p @ 0 # r) = strcpy dest (p @ [0])"
proof (induction p arbitrary: dest)
  case Nil
  then show ?case by (cases dest) simp_all
next
  case (Cons c p)
  then show ?case by (cases dest) simp_all
qed

lemma search_name_tail: "0 \<notin> set p \<Longrightarrow> search_name (p @ 0 # r) = search_name (p @ [0])"
  by (simp add: search_name_def strcpy_tail [of p _ r])

text \<open>A step of the walk: the component is looked up, and the walk ends or goes on.\<close>

lemma walk_component:
  fixes s :: "('d, 'z) fat_scheme"
  assumes dev: "ata_on B drv" "uart_ready B" and s: "fat32_vol drv s"
    and path: "filePath = pre @ p @ d # post" "pre \<noteq> []" "last pre \<noteq> 0" "length filePath < 65536"
    and p: "component p" and d: "d = 0x5C \<or> d = 0" and e: "dir_entry drv s c p r"
  shows "\<exists>t. vol_step drv s t \<and> walk_path B none err filePath (of_nat (length pre)) (length pre) c (Ref x) s =
    (case r of
       None \<Rightarrow> bnd (none t) (\<lambda>(r, s). ret (r, c, Ref x, s))
     | Some e \<Rightarrow> walk_path B none err filePath (of_nat (length pre + length p + 1)) (length pre + length p + 1)
         (entry_cluster e) (Ref (Some e)) t)"
proof -
  let ?part = "p @ replicate (256 - length p) 0" and ?n = "length pre + length p"
  obtain k where k: "?part = p @ 0 # replicate k 0"
    using p by (cases "256 - length p") (auto simp: component_def)
  obtain cs nm where cs: "chain drv s cs" "hd cs = c" "search_name (p @ [0]) = ret nm" "11 \<le> length nm"
    "0 \<notin> set (take 11 nm)"
    "r = map_option (\<lambda>kb. directory_entry_of (snd kb)) (dir_lookup (take 11 nm) (dir_slots drv s cs))"
    using e unfolding dir_entry_def by blast
  have "search_name ?part = ret nm"
    using cs(3) p search_name_tail [of p "replicate k 0"] by (simp add: k component_def)
  then obtain t where t: "vol_step drv s t" "directorySearch B ?part c (Ref x) Null s =
      ret (case dir_lookup (take 11 nm) (dir_slots drv s cs) of
        Some (k, b) \<Rightarrow> (0, assign (Ref x) (directory_entry_of b), assign Null (of_nat k), t)
      | None \<Rightarrow> (-2, Ref x, Null, t))"
    using directorySearch_chain [OF dev _ cs(4,5) s cs(1), of ?part "Ref x" Null] cs(2) by blast
  have ft: "fat_type t = 32" using fat32_vol_type [OF vol_step_view(4) [OF t(1)]] .
  have at: "aget filePath ?n = ret d"
    using path(1) by (simp add: aget_def nth_append)
  have start: "unat (of_nat (length pre) :: u16) = length pre"
    using path(1,4) by (simp add: unat_of_nat)
  note part = path_part_component [OF path(1) p start path(4)]
  have np: "0 \<notin> set p" using p by (simp add: component_def)
  note before = path_before [OF path(1-3) np order_refl]
  have "walk_path B none err filePath (of_nat (length pre)) ?n c (Ref x) s = (case r of
       None \<Rightarrow> bnd (none t) (\<lambda>(r, s). ret (r, c, Ref x, s))
     | Some e \<Rightarrow> walk_path B none err filePath (of_nat (?n + 1)) (?n + 1) (entry_cluster e) (Ref (Some e)) t)"
    using at part before d t(2) cs(6) ft
    by (subst walk_path.simps)
      (auto simp: GET_CLUSTER_FROM_ENTRY_def entry_cluster_def split: option.splits)
  then show ?thesis
    using walk_skip [OF path(1-3) p, of 0, where B = B and none = none and err = err] t(1)
    by (intro exI [of _ t]) simp
qed

lemma walk_end:
  assumes "filePath = pre @ [0]" "pre \<noteq> []"
  shows "walk_path B none err filePath start (length pre + 1) c fi s = ret (0, c, fi, s)"
  using assms by (subst walk_path.simps) (simp add: aget_def)

lemma dir_entry_vol: "vol_step drv s t \<Longrightarrow> dir_entry drv t = dir_entry drv s"
  using vol_step_chain by (fastforce simp: dir_entry_def fun_eq_iff)

lemma walk_path_leads:
  assumes dev: "ata_on B drv" "uart_ready B" and "leads_to drv s c ps r"
  shows "vol_step drv s t \<Longrightarrow> filePath = pre @ path_bytes ps \<Longrightarrow> pre \<noteq> [] \<Longrightarrow> last pre \<noteq> 0 \<Longrightarrow>
    length filePath < 65536 \<Longrightarrow> list_all component ps \<Longrightarrow>
    \<exists>u fi c'. vol_step drv s u \<and> walk_path B none err filePath (of_nat (length pre)) (length pre) c (Ref x) t =
      (case r of None \<Rightarrow> bnd (none u) (\<lambda>(r, s). ret (r, c', Ref fi, s))
       | Some e \<Rightarrow> ret (0, entry_cluster e, Ref (Some e), u))"
  using assms(3)
proof (induction arbitrary: t pre x rule: leads_to.induct)
  case (missing c p ps)
  obtain d post where "path_bytes (p # ps) = p @ d # post" "d = 0x5C \<or> d = 0"
    by (cases ps) auto
  then show ?case
    using walk_component [OF dev vol_step_view(4) [OF missing(2)], of filePath pre p d post c None none err x]
      missing vol_step_trans [OF missing(2)] dir_entry_vol [OF missing(2)] by fastforce
next
  case (target c p e)
  then obtain u where "vol_step drv t u" "walk_path B none err filePath (of_nat (length pre)) (length pre) c (Ref x) t =
      walk_path B none err filePath (of_nat (length pre + length p + 1)) (length pre + length p + 1)
         (entry_cluster e) (Ref (Some e)) u"
    using walk_component [OF dev vol_step_view(4) [OF target(2)], of filePath pre p 0 "[]" c "Some e" none err x]
      dir_entry_vol [OF target(2)] by auto
  then show ?case
    using walk_end [of filePath "pre @ p"] target(3,4) vol_step_trans [OF target(2)] by fastforce
next
  case (enter c p e q ps r)
  have path: "filePath = pre @ p @ 0x5C # path_bytes (q # ps)" using enter.prems(2) by simp
  obtain u where u: "vol_step drv t u" "walk_path B none err filePath (of_nat (length pre)) (length pre) c (Ref x) t =
      walk_path B none err filePath (of_nat (length pre + length p + 1)) (length pre + length p + 1)
         (entry_cluster e) (Ref (Some e)) u"
    using walk_component [OF dev vol_step_view(4) [OF enter.prems(1)] path, of c "Some e" none err x]
      dir_entry_vol [OF enter.prems(1)] enter.hyps(1) enter.prems by auto
  then show ?case
    using enter.IH [OF vol_step_trans [OF enter.prems(1) u(1)], of "pre @ p @ [0x5C]" "Some e"] path enter.prems
    by (simp add: add.assoc)
qed

subsection \<open>Properties\<close>

definition full_path :: "u8 list list \<Rightarrow> u8 list" where
  "full_path ps = lit ''C:'' @ [0x5C] @ path_bytes ps"

lemma getFile_walk:
  fixes s :: "('d, 'z) fat_scheme"
  assumes dev: "ata_on B drv" "uart_ready B" and s: "fat32_vol drv s"
    and path: "leads_to drv s (root_of s) ps r" "list_all component ps" "length (full_path ps) < 65536"
  shows "\<exists>u. vol_step drv s u \<and> getFile B (full_path ps) (Ref a) (Ref m) off s =
    (case r of None \<Rightarrow> ret (-2, Ref a, Ref m, u)
     | Some e \<Rightarrow> read_file B (Ref a) (Ref (Some e)) off e u)"
proof -
  let ?err = "complain B ''Function getFile: An error occurred in directorySearch. Aborting...'' (-1)"
  obtain u fi c where u: "vol_step drv s u"
    "walk_path B (\<lambda>s. ret (-2, s)) ?err (full_path ps) 3 3 (root_of s) (Ref None) s =
      (case r of None \<Rightarrow> ret (-2, c, Ref fi, u) | Some e \<Rightarrow> ret (0, entry_cluster e, Ref (Some e), u))"
    using walk_path_leads [OF dev path(1) vol_step_refl [OF s], of "full_path ps" "lit ''C:'' @ [0x5C]"
        "\<lambda>s. ret (-2, s)" ?err None] path(2,3)
    by (auto simp: full_path_def numeral_3_eq_3 split: option.splits)
  show ?thesis
    using u fat32_vol_type [OF s]
    by (intro exI [of _ u]) (auto simp: getFile_def split: option.splits)
qed

lemma getFile_file:
  assumes "ata_on B drv" "uart_ready B" "fat32_vol drv s"
    and "leads_to drv s (root_of s) ps (Some e)" "list_all component ps" "length (full_path ps) < 65536"
    and "attributes e AND FILE_DIRECTORY = 0" "1 \<le> off" "off * 512 + file_size e \<le> 262144"
    and "chain drv s (entry_cluster e # cs)" "512 * (unat off + length cs + 1) \<le> 0x78000"
  shows "\<exists>u. getFile B (full_path ps) (Ref a) (Ref m) off s =
      ret (0, Ref (Some (block_at (unat off))), Ref (Some e), u)
    \<and> mem_read (ram u) (block_at (unat off)) (512 * (length cs + 1)) =
        concat (map (cluster_data drv s) (entry_cluster e # cs))
    \<and> disk drv u = disk drv s"
proof -
  obtain t where t: "vol_step drv s t" "getFile B (full_path ps) (Ref a) (Ref m) off s =
      read_file B (Ref a) (Ref (Some e)) off e t"
    using getFile_walk [OF assms(1-6), of a m off] by auto
  note v = vol_step_view [OF t(1)] vol_step_chain [OF t(1)]
  have off: "0 + off = of_nat (unat off)" "1 \<le> unat off"
    using assms(8) by (simp_all add: word_le_nat_alt)
  obtain u where u: "read_chain B off (uint (entry_cluster e)) 0 t = ret (0, u)" "vol_step drv t u"
    "mem_read (ram u) (block_at (unat off)) (512 * length (entry_cluster e # cs)) =
       concat (map (cluster_data drv t) (entry_cluster e # cs))"
    using read_chain_ok [OF assms(1,2) v(4) _ off, of "entry_cluster e # cs"] assms(10,11) v(8)
    by (auto simp: add.assoc)
  have on: "on_volume s (entry_cluster e)" "on_volume t (entry_cluster e)"
    using chain_hd [OF assms(10)] v(3) by simp_all
  have cb: "cluster_bytes t = 512" "cluster_bytes u = 512"
    using fat32_vol_cluster(4) [OF v(4) on(2)] fat_fields [of u t] u(2)
    by (simp_all add: cluster_bytes_def vol_step_def)
  have "read_file B (Ref a) (Ref (Some e)) off e t = ret (0, Ref (Some (block_at (unat off))), Ref (Some e), u)"
    using assms(7-9) u(1) cb on_volume_small(2) [OF assms(3) on(1)] fat32_vol_type [OF v(4)]
      leD [OF assms(8)] leD [OF assms(9)]
    by (simp add: read_file_def GET_CLUSTER_FROM_ENTRY_def entry_cluster_def block_at_def FILE_DIRECTORY_def)
  then show ?thesis
    using t(2) u v(2) vol_step_trans [OF t(1) u(2)] by (auto simp: vol_step_def)
qed

text \<open>C3: reading a file gives its bytes. On a FAT32 volume with clusters of one sector, for a path of
  the form \<open>C:\\a\\b\\...\<close> through directories with well-formed chains that leads to a file, not a directory,
  \<open>getFile\<close> returns 0, the entry of the file and the address of the clusters of the file, in order; the disk is
  unchanged. The clusters of the file form a chain and fit in the transfer area behind the given offset, which is at
  least 1, and the offset in bytes plus the size of the file, in 32 bits, is at most 262144.\<close>

theorem getFile_reads_file:
  assumes "ata_on B drv" "uart_ready B" "fat32_vol drv s"
    and "leads_to drv s (root_of s) ps (Some e)" "list_all component ps" "length (full_path ps) < 65536"
    and "attributes e AND FILE_DIRECTORY = 0" "1 \<le> off" "off * 512 + file_size e \<le> 262144"
    and "chain drv s (entry_cluster e # cs)" "512 * (unat off + length cs + 1) \<le> 0x78000"
  shows "\<exists>u. getFile B (full_path ps) (Ref a) (Ref m) off s =
      ret (0, Ref (Some (block_at (unat off))), Ref (Some e), u)
    \<and> mem_read (ram u) (block_at (unat off)) (512 * (length cs + 1)) =
        concat (map (cluster_data drv s) (entry_cluster e # cs))
    \<and> disk drv u = disk drv s"
  using getFile_file [OF assms] .

lemma sample_root [simp]: "root_of sample_vol = 2"
proof -
  have "root_of sample_vol = le32 2 0 0 0"
    by (simp add: root_of_def extBS_32_of_def get32_def) (simp add: sample_boot_def nth_append nth_Cons')
  then show ?thesis by (simp add: le32_def)
qed

lemma sample_path: "leads_to (\<lambda>a. a) sample_vol (root_of sample_vol) [lit ''boot.c''] (Some sample_entry)"
proof (rule leads_to.target)
  have "search_name (lit ''boot.c'' @ [0]) = ret (lit ''BOOT    C  '' @ [0, 0])"
    using search_name_boot by (simp add: cstr_def)
  then show "dir_entry (\<lambda>a. a) sample_vol (root_of sample_vol) (lit ''boot.c'') (Some sample_entry)"
    unfolding dir_entry_def
    using sample_lookup sample_vol_chain(1)
    by (intro exI [of _ "[2]"] exI [of _ "lit ''BOOT    C  '' @ [0, 0]"])
      (simp add: directory_entry_bytes del: chain.simps, simp add: lit_def)
qed

theorem getFile_reads_file_witness:
  "\<exists>u. getFile ata_bus (full_path [lit ''boot.c'']) (Ref None) (Ref None) 1 sample_vol =
      ret (0, Ref (Some (block_at 1)), Ref (Some sample_entry), u)
    \<and> mem_read (ram u) (block_at 1) 512 = lit ''hello'' @ replicate 507 0"
proof -
  have e: "attributes sample_entry AND FILE_DIRECTORY = 0" "file_size sample_entry = 5" "entry_cluster sample_entry = 3"
    by (simp_all add: sample_entry_def directory_entry_of_def entry_cluster_def get16_def le16_def)
  have "list_all component [lit ''boot.c'']" "length (full_path [lit ''boot.c'']) < 65536"
    by (simp_all add: component_def lit_def full_path_def)
  then show ?thesis
    using getFile_reads_file [OF ata_bus_on sample_vol_ok(1) sample_path, of 1 "[]" None None] e sample_vol_chain(2)
    by (auto simp: sample_vol_data simp del: chain.simps)
qed

text \<open>C29: a path with a missing component is reported. On a FAT32 volume with clusters of one sector, for a path of
  the form \<open>C:\\a\\b\\...\<close> whose components have a proper 8.3 form and whose directories up to the missing
  component have well-formed chains, if the component has no entry in its directory, \<open>getFile\<close> returns -2,
  hands back nothing and changes no sector.\<close>

theorem getFile_not_found:
  assumes "ata_on B drv" "uart_ready B" "fat32_vol drv s"
    and "leads_to drv s (root_of s) ps None" "list_all component ps" "length (full_path ps) < 65536"
  shows "\<exists>u. getFile B (full_path ps) (Ref a) (Ref m) off s = ret (-2, Ref a, Ref m, u) \<and> disk drv u = disk drv s"
  using getFile_walk [OF assms, of a m off] by (auto simp: vol_step_def)

theorem getFile_not_found_witness:
  "\<exists>u. getFile ata_bus (full_path [lit ''x.c'']) (Ref None) (Ref None) 1 sample_vol = ret (-2, Ref None, Ref None, u)"
proof -
  have "search_name (lit ''x.c'' @ [0]) = ret (lit ''X       C  '' @ [0, 0])"
    using search_name_typed [of "lit ''x''" "lit ''c''" "cstr ''x.c''"]
    by (simp add: plain_def terminated_def typed_def name83_def uppercase_def replicate_numeral lit_def cstr_def)
  moreover have "dir_lookup (lit ''X       C  '') (dir_slots (\<lambda>a. a) sample_vol [2]) = None"
  proof -
    have "take 11 (entry_bytes sample_entry) = lit ''BOOT    C  ''"
      by (simp add: entry_bytes_def) (simp add: sample_entry_def)
    then have "take 11 (entry_bytes sample_entry) \<noteq> lit ''X       C  ''"
      by (simp add: lit_def)
    then show ?thesis
      by (simp add: dir_slots_def sample_vol_data slots_one length_entry_bytes dir_lookup_def live_slot_def
          ENTRY_END_def upt_conv_Cons)
  qed
  ultimately have "dir_entry (\<lambda>a. a) sample_vol 2 (lit ''x.c'') None"
    unfolding dir_entry_def using sample_vol_chain(1)
    by (intro exI [of _ "[2]"] exI [of _ "lit ''X       C  '' @ [0, 0]"])
      (simp del: chain.simps, simp add: lit_def)
  then have "leads_to (\<lambda>a. a) sample_vol (root_of sample_vol) [lit ''x.c''] None"
    by (simp add: leads_to.missing)
  moreover have "list_all component [lit ''x.c'']" "length (full_path [lit ''x.c'']) < 65536"
    by (simp_all add: component_def lit_def full_path_def)
  ultimately show ?thesis
    using getFile_not_found [OF ata_bus_on sample_vol_ok(1), of "[lit ''x.c'']" None None 1] by blast
qed

text \<open>C30: an existing file is not overwritten. On a FAT32 volume with clusters of one sector, if the root directory
  has a well-formed chain and an entry of the 8.3 name, \<open>putFile\<close> into the root directory returns -3 and
  changes no sector. The extension has no or three characters, or the stale byte of the name buffer behind a shorter one
  is a space; low memory is harmless as a format.\<close>

theorem putFile_keeps_existing_file:
  assumes "ata_on B drv" "uart_ready B" "fat32_vol drv s" "benign (ram s)"
    and "good83 b e" "file_name m = name83 b e"
    and "length stale = 13" "length e = 0 \<or> length e = 3 \<or> stale ! (length b + 1 + length e) = 0x20"
    and "chain drv s cs" "hd cs = root_of s" "dir_lookup (name83 b e) (dir_slots drv s cs) \<noteq> None"
  shows "\<exists>t. putFile B stale stale' (cstr (''C:'' @ [CHR 0x5C])) body m s = ret (-3, m, t) \<and> disk drv t = disk drv s"
proof -
  obtain shown found where shown: "convertFromFATFormat (name83 b e) stale = ret shown"
    "search_name shown = ret found" "take 11 found = name83 b e"
    using round_trip_name [OF assms(5,7,8)] .
  have "length (name83 b e) = 11" using assms(5) by (simp add: name83_def good83_def)
  then have "length (take 11 found) = 11" unfolding shown(3) .
  then have nm: "11 \<le> length found" by simp
  have nul: "0 \<notin> set (take 11 found)"
    unfolding shown(3) using name83_no_NUL [OF assms(5)] .
  obtain k x where "dir_lookup (take 11 found) (dir_slots drv s cs) = Some (k, x)"
    using assms(11) shown(3) by auto
  then obtain t where t: "vol_step drv s t" "data_frame s t"
    "directorySearch B shown (root_of s) Null Null s = ret (0, Null, Null, t)"
    using directorySearch_chain [OF assms(1,2) shown(2) nm nul assms(3,9), of Null Null] assms(4,10) by auto
  note v = vol_step_view [OF t(1)]
  have msg: "ascii (lit ''Function putFile: a file matching the name given already exists. Aborting...'')"
    by (simp add: ascii_def lit_def)
  obtain ds where ds: "complain B ''Function putFile: a file matching the name given already exists. Aborting...'' (-3) t =
      ret (-3 :: int, terminal_write B ds t)"
    using complain_benign [OF msg fat32_vol_tty [OF v(4)] benign_data_frame [OF t(2) assms(4)], of B "-3 :: int"] by blast
  obtain i where i: "root_info (fat_type s) (root_of s) = ret i"
    using fat32_vol_type [OF assms(3)] by (simp add: root_info_def GET_ENTRY_HIGH_BITS_def)
  have "strcmp (cstr (''C:'' @ [CHR 0x5C])) (cstr (''C:'' @ [CHR 0x5C])) = ret 0"
    by (simp add: cstr_def lit_def)
  then have "putFile B stale stale' (cstr (''C:'' @ [CHR 0x5C])) body m s = ret (-3, m, terminal_write B ds t)"
    using test_name83 [OF assms(5), of "[]"] assms(6) shown(1) t(3) ds i fat32_vol_type [OF assms(3)] by (simp add: putFile_def)
  moreover have "disk drv (terminal_write B ds t) = disk drv s"
    using write_vol(1) [OF assms(1) v(4)] t(1) by (simp add: vol_step_def)
  ultimately show ?thesis by blast
qed

theorem putFile_keeps_existing_file_witness:
  "\<exists>t. putFile ata_bus (replicate 13 0x20) [] (cstr (''C:'' @ [CHR 0x5C])) 0x1000 sample_entry sample_vol =
    ret (-3, sample_entry, t)"
proof -
  have name: "name83 (lit ''BOOT'') (lit ''C'') = lit ''BOOT    C  ''"
    by (simp add: name83_def lit_def replicate_numeral)
  have good: "good83 (lit ''BOOT'') (lit ''C'')"
    by (simp add: good83_def fat_char_def lit_def test_byte_def)
  have "file_name sample_entry = name83 (lit ''BOOT'') (lit ''C'')"
    unfolding name by (simp add: sample_entry_def)
  moreover have "dir_lookup (name83 (lit ''BOOT'') (lit ''C'')) (dir_slots (\<lambda>a. a) sample_vol [2]) \<noteq> None"
    unfolding name sample_lookup by simp
  moreover have "hd [2] = root_of sample_vol"
    "replicate 13 (0x20 :: u8) ! (length (lit ''BOOT'') + 1 + length (lit ''C'')) = 0x20"
    by simp_all
  ultimately show ?thesis
    using putFile_keeps_existing_file [OF ata_bus_on sample_vol_ok good _ _ _ sample_vol_chain(1), of sample_entry
        "replicate 13 0x20" "[]" "0x1000"] by fastforce
qed

end
