(* ===== verification/FatWrite.thy ===== *)
theory FatWrite
  imports FatFile
begin

unbundle bit_operations_syntax

section \<open>The data of a new file\<close>

text \<open>
  What the loop of \<open>putFile\<close> in \<^verbatim>\<open>kernel/arch/i386/FAT.c\<close> leaves on a FAT32 volume with clusters
  of one sector. A body is stored along a chain of clusters that were free, without the
  byte after each full cluster; the read loop of \<open>getFile\<close> returns what is stored. A body that
  leaves exactly one cluster for a round is stored but not recognised as complete.
\<close>

lemma clusterWrite_body:
  fixes s :: "('d, 'z) fat_scheme"
  assumes dev: "ata_on B drv" "uart_ready B" and s: "fat32_vol drv s" "on_volume s n"
    and src: "unat src + unat sz \<le> 2 ^ 32" "unat sz \<le> 513" "apart (DISK_WRITE_LOCATION + 512) (unat sz) src (unat sz)"
  defines "m \<equiv> mem_write (ram s) (DISK_WRITE_LOCATION + 512) (mem_read (ram s) src (unat sz))"
  shows "\<exists>t. clusterWrite B src sz 1 n s = ret (0, t) \<and> fat32_vol drv t \<and> tty.more t = tty.more s \<and> ram t = m
    \<and> disk drv t = set_sector (disk drv s) (start_sect n s) (mem_read m (DISK_WRITE_LOCATION + 512) 512)"
proof -
  note c = fat32_vol_cluster [OF s]
  have ready: "drive_ok (drv (dev s))" "mode (drv (dev s)) = Idle"
    using s(1) by (simp_all add: fat32_vol_def fat32_ok_def disk_ready_def)
  have "memcpy (DISK_WRITE_LOCATION + 512) src sz (ram s) = m"
    unfolding m_def using src by (intro memcpy_block) (simp_all add: DISK_WRITE_LOCATION_def)
  moreover obtain d where d: "int13h_write_o B (start_sect n s) 1 512 (s\<lparr>ram := m\<rparr>) = ret (0, s\<lparr>ram := m, dev := d\<rparr>)"
    "mode (drv d) = Idle" "drive_ok (drv d)"
    "sectors (drv d) = put_run (sectors (drv (dev s))) (start_sect n s + part_start_lba)
      (mem_read m (DISK_WRITE_LOCATION + 512) 512) 1"
    using int13h_write_o_ok [OF dev, of "s\<lparr>ram := m\<rparr>" "start_sect n s" 1 512] ready c(2,3)
    by (auto simp: in_partition_def)
  moreover have "start_sect n (s\<lparr>ram := m\<rparr>) = start_sect n s" by (simp add: start_sect_def)
  ultimately have "clusterWrite B src sz 1 n s = ret (0, s\<lparr>ram := m, dev := d\<rparr>)"
    using s(2) c(3,4) by (auto simp: clusterWrite_def on_volume_def Let_def)
  moreover have "disk drv (s\<lparr>ram := m, dev := d\<rparr>) =
      set_sector (disk drv s) (start_sect n s) (mem_read m (DISK_WRITE_LOCATION + 512) 512)"
    using d(4) by (auto simp: disk_def set_sector_def fun_eq_iff)
  moreover have "fat32_vol drv (s\<lparr>ram := m, dev := d\<rparr>)"
    using s(1) d(2,3) by (simp add: fat32_vol_def fat32_ok_def disk_ready_def tty_ok_def)
  ultimately show ?thesis by auto
qed

lemma buffer_benign:
  assumes "benign m" "length bs \<le> 513"
  shows "benign (mem_write m (DISK_WRITE_LOCATION + 512) bs)"
proof -
  have "mem_write m (DISK_WRITE_LOCATION + 512) bs a = m a" if "a < 0x400" for a
  proof (rule mem_write_out)
    have "unat a < 0x400" using that by (simp add: word_less_nat_alt)
    then show "\<not> in_block (DISK_WRITE_LOCATION + 512) (length bs) a"
      using assms(2) by (subst in_block_unat) (simp_all add: DISK_WRITE_LOCATION_def)
  qed
  then show ?thesis using assms(1) benign_cong by blast
qed

text \<open>The area of a body: in memory, off the screen and off the buffers of the disk driver.\<close>

definition body_area :: "u32 \<Rightarrow> nat \<Rightarrow> bool" where
  "body_area a n \<longleftrightarrow> unat a + n \<le> 2 ^ 32 \<and> apart VGA_MEMORY 4000 a n \<and> apart DISK_READ_LOCATION 1025 a n"

text \<open>The part of a round after the data of a cluster, and the loop with it.\<close>

definition write_next ::
  "'d bus \<Rightarrow> u32 \<Rightarrow> u32 \<Rightarrow> u32 \<Rightarrow> u32 \<Rightarrow> ('d, 'z) fat_scheme \<Rightarrow> (int \<times> ('d, 'z) fat_scheme) comp" where
  "write_next B body sz active_cluster left s =
     bnd (allocateFreeFAT B s) (\<lambda>(new_cluster, s).
       if bad_cluster (fat_type s) new_cluster then
         complain B ''Function putFile: allocateFreeFAT encountered an error. Aborting...'' (-1) s
       else bnd (FATWrite B active_cluster new_cluster s) (\<lambda>(r, s).
         if r \<noteq> 0 then complain B ''Function putFile: FATWrite encountered an error. Aborting...'' (-1) s
         else write_chain B body sz new_cluster left s))"

lemma write_chain_unfold:
  "write_chain B body sz c left s =
     (if 0 < left then
        bnd (d_printhex B left 8 s) (\<lambda>s.
        bnd (d_printss B (cstr [CHR 0x0A]) s) (\<lambda>s.
        let w = (if cluster_bytes s \<le> left then cluster_bytes s + 1 else left) in
        bnd (clusterWrite B (body + (sz - left)) w 1 c s) (\<lambda>(r, s).
          if r \<noteq> 0 then complain B ''Function putFile: clusterWrite encountered an error. Aborting...'' (-1) s
          else if left - w = 0 then ret (0, s) else write_next B body sz c (left - w) s)))
      else ret (0, s))"
  unfolding write_next_def by (rule write_chain.simps)

lemma data_frame_body:
  assumes "data_frame s t" "body_area a n"
  shows "mem_read (ram t) a n = mem_read (ram s) a n"
proof (rule mem_read_cong)
  fix i
  assume "i < n"
  then have "in_block a n (a + of_nat i)" using assms(2) by (simp add: body_area_def)
  then show "ram t (a + of_nat i) = ram s (a + of_nat i)"
    using assms unfolding data_frame_def body_area_def apart_def by blast
qed

text \<open>One round of the loop, with \<open>left\<close> bytes of the body still to write.\<close>

lemma write_round:
  fixes s :: "('d, 'z) fat_scheme" and body sz left :: u32
  assumes dev: "ata_on B drv" "uart_ready B" and s: "fat32_vol drv s" "on_volume s c" "benign (ram s)"
    and left: "0 < left"
  defines "w \<equiv> if left < 512 then left else 513" and "k \<equiv> min 512 (unat left)" and "a \<equiv> body + (sz - left)"
  assumes area: "body_area a (unat w)"
  shows "\<exists>t data. fat32_vol drv t \<and> benign (ram t) \<and> tty.more t = tty.more s \<and> data_frame s t
    \<and> length data = 512 \<and> take k data = mem_read (ram s) a k
    \<and> disk drv t = set_sector (disk drv s) (start_sect c s) data
    \<and> write_chain B body sz c left s = (if left - w = 0 then ret (0, t) else write_next B body sz c (left - w) t)"
proof -
  obtain d1 where d1: "d_printhex B left 8 s = ret (terminal_write B d1 s)"
    using saysD [OF says_printhex] fat32_vol_tty [OF s(1)] s(3) by blast
  let ?a = "terminal_write B d1 s"
  have step_a: "vol_step drv s ?a" "off_screen (ram ?a) (ram s)" "benign (ram ?a)"
    using write_vol [OF dev(1) s(1)] benign_write [OF fat32_vol_tty [OF s(1)] s(3)] by blast+
  note va = vol_step_view [OF step_a(1)]
  have nl: "ascii (lit [CHR 0x0A])" by (simp add: ascii_def lit_def)
  obtain d2 where d2: "d_printss B (cstr [CHR 0x0A]) ?a = ret (terminal_write B d2 ?a)"
    using saysD [OF says_printss [OF nl]] fat32_vol_tty [OF va(4)] step_a(3) by blast
  let ?b = "terminal_write B d2 ?a"
  have b: "vol_step drv s ?b" "off_screen (ram ?b) (ram s)" "benign (ram ?b)"
    using vol_step_trans [OF step_a(1) write_vol(1) [OF dev(1) va(4)]]
      off_screen_trans [OF write_vol(2) [OF dev(1) va(4)] step_a(2)]
      benign_write [OF fat32_vol_tty [OF va(4)] step_a(3)] by blast+
  note vb = vol_step_view [OF b(1)]
  have on: "on_volume ?b c" using s(2) vb(3) by simp
  have w: "unat w \<le> 513" "k \<le> unat w" "k \<le> 512"
    by (auto simp: w_def k_def word_less_nat_alt)
  have dw: "(if cluster_bytes ?b \<le> left then cluster_bytes ?b + 1 else left) = w"
    using fat32_vol_cluster(4) [OF vb(4) on] by (auto simp: w_def not_less)
  let ?bs = "mem_read (ram ?b) a (unat w)"
  let ?m = "mem_write (ram ?b) (DISK_WRITE_LOCATION + 512) ?bs"
  let ?data = "mem_read ?m (DISK_WRITE_LOCATION + 512) 512"
  have "apart (DISK_WRITE_LOCATION + 512) (unat w) a (unat w)"
    using area in_buffers(2) [OF w(1)] unfolding body_area_def apart_def by blast
  then obtain t where t: "clusterWrite B a w 1 c ?b = ret (0, t)" "fat32_vol drv t" "tty.more t = tty.more ?b"
    "ram t = ?m" "disk drv t = set_sector (disk drv ?b) (start_sect c ?b) ?data"
    using clusterWrite_body [OF dev vb(4) on _ w(1), of a] area by (auto simp: body_area_def)
  have bs: "?bs = mem_read (ram s) a (unat w)"
    using off_screen_apart [OF b(2), of a "unat w"] area w(1) by (simp add: body_area_def)
  have "take k ?data = take k ?bs"
    using w by (intro nth_take_lemma [of k ?data ?bs, simplified]) auto
  then have "take k ?data = mem_read (ram s) a k"
    unfolding bs using w(2) by (simp add: take_mem_read)
  moreover have "write_chain B body sz c left s = (if left - w = 0 then ret (0, t) else write_next B body sz c (left - w) t)"
    using left d1 d2 t(1) unfolding a_def
    by (subst write_chain_unfold) (simp add: Let_def dw cong: if_cong split del: if_split)
  moreover have "tty.more t = tty.more s" "disk drv ?b = disk drv s" "start_sect c ?b = start_sect c s"
    using t(3) b(1) fat_fields [of ?b s] by (simp_all add: vol_step_def start_sect_def)
  moreover have "benign (ram t)" using buffer_benign [OF b(3), of ?bs] w(1) t(4) by simp
  moreover have "data_frame s t"
    using b(2) in_buffers(2) [OF w(1)] unfolding data_frame_def off_screen_def t(4)
    by (metis length_mem_read mem_write_out)
  ultimately show ?thesis
    using t(2,5) by (intro exI [of _ t] exI [of _ ?data]) simp
qed

lemma FATWrite_vol:
  fixes s :: "('d, 'z) fat_scheme"
  assumes dev: "ata_on B drv" "uart_ready B" and s: "fat32_vol drv s" "on_volume s n"
    and v: "v AND 0x0FFFFFFF = v"
  shows "\<exists>t. FATWrite B n v s = ret (0, t) \<and> fat32_vol drv t \<and> table_frame drv s t
    \<and> (\<forall>m. fat_entry drv t m = (if m = n then v else fat_entry drv s m))"
proof -
  have n: "fat32_ok drv s" "2 \<le> n" "n < total_clusters s"
    using s by (simp_all add: fat32_vol_def on_volume_def)
  obtain t where t: "FATWrite B n v s = ret (0, t)" "fat32_ok drv t" "tty.more t = tty.more s"
    "\<forall>m. fat_raw drv t m = (if m = n then v else fat_raw drv s m)" "\<forall>l. l \<noteq> fat_sec s n \<longrightarrow> disk drv t l = disk drv s l"
    "off_screen (ram t) (mem_write (ram s) DISK_READ_LOCATION (disk drv t (fat_sec s n)))"
    using FATWrite_ok [OF dev n] by blast
  have "length (disk drv t (fat_sec s n)) = 512"
    using block_device.sect_length [OF int13h_block_device [OF dev], of t] t(2) by (simp add: fat32_ok_def)
  then have "table_frame drv s t"
    using t(3,5,6) n(3) by (intro table_frameI [of t s "disk drv t (fat_sec s n)"]) auto
  moreover have "fat32_vol drv t"
    using s(1) t(2) unfolding fat32_vol_def fat_fields [OF t(3)] by blast
  ultimately show ?thesis
    using t(1,4) v by (auto simp: fat_entry_def)
qed

subsection \<open>Linking a new cluster\<close>

definition free_clusters :: "('d \<Rightarrow> ata) \<Rightarrow> ('d, 'z) fat_scheme \<Rightarrow> u32 set" where
  "free_clusters drv s = {n. on_volume s n \<and> fat_entry drv s n = FREE_CLUSTER_32}"

lemma first_free_cluster:
  assumes "free_clusters drv s \<noteq> {}"
  obtains j where "2 + j < unat (total_clusters s)" "fat_entry drv s (2 + of_nat j) = FREE_CLUSTER_32"
    "\<And>i. i < j \<Longrightarrow> fat_entry drv s (2 + of_nat i) \<noteq> FREE_CLUSTER_32"
proof -
  let ?P = "\<lambda>j. 2 + j < unat (total_clusters s) \<and> fat_entry drv s (2 + of_nat j) = FREE_CLUSTER_32"
  obtain n where n: "on_volume s n" "fat_entry drv s n = FREE_CLUSTER_32"
    using assms by (auto simp: free_clusters_def)
  then have u: "2 \<le> unat n" "unat n < unat (total_clusters s)"
    by (simp_all add: on_volume_def word_le_nat_alt word_less_nat_alt)
  then have "2 + of_nat (unat n - 2) = n" by (simp add: of_nat_diff)
  then have "?P (unat n - 2)" using u n(2) by simp
  then obtain j where "?P j" "\<forall>i < j. \<not> ?P i" using exists_least_iff [of ?P] by blast
  then show ?thesis using that [of j] by auto
qed

lemma write_next_links:
  fixes s :: "('d, 'z) fat_scheme"
  assumes dev: "ata_on B drv" "uart_ready B" and s: "fat32_vol drv s" "on_volume s c" "benign (ram s)"
    and c: "fat_entry drv s c \<noteq> FREE_CLUSTER_32" and free: "free_clusters drv s \<noteq> {}"
  obtains d t where "write_next B body sz c left s = write_chain B body sz d left t"
    and "fat32_vol drv t" "benign (ram t)" "tty.more t = tty.more s" "data_frame s t"
    and "d \<in> free_clusters drv s" "d < END_CLUSTER_32"
    and "\<And>m. on_volume s m \<Longrightarrow> fat_entry drv t m = (if m = c then d else if m = d then END_CLUSTER_32 else fat_entry drv s m)"
    and "\<And>m. on_volume s m \<Longrightarrow> cluster_data drv t m = cluster_data drv s m"
proof -
  obtain j where j: "2 + j < unat (total_clusters s)" "fat_entry drv s (2 + of_nat j) = FREE_CLUSTER_32"
    "\<And>i. i < j \<Longrightarrow> fat_entry drv s (2 + of_nat i) \<noteq> FREE_CLUSTER_32"
    using first_free_cluster [OF free] by blast
  define d where "d = (2 + of_nat j :: u32)"
  obtain u where u: "allocateFreeFAT B s = ret (d, u)" "fat32_vol drv u" "table_frame drv s u"
    "\<not> bad_cluster 32 d" "on_volume s d"
    "\<forall>m. on_volume s m \<longrightarrow> fat_entry drv u m = (if m = d then END_CLUSTER_32 else fat_entry drv s m)"
    using allocate_vol [OF dev s(1) j(1,3,2)] unfolding d_def by blast
  have more: "tty.more u = tty.more s" using u(3) by (simp add: table_frame_def)
  have on: "on_volume u = on_volume s"
    using fat_fields [OF more] by (auto simp: on_volume_def fun_eq_iff)
  have small: "unat d < 2 ^ 24"
    using u(5) s(1) by (auto simp: on_volume_def fat32_vol_def part_length_def word_less_nat_alt)
  then have end_d: "d < END_CLUSTER_32" by (simp add: word_less_nat_alt END_CLUSTER_32_def)
  have "take_bit 28 d = d"
    using small by (simp add: word_unat_eq_iff unsigned_take_bit_eq take_bit_nat_eq_self)
  then have "d AND 0x0FFFFFFF = d" by (simp add: take_bit_eq_mask mask_numeral)
  then obtain t where t: "FATWrite B c d u = ret (0, t)" "fat32_vol drv t" "table_frame drv u t"
    "\<forall>m. fat_entry drv t m = (if m = c then d else fat_entry drv u m)"
    using FATWrite_vol [OF dev u(2)] s(2) on by metis
  show ?thesis
  proof (rule that [of d t])
    have "fat_type u = 32" using u(2) by (simp add: fat32_vol_def fat32_ok_def)
    then show "write_next B body sz c left s = write_chain B body sz d left t"
      using u(1,4) t(1) by (simp add: write_next_def)
    show "tty.more t = tty.more s" using more t(3) by (simp add: table_frame_def)
    show "data_frame s t" using data_frame_trans table_data_frame u(3) t(3) by blast
    show "benign (ram t)" using benign_table_frame u(3) t(3) s(3) by blast
    show "d \<in> free_clusters drv s" using u(5) j(2) by (simp add: free_clusters_def d_def)
    show "fat_entry drv t m = (if m = c then d else if m = d then END_CLUSTER_32 else fat_entry drv s m)"
      if "on_volume s m" for m using that t(4) u(6) by simp
    show "cluster_data drv t m = cluster_data drv s m" if "on_volume s m" for m
      using that on table_frame_data [OF s(1) u(3)] table_frame_data [OF u(2) t(3)] by simp
  qed (use t(2) end_d in simp_all)
qed

subsection \<open>The whole loop\<close>

text \<open>
  What the loop stores of a body: the position moves on by 513 bytes for a cluster of 512, so
  that the byte after each full cluster is left out. The number of clusters is that of the
  rounds.
\<close>

function stored :: "u8 list \<Rightarrow> u8 list" where
  "stored bs = (if length bs \<le> 512 then bs else take 512 bs @ stored (drop 513 bs))"
  by auto
termination by (relation "measure length") auto

declare stored.simps [simp del]

definition clusters_used :: "nat \<Rightarrow> nat" where
  "clusters_used n = (n + 512) div 513"

lemma clusters_used_step:
  "0 < n \<Longrightarrow> n \<le> 513 \<Longrightarrow> clusters_used n = 1"
  "513 < n \<Longrightarrow> clusters_used n = Suc (clusters_used (n - 513))"
  "513 < n \<Longrightarrow> 0 < clusters_used (n - 513)"
  by (auto simp: clusters_used_def div_eq_dividend_iff le_div_geq)

lemma stored_short: "length bs \<le> 513 \<Longrightarrow> stored bs = take 512 bs"
  by (simp add: stored.simps [of bs] stored.simps [of "[]"])

lemma stored_long: "512 < length bs \<Longrightarrow> stored bs = take 512 bs @ stored (drop 513 bs)"
  by (simp add: stored.simps [of bs])

lemma body_area_part:
  assumes "body_area a n" "unat i + k \<le> n"
  shows "body_area (a + i) k"
proof -
  have n: "unat a + n \<le> 2 ^ 32" using assms(1) by (simp add: body_area_def)
  have "in_block (a + i) k x \<Longrightarrow> in_block a n x" for x
    using in_block_shift [of a i k x n] assms(2) n by simp
  moreover have "unat (a + i) \<le> unat a + unat i" by (simp add: unat_word_ariths)
  then have "unat (a + i) + k \<le> 2 ^ 32" using n assms(2) by linarith
  ultimately show ?thesis using assms(1) by (auto simp: body_area_def apart_def)
qed

text \<open>The state of the loop: the cluster in use ends its chain, and enough clusters are free for the rest.\<close>

definition write_state ::
  "('d \<Rightarrow> ata) \<Rightarrow> u32 \<Rightarrow> nat \<Rightarrow> ('d, 'z) fat_scheme \<Rightarrow> bool" where
  "write_state drv c left s \<longleftrightarrow> fat32_vol drv s \<and> on_volume s c \<and> benign (ram s)
     \<and> END_CLUSTER_32 \<le> fat_entry drv s c \<and> clusters_used left \<le> Suc (card (free_clusters drv s))"

text \<open>Clusters of other files, the ones in use apart from \<open>c\<close>, keep their entry and their data, and the
  geometry of the volume stays.\<close>

definition others_kept :: "('d \<Rightarrow> ata) \<Rightarrow> u32 \<Rightarrow> ('d, 'z) fat_scheme \<Rightarrow> ('d, 'z) fat_scheme \<Rightarrow> bool" where
  "others_kept drv c s t \<longleftrightarrow> tty.more t = tty.more s \<and>
     (\<forall>m. on_volume s m \<and> m \<noteq> c \<and> fat_entry drv s m \<noteq> FREE_CLUSTER_32 \<longrightarrow>
        fat_entry drv t m = fat_entry drv s m \<and> cluster_data drv t m = cluster_data drv s m)"

definition holds_body :: "('d \<Rightarrow> ata) \<Rightarrow> ('d, 'z) fat_scheme \<Rightarrow> u32 list \<Rightarrow> u8 list \<Rightarrow> bool" where
  "holds_body drv s cs bs \<longleftrightarrow> chain drv s cs \<and> length cs = clusters_used (length bs)
     \<and> take (length (stored bs)) (concat (map (cluster_data drv s) cs)) = stored bs"

lemma others_kept_link:
  assumes "others_kept drv c s t" "d \<in> free_clusters drv s" "others_kept drv d t u" "on_volume t = on_volume s"
  shows "others_kept drv c s u"
  using assms by (auto simp: others_kept_def free_clusters_def)

lemma linked_kept:
  fixes t v :: "('d, 'z) fat_scheme"
  assumes "on_volume t c" "d \<in> free_clusters drv s" "END_CLUSTER_32 \<le> fat_entry drv s c" "fat_entry drv t c = d"
    and "others_kept drv d t v"
  shows "fat_entry drv v c = d" "cluster_data drv v c = cluster_data drv t c" "on_volume v c"
proof -
  have "c \<noteq> d" "d \<noteq> FREE_CLUSTER_32"
    using assms(2,3) by (auto simp: free_clusters_def on_volume_def END_CLUSTER_32_def FREE_CLUSTER_32_def)
  moreover have "tty.more v = tty.more t" using assms(5) by (simp add: others_kept_def)
  ultimately show "fat_entry drv v c = d" "cluster_data drv v c = cluster_data drv t c" "on_volume v c"
    using assms(1,4,5) fat_fields [of v t] by (simp_all add: others_kept_def on_volume_def)
qed

lemma holds_body_link:
  assumes "holds_body drv s (d # cs) (drop 513 bs)" "513 < length bs"
    and "on_volume s c" "fat_entry drv s c = d" "d < END_CLUSTER_32" "cluster_data drv s c = take 512 bs"
  shows "holds_body drv s (c # d # cs) bs"
  using assms clusters_used_step(2) [OF assms(2)] by (simp add: holds_body_def stored_long)

lemma round_ends:
  fixes s :: "('d, 'z) fat_scheme" and body sz left :: u32
  assumes dev: "ata_on B drv" "uart_ready B" and s: "write_state drv c (unat left) s"
    and left: "0 < left" "left \<le> 513" "left \<noteq> 512" and area: "body_area (body + (sz - left)) (unat left)"
  shows "\<exists>t. write_chain B body sz c left s = ret (0, t) \<and> fat32_vol drv t \<and> others_kept drv c s t
    \<and> holds_body drv t [c] (mem_read (ram s) (body + (sz - left)) (unat left))"
proof -
  have c: "fat32_vol drv s" "on_volume s c" "benign (ram s)" "END_CLUSTER_32 \<le> fat_entry drv s c"
    using s by (simp_all add: write_state_def)
  let ?bs = "mem_read (ram s) (body + (sz - left)) (unat left)"
  have n: "0 < unat left" "unat left \<le> 513" "unat left \<noteq> 512"
    using left word_unat_eq_iff [of left 512] by (simp_all add: word_less_nat_alt word_le_nat_alt)
  have w: "(if left < 512 then left else 513) = left"
    using n word_unat_eq_iff [of left 513] by (auto simp: word_less_nat_alt)
  obtain t data where t: "fat32_vol drv t" "tty.more t = tty.more s" "length data = 512"
    "take (min 512 (unat left)) data = mem_read (ram s) (body + (sz - left)) (min 512 (unat left))"
    "disk drv t = set_sector (disk drv s) (start_sect c s) data" "write_chain B body sz c left s = ret (0, t)"
    using write_round [OF dev c(1-3) left(1), where body = body and sz = sz] area unfolding w by auto
  have "stored ?bs = mem_read (ram s) (body + (sz - left)) (min 512 (unat left))"
    using n(2) by (simp add: stored_short take_mem_read)
  moreover have "on_volume t = on_volume s" using fat_fields [OF t(2)] by (auto simp: on_volume_def fun_eq_iff)
  moreover have "fat_entry drv t m = fat_entry drv s m" if "on_volume s m" for m
    using table_kept [OF c(1,2) t(2,5)] that by (simp add: on_volume_def)
  ultimately have "holds_body drv t [c] ?bs" "others_kept drv c s t"
    using t(4) c set_cluster [OF t(2,5)] set_cluster_other [OF c(1,2) _ _ t(2,5)] clusters_used_step(1) [OF n(1,2)] t(2)
    by (auto simp: holds_body_def others_kept_def)
  then show ?thesis using t(1,6) by blast
qed

lemma round_goes_on:
  fixes s :: "('d, 'z) fat_scheme" and body sz left :: u32
  assumes dev: "ata_on B drv" "uart_ready B" and s: "write_state drv c (unat left) s"
    and left: "513 < left" and area: "body_area (body + (sz - left)) (unat left)"
  obtains d t where "write_chain B body sz c left s = write_chain B body sz d (left - 513) t"
    and "write_state drv d (unat left - 513) t" "others_kept drv c s t" "data_frame s t"
    and "on_volume t = on_volume s" "d \<in> free_clusters drv s" "d < END_CLUSTER_32" "fat_entry drv t c = d"
    and "cluster_data drv t c = mem_read (ram s) (body + (sz - left)) 512"
proof -
  have c: "fat32_vol drv s" "on_volume s c" "benign (ram s)" "END_CLUSTER_32 \<le> fat_entry drv s c"
    and used: "clusters_used (unat left) \<le> Suc (card (free_clusters drv s))"
    using s by (simp_all add: write_state_def)
  have n: "513 < unat left" using left by (simp add: word_less_nat_alt)
  have w: "(if left < 512 then left else 513) = 513" "min 512 (unat left) = 512" "left - 513 \<noteq> 0" "0 < left"
    using n by (auto simp: word_less_nat_alt)
  have "body_area (body + (sz - left)) 513"
    using body_area_part [OF area, of 0 513] n by simp
  then obtain t data where t: "fat32_vol drv t" "benign (ram t)" "tty.more t = tty.more s" "data_frame s t"
    "length data = 512" "take 512 data = mem_read (ram s) (body + (sz - left)) 512"
    "disk drv t = set_sector (disk drv s) (start_sect c s) data"
    "write_chain B body sz c left s = write_next B body sz c (left - 513) t"
    using write_round [OF dev c(1-3) w(4), where body = body and sz = sz] w(3) unfolding w(1,2) by auto
  have on: "on_volume t = on_volume s" using fat_fields [OF t(3)] by (auto simp: on_volume_def fun_eq_iff)
  have entry: "fat_entry drv t m = fat_entry drv s m" if "on_volume s m" for m
    using table_kept [OF c(1,2) t(3,7)] that by (simp add: on_volume_def)
  have free: "free_clusters drv t = free_clusters drv s"
    using entry on by (auto simp: free_clusters_def)
  have nonfree: "fat_entry drv s c \<noteq> FREE_CLUSTER_32"
    using c(4) by (auto simp: END_CLUSTER_32_def FREE_CLUSTER_32_def)
  have count: "clusters_used (unat left - 513) \<le> card (free_clusters drv s)" "free_clusters drv s \<noteq> {}"
    using clusters_used_step(2,3) [OF n] used by auto
  obtain d u where u: "write_next B body sz c (left - 513) t = write_chain B body sz d (left - 513) u"
    "fat32_vol drv u" "benign (ram u)" "tty.more u = tty.more t" "data_frame t u"
    "d \<in> free_clusters drv s" "d < END_CLUSTER_32"
    "\<And>m. on_volume s m \<Longrightarrow> fat_entry drv u m = (if m = c then d else if m = d then END_CLUSTER_32 else fat_entry drv t m)"
    "\<And>m. on_volume s m \<Longrightarrow> cluster_data drv u m = cluster_data drv t m"
    using write_next_links [OF dev t(1) _ t(2), of c body sz "left - 513"] c(2) nonfree count(2)
    unfolding on free entry [OF c(2)] by metis
  have d: "on_volume s d" "d \<noteq> c" "2 \<le> d"
    using u(6) nonfree by (auto simp: free_clusters_def on_volume_def)
  have onu: "on_volume u = on_volume s"
    using fat_fields [OF u(4)] on by (auto simp: on_volume_def fun_eq_iff)
  have "free_clusters drv u = free_clusters drv s - {d}"
    using u(8) entry onu d nonfree by (auto simp: free_clusters_def END_CLUSTER_32_def FREE_CLUSTER_32_def split: if_splits)
  then have "card (free_clusters drv s) = Suc (card (free_clusters drv u))"
    using u(6) card.remove [of "free_clusters drv s" d] by simp
  then have "write_state drv d (unat left - 513) u"
    using u(2,3) u(8) [OF d(1)] d count(1) onu by (simp add: write_state_def)
  moreover have "others_kept drv c s u"
    using u(4,6,8,9) t(3) entry set_cluster_other [OF c(1,2) _ _ t(3,7)] by (auto simp: others_kept_def free_clusters_def)
  ultimately show ?thesis
    using that [of d u] t u(1,5,6,7) u(8,9) [OF c(2)] onu data_frame_trans [OF t(4) u(5)] set_cluster [OF t(3,7)] by simp
qed

lemma write_chain_stores:
  fixes s :: "('d, 'z) fat_scheme" and body sz left :: u32
  assumes dev: "ata_on B drv" "uart_ready B" and area: "body_area body (unat sz)"
  shows "write_state drv c (unat left) s \<Longrightarrow> 0 < left \<Longrightarrow> left \<le> sz \<Longrightarrow> unat left mod 513 \<noteq> 512 \<Longrightarrow>
    \<exists>t cs. write_chain B body sz c left s = ret (0, t) \<and> fat32_vol drv t \<and> others_kept drv c s t
      \<and> holds_body drv t (c # cs) (mem_read (ram s) (body + (sz - left)) (unat left))"
proof (induction "unat left" arbitrary: c left s rule: less_induct)
  case less
  let ?a = "body + (sz - left)"
  have part: "body_area ?a (unat left)"
    using less.prems(3) by (intro body_area_part [OF area]) (simp add: word_le_nat_alt unat_sub)
  show ?case
  proof (cases "left \<le> 513")
    case True
    then show ?thesis
      using round_ends [OF dev less.prems(1,2) True _ part] less.prems(4) by fastforce
  next
    case False
    then have left: "513 < left" by simp
    obtain d t where t: "write_chain B body sz c left s = write_chain B body sz d (left - 513) t"
      "write_state drv d (unat left - 513) t" "others_kept drv c s t" "data_frame s t"
      "on_volume t = on_volume s" "d \<in> free_clusters drv s" "d < END_CLUSTER_32" "fat_entry drv t c = d"
      "cluster_data drv t c = mem_read (ram s) ?a 512"
      using round_goes_on [OF dev less.prems(1) left part] by blast
    have n: "513 < unat left" using left by (simp add: word_less_nat_alt)
    then have u: "unat (left - 513) = unat left - 513" by (simp add: unat_sub word_le_nat_alt)
    let ?rest = "mem_read (ram s) (?a + 513) (unat left - 513)"
    have "unat (left - 513) < unat left" "0 < left - 513" "left - 513 \<le> sz" "unat (left - 513) mod 513 \<noteq> 512"
      using n u less.prems(3,4) by (auto simp: word_less_nat_alt word_le_nat_alt le_mod_geq)
    then obtain v cs where v: "write_chain B body sz d (left - 513) t = ret (0, v)" "fat32_vol drv v"
      "others_kept drv d t v" "holds_body drv v (d # cs) (mem_read (ram t) (body + (sz - (left - 513))) (unat left - 513))"
      using less.hyps [of "left - 513" d t] t(2) unfolding u by blast
    have at: "body + (sz - (left - 513)) = ?a + 513" by (simp add: algebra_simps)
    have rest: "holds_body drv v (d # cs) ?rest"
      using v(4) data_frame_body [OF t(4) body_area_part [OF part, of 513 "unat left - 513"]] n unfolding at by simp
    have "write_chain B body sz c left s = ret (0, v)" using t(1) v(1) by simp
    moreover have "others_kept drv c s v" using others_kept_link [OF t(3,6) v(3)] t(5) by simp
    moreover have c: "fat_entry drv v c = d" "cluster_data drv v c = cluster_data drv t c" "on_volume v c"
      using linked_kept [OF _ t(6) _ t(8) v(3)] t(5) less.prems(1) by (simp_all add: write_state_def)
    moreover have "holds_body drv v (c # d # cs) (mem_read (ram s) ?a (unat left))"
    proof (rule holds_body_link)
      show "holds_body drv v (d # cs) (drop 513 (mem_read (ram s) ?a (unat left)))"
        using rest by (simp add: drop_mem_read)
      show "cluster_data drv v c = take 512 (mem_read (ram s) ?a (unat left))"
        using c(2) t(9) n by (simp add: take_mem_read)
    qed (use c n t(7) in simp_all)
    ultimately show ?thesis using v(2) by blast
  qed
qed

text \<open>
  With a body of exactly one cluster the count of bytes left becomes 0xFFFFFFFF and the loop
  goes on to allocate; on a full volume the call fails although the body is stored.
\<close>

lemma write_full_cluster:
  fixes s :: "('d, 'z) fat_scheme"
  assumes dev: "ata_on B drv" "uart_ready B" and s: "fat32_vol drv s" "on_volume s c" "benign (ram s)"
    and area: "body_area body 513"
    and full: "\<And>i. 2 + i < unat (total_clusters s) \<Longrightarrow> fat_entry drv s (2 + of_nat i) \<noteq> FREE_CLUSTER_32"
  shows "\<exists>u. write_chain B body 512 c 512 s = ret (-1, u)
    \<and> cluster_data drv u c = mem_read (ram s) body 512"
proof -
  obtain t data where t: "fat32_vol drv t" "benign (ram t)" "tty.more t = tty.more s"
    "length data = 512" "take 512 data = mem_read (ram s) body 512"
    "disk drv t = set_sector (disk drv s) (start_sect c s) data"
    "write_chain B body 512 c 512 s = write_next B body 512 c (-1) t"
    using write_round [OF dev s, where left = 512 and sz = 512 and body = body] area by auto
  have clusters: "2 \<le> total_clusters t" "total_clusters t = total_clusters s"
    using s(2) fat_fields [OF t(3)] by (auto simp: on_volume_def)
  have "fat_entry drv t (2 + of_nat i) \<noteq> FREE_CLUSTER_32" if "2 + i < unat (total_clusters t)" for i
  proof -
    have i: "2 + i < unat (total_clusters s)" using that clusters(2) by simp
    then have "2 + i < 2 ^ 32" using unat_u32_less [of "total_clusters s"] by (simp del: unat_u32_less)
    then have "unat (2 + of_nat i :: u32) = 2 + i" using unat_of_nat32 [of "2 + i"] by simp
    then show ?thesis
      using full [OF i] table_kept [OF s(1,2) t(3,6), of "2 + of_nat i"] i by (simp add: word_less_nat_alt)
  qed
  then obtain u where u: "allocateFreeFAT B t = ret (BAD_CLUSTER_32, u)" "fat32_ok drv u" "t = u \<or> table_frame drv t u"
    using allocate_none [OF dev _ clusters(1)] t(1) by (auto simp: fat32_vol_def)
  have msg: "ascii (lit ''Function putFile: allocateFreeFAT encountered an error. Aborting...'')"
    by (simp add: ascii_def lit_def)
  have more: "tty.more u = tty.more t" using u(3) unfolding table_frame_def by blast
  have vol: "fat32_vol drv u"
    using t(1) u(2) unfolding fat32_vol_def fat_fields [OF more] by blast
  have ben: "benign (ram u)" using u(3) t(2) benign_table_frame by metis
  have ft: "fat_type u = 32" using u(2) by (simp add: fat32_ok_def)
  obtain ds where ds: "complain B ''Function putFile: allocateFreeFAT encountered an error. Aborting...'' (-1 :: int) u =
      ret (-1, terminal_write B ds u)"
    using complain_benign [OF msg fat32_vol_tty [OF vol] ben, of B "-1 :: int"] by blast
  have on: "on_volume t c" using s(2) clusters(2) by (simp add: on_volume_def)
  have "cluster_data drv u c = cluster_data drv t c"
    using u(3) table_frame_data [OF t(1) _ on] by blast
  then have "cluster_data drv (terminal_write B ds u) c = mem_read (ram s) body 512"
    using vol_step_view(2) [OF write_vol(1) [OF dev(1) vol]] set_cluster [OF t(3,6)] t(4,5) by simp
  then show ?thesis
    using t(7) u(1) ft ds by (simp add: write_next_def bad_cluster_def)
qed

subsection \<open>Properties\<close>

text \<open>What the write loop of \<open>putFile\<close> stores is what the read loop of \<open>getFile\<close> returns. On a FAT32
  volume with clusters of one sector and enough free clusters, the write loop over a body of
  any size that does not leave exactly one cluster for a round returns 0 and touches no
  cluster of another file; the read loop from the first cluster then puts into memory the
  body without the byte behind each full cluster.\<close>

lemma written_body_read_back:
  fixes s :: "('d, 'z) fat_scheme"
  assumes "ata_on B drv" "uart_ready B" "write_state drv c (unat sz) s" "0 < sz" "unat sz mod 513 \<noteq> 512"
    and "body_area body (unat sz)" "512 * Suc (clusters_used (unat sz)) \<le> 0x78000"
  shows "\<exists>t u. write_chain B body sz c sz s = ret (0, t) \<and> others_kept drv c s t
    \<and> read_chain B 1 (uint c) 0 t = ret (0, u)
    \<and> (let bs = stored (mem_read (ram s) body (unat sz)) in mem_read (ram u) (block_at 1) (length bs) = bs)"
proof -
  obtain t cs where t: "write_chain B body sz c sz s = ret (0, t)" "fat32_vol drv t" "others_kept drv c s t"
    "holds_body drv t (c # cs) (mem_read (ram s) body (unat sz))"
    using write_chain_stores [OF assms(1,2,6,3,4) _ assms(5)] by auto
  then have cs: "chain drv t (c # cs)" "length (c # cs) = clusters_used (unat sz)" by (simp_all add: holds_body_def)
  have "512 * (1 + length (c # cs)) \<le> 0x78000"
    unfolding cs(2) using assms(7) by simp
  then obtain u where u: "read_chain B 1 (uint c) 0 t = ret (0, u)"
    "mem_read (ram u) (block_at 1) (512 * length (c # cs)) = concat (map (cluster_data drv t) (c # cs))"
    using read_chain_ok [OF assms(1,2) t(2) cs(1), of 0 1 1] by auto
  define bs where "bs = stored (mem_read (ram s) body (unat sz))"
  have at: "take (length bs) (mem_read (ram u) (block_at 1) (512 * length (c # cs))) = bs"
    unfolding u(2) bs_def using t(4) unfolding holds_body_def by blast
  have "length bs \<le> 512 * length (c # cs)"
    using arg_cong [OF at, of length] by simp
  then have "mem_read (ram u) (block_at 1) (length bs) = bs"
    using at by (simp add: take_mem_read min_absorb1)
  then show ?thesis using t(1,3) u(1) unfolding Let_def bs_def by blast
qed

lemma low_body: "n \<le> 4096 \<Longrightarrow> body_area 0x1000 n"
  using apart_below [of "0x1000" n VGA_MEMORY 4000] apart_below [of "0x1000" n DISK_READ_LOCATION 1025]
  by (simp add: body_area_def VGA_MEMORY_def DISK_READ_LOCATION_def)

end
