(* ===== verification/FatPut.thy ===== *)
theory FatPut
  imports FatWrite
begin

unbundle bit_operations_syntax

section \<open>A new file, from its entry to its data\<close>

text \<open>
  The whole of \<open>putFile\<close> in \<^verbatim>\<open>kernel/arch/i386/FAT.c\<close> on a FAT32 volume with clusters of one
  sector, and what \<open>getFile\<close> reads afterwards. The entry goes to the first slot of the root
  directory, the body to a chain of free clusters that starts at the first free one.
\<close>

subsection \<open>Messages on the way\<close>

lemma says_word: "0 < p \<Longrightarrow> p < 128 \<Longrightarrow> says B (printf_word B p)"
  using printf_word_benign unfolding says_def by blast

text \<open>The character \<open>d_printsss\<close> prints for a byte is an ASCII one.\<close>

lemma shown_ascii:
  fixes c :: u8
  defines "p \<equiv> if 32 < sint c then scast c else 46 :: u32"
  shows "0 < p" "p < 128"
proof -
  have "c \<noteq> 0 \<and> c < 128" if "32 < sint c"
    using that uint_lt2p [of c] by (auto simp: sint_u8 word_less_def split: if_splits)
  then show "0 < p" "p < 128" using scast_ascii [of c] by (auto simp: p_def)
qed

lemma printsss_eta:
  "d_printsss B cs 0 = ret"
  "d_printsss B (c # cs) (Suc n) = (\<lambda>s. bnd (printf_word B (if 32 < sint c then scast c else 46) s) (d_printsss B cs n))"
  by (rule ext, simp)+

lemma says_printsss [says_intros]: "n \<le> length cs \<Longrightarrow> says B (d_printsss B cs n)"
proof (induction n arbitrary: cs)
  case 0
  then show ?case by (simp add: printsss_eta says_ret)
next
  case (Suc n)
  then obtain c ds where cs: "cs = c # ds" "n \<le> length ds" by (cases cs) auto
  show ?case
    unfolding cs(1) printsss_eta by (rule says_bnd [OF says_word [OF shown_ascii] Suc.IH [OF cs(2)]])
qed

text \<open>A message on a volume, and a message followed by more work.\<close>

lemma says_vol:
  fixes s :: "('d, 'z) fat_scheme"
  assumes "ata_on B drv" "fat32_vol drv s" "benign (ram s)" "says B p"
  obtains t where "p s = ret t" "vol_step drv s t" "data_frame s t"
proof -
  obtain ds where "p s = ret (terminal_write B ds s)"
    using saysD [OF assms(4) fat32_vol_tty [OF assms(2)] assms(3)] by blast
  then show ?thesis
    using that write_vol [OF assms(1,2), of ds] screen_data_frame by blast
qed

lemma name_line:
  fixes s :: "('d, 'z) fat_scheme"
  assumes "ata_on B drv" "fat32_vol drv s" "benign (ram s)" "11 \<le> length cs"
  obtains t where "vol_step drv s t" "data_frame s t"
    "\<And>k :: ('d, 'z) fat_scheme \<Rightarrow> 'r comp. bnd (d_printsss B cs 11 s) (\<lambda>s. bnd (d_printhex B c 8 s) (\<lambda>s. bnd (d_printss B (cstr [CHR 0x0A]) s) k)) = k t"
proof -
  let ?p = "\<lambda>s. bnd (d_printsss B cs 11 s) (\<lambda>s. bnd (d_printhex B c 8 s) (\<lambda>s. d_printss B (cstr [CHR 0x0A]) s))"
  have "says B ?p"
    using assms(4) by (intro says_intros) (simp_all add: ascii_def lit_def)
  then obtain t where t: "?p s = ret t" "vol_step drv s t" "data_frame s t"
    using says_vol [OF assms(1-3)] by blast
  have "bnd (d_printsss B cs 11 s) (\<lambda>s. bnd (d_printhex B c 8 s) (\<lambda>s. bnd (d_printss B (cstr [CHR 0x0A]) s) k)) =
      bnd (?p s) k" for k :: "('d, 'z) fat_scheme \<Rightarrow> 'r comp"
    by (simp add: bnd_assoc)
  then show ?thesis using that [of t] t by simp
qed

subsection \<open>The directory around a new file\<close>

text \<open>A chain whose entries in the table are kept is still a chain.\<close>

lemma chain_members:
  "chain drv s cs \<Longrightarrow> c \<in> set cs \<Longrightarrow> on_volume s c \<and> fat_entry drv s c \<noteq> FREE_CLUSTER_32"
proof (induction cs rule: induct_list012)
  case (3 c d cs)
  moreover have "d \<noteq> FREE_CLUSTER_32"
    using 3(3) chain_hd [of drv s "d # cs"] by (auto simp: on_volume_def FREE_CLUSTER_32_def)
  ultimately show ?case by auto
qed (auto simp: END_CLUSTER_32_def FREE_CLUSTER_32_def)

lemma chain_kept:
  assumes "\<And>c. c \<in> set cs \<Longrightarrow> fat_entry drv t c = fat_entry drv s c" "on_volume t = on_volume s"
  shows "chain drv t cs = chain drv s cs"
  using assms by (induction cs rule: induct_list012) simp_all

lemma dir_slots_kept:
  "(\<And>c. c \<in> set cs \<Longrightarrow> cluster_data drv t c = cluster_data drv s c) \<Longrightarrow> dir_slots drv t cs = dir_slots drv s cs"
  by (simp add: dir_slots_def cong: map_cong)

lemma more_on_volume:
  fixes s t :: "('d, 'z) fat_scheme"
  assumes "tty.more t = tty.more s"
  shows "on_volume t = on_volume s" "root_of t = root_of s"
  using fat_fields [OF assms] by (auto simp: on_volume_def root_of_def fun_eq_iff)

text \<open>The first slot of a cluster.\<close>

lemma slots_first: "slots bs = (0, take 32 bs) # map (\<lambda>k. (k, take 32 (drop (32 * k) bs))) [1..<16]"
  by (simp add: slots_def upt_conv_Cons)

lemma first_open_slot: "open_slot (0, take 32 bs) \<Longrightarrow> find open_slot (slots bs) = Some (0, take 32 bs)"
  unfolding slots_first by simp

lemma lookup_first_slot:
  assumes "length e = 32" "take 11 e = name" "e ! 0 \<noteq> ENTRY_END"
  shows "dir_lookup name (slots (patch bs 0 e) @ ds) = Some (0, e)"
  using assms unfolding slots_first by (simp add: patch_def dir_lookup_def live_slot_def)

text \<open>The first free cluster is the one the allocation finds.\<close>

definition lowest_free :: "('d \<Rightarrow> ata) \<Rightarrow> ('d, 'z) fat_scheme \<Rightarrow> u32 \<Rightarrow> bool" where
  "lowest_free drv s n \<longleftrightarrow> n \<in> free_clusters drv s \<and> (\<forall>m \<in> free_clusters drv s. n \<le> m)"

lemma lowest_free_index:
  fixes s :: "('d, 'z) fat_scheme"
  assumes "lowest_free drv s n"
  obtains j where "n = 2 + of_nat j" "2 + j < unat (total_clusters s)"
    "\<And>i. i < j \<Longrightarrow> fat_entry drv s (2 + of_nat i) \<noteq> FREE_CLUSTER_32"
    "fat_entry drv s (2 + of_nat j) = FREE_CLUSTER_32"
proof -
  obtain j where j: "2 + j < unat (total_clusters s)" "fat_entry drv s (2 + of_nat j) = FREE_CLUSTER_32"
    "\<And>i. i < j \<Longrightarrow> fat_entry drv s (2 + of_nat i) \<noteq> FREE_CLUSTER_32"
    using first_free_cluster [of drv s] assms by (auto simp: lowest_free_def)
  have n: "2 \<le> unat n" "fat_entry drv s n = FREE_CLUSTER_32"
    using assms by (simp_all add: lowest_free_def free_clusters_def on_volume_def word_le_nat_alt)
  have u: "unat (2 + of_nat j :: u32) = 2 + j"
    using j(1) unat_u32_less [of "total_clusters s"] unat_of_nat32 [of "2 + j"] by (simp del: unat_u32_less)
  then have "2 + of_nat j \<in> free_clusters drv s"
    using j(1,2) by (simp add: free_clusters_def on_volume_def word_le_nat_alt word_less_nat_alt)
  then have "unat n \<le> 2 + j"
    using assms u unfolding lowest_free_def word_le_nat_alt by metis
  moreover have "\<not> unat n - 2 < j"
    using j(3) [of "unat n - 2"] n by (auto simp: of_nat_diff)
  ultimately have "unat n = unat (2 + of_nat j :: u32)" using n(1) u by simp
  then have "n = 2 + of_nat j" using word_unat_eq_iff by blast
  then show ?thesis using that j by blast
qed

subsection \<open>The entry of the new file\<close>

text \<open>
  A directory that can take the entry: it has none of that name, its first slot is open, and
  the first free cluster has a number that survives the split into the two halves of the entry.
\<close>

definition takes_file ::
  "('d \<Rightarrow> ata) \<Rightarrow> u32 list \<Rightarrow> u8 list \<Rightarrow> u32 \<Rightarrow> ('d, 'z) fat_scheme \<Rightarrow> bool" where
  "takes_file drv cs name n s \<longleftrightarrow> fat32_vol drv s \<and> benign (ram s) \<and> chain drv s cs
     \<and> dir_lookup name (dir_slots drv s cs) = None \<and> open_slot (0, take 32 (cluster_data drv s (hd cs)))
     \<and> lowest_free drv s n \<and> n AND 0xFFFF000F = n"

lemma takes_file_vol:
  assumes "takes_file drv cs name n s" "vol_step drv s t" "data_frame s t"
  shows "takes_file drv cs name n t" "free_clusters drv t = free_clusters drv s"
proof -
  show free: "free_clusters drv t = free_clusters drv s"
    using vol_step_view [OF assms(2)] by (simp add: free_clusters_def)
  then show "takes_file drv cs name n t"
    using assms vol_step_view [OF assms(2)] vol_step_chain [OF assms(2)] benign_data_frame
    by (auto simp: takes_file_def lowest_free_def)
qed

lemma entry_cluster_new: "n AND 0xFFFF000F = n \<Longrightarrow> entry_cluster (new_entry f n) = n"
  using entry_cluster_bits [of n "stamp f"]
  by (simp add: GET_ENTRY_HIGH_BITS_def GET_CLUSTER_FROM_ENTRY_def GET_ENTRY_LOW_BITS_def entry_cluster_def new_entry_def)

lemma new_entry_bytes:
  assumes "good83 b e" "file_name f = name83 b e"
  shows "length (entry_bytes (new_entry f n)) = 32" "take 11 (entry_bytes (new_entry f n)) = name83 b e"
    "entry_bytes (new_entry f n) ! 0 \<noteq> ENTRY_END" "directory_entry_of (entry_bytes (new_entry f n)) = new_entry f n"
proof -
  have f: "file_name (new_entry f n) = name83 b e" "length (name83 b e) = 11"
    using assms by (simp_all add: new_entry_def stamp_def good83_def)
  then show "length (entry_bytes (new_entry f n)) = 32" "take 11 (entry_bytes (new_entry f n)) = name83 b e"
    "directory_entry_of (entry_bytes (new_entry f n)) = new_entry f n"
    by (simp_all add: length_entry_bytes directory_entry_bytes, simp add: entry_bytes_def)
  have "entry_bytes (new_entry f n) ! 0 = name83 b e ! 0"
    using f by (simp add: entry_bytes_def nth_append)
  moreover have "name83 b e ! 0 \<in> set (name83 b e)" using f(2) by (intro nth_mem) simp
  ultimately show "entry_bytes (new_entry f n) ! 0 \<noteq> ENTRY_END"
    using name83_no_NUL [OF assms(1)] by (auto simp: ENTRY_END_def)
qed

text \<open>What is on the volume once the entry is written.\<close>

definition has_entry ::
  "('d \<Rightarrow> ata) \<Rightarrow> u32 list \<Rightarrow> u8 list \<Rightarrow> directory_entry \<Rightarrow> ('d, 'z) fat_scheme \<Rightarrow> bool" where
  "has_entry drv cs name e s \<longleftrightarrow> fat32_vol drv s \<and> chain drv s cs
     \<and> dir_lookup name (dir_slots drv s cs) = Some (0, entry_bytes e)"

lemma has_entry_kept:
  fixes s t :: "('d, 'z) fat_scheme"
  assumes "has_entry drv cs name e s" "others_kept drv n s t" "fat32_vol drv t" "n \<notin> set cs"
  shows "has_entry drv cs name e t"
proof -
  have "fat_entry drv t c = fat_entry drv s c \<and> cluster_data drv t c = cluster_data drv s c" if "c \<in> set cs" for c
    using that chain_members [of drv s cs c] assms by (auto simp: has_entry_def others_kept_def)
  moreover have "on_volume t = on_volume s" using assms(2) more_on_volume(1) by (auto simp: others_kept_def)
  ultimately show ?thesis
    using assms(1,3) chain_kept [of cs drv t s] dir_slots_kept [of cs drv t s] by (simp add: has_entry_def)
qed

lemma directoryAdd_first:
  fixes s :: "('d, 'z) fat_scheme"
  assumes dev: "ata_on B drv" "uart_ready B" and s: "takes_file drv cs (name83 b e) n s"
    and f: "good83 b e" "file_name f = name83 b e"
  obtains t where "directoryAdd B (hd cs) f s = ret (0, new_entry f n, t)" "entry_added drv (hd cs) n s t"
    "has_entry drv cs (name83 b e) (new_entry f n) t" "n \<notin> set cs"
proof -
  have v: "fat32_vol drv s" "benign (ram s)" "chain drv s cs" "lowest_free drv s n"
    "open_slot (0, take 32 (cluster_data drv s (hd cs)))"
    using s by (simp_all add: takes_file_def)
  obtain r where cs: "cs = hd cs # r" using v(3) by (cases cs) auto
  have nm: "length (file_name f) = 11" "0x2E \<notin> set (file_name f)" "testIfFATFormat (file_name f) = ret 0"
    using f fat_chars_notin(2) test_name83 [OF f(1), of "[]"] by (auto simp: good83_def name83_def)
  obtain j where j: "n = 2 + of_nat j" "2 + j < unat (total_clusters s)"
    "\<And>i. i < j \<Longrightarrow> fat_entry drv s (2 + of_nat i) \<noteq> FREE_CLUSTER_32"
    "fat_entry drv s (2 + of_nat j) = FREE_CLUSTER_32"
    using lowest_free_index [OF v(4)] by blast
  obtain t where t: "directoryAdd B (hd cs) f s = ret (0, new_entry f n, t)" "fat32_vol drv t"
    "entry_added drv (hd cs) n s t"
    "cluster_data drv t (hd cs) = patch (disk drv t (fat_sec t n)) 0 (entry_bytes (new_entry f n))"
    using directoryAdd_slot [OF dev v(1) chain_hd [OF v(3)] v(2) nm first_open_slot [OF v(5)] j(2-4)]
    unfolding j(1) [symmetric] by auto
  have n: "n \<notin> set cs" using chain_members [OF v(3)] j by auto
  have "dir_slots drv t cs = slots (cluster_data drv t (hd cs)) @ dir_slots drv t r"
    by (subst cs) (simp add: dir_slots_def)
  then have "dir_lookup (name83 b e) (dir_slots drv t cs) = Some (0, entry_bytes (new_entry f n))"
    unfolding t(4) using lookup_first_slot [OF new_entry_bytes(1-3) [OF f]] by simp
  moreover have "fat_entry drv t c = fat_entry drv s c" if "c \<in> set cs" for c
    using that chain_members [OF v(3) that] n t(3) by (auto simp: entry_added_def)
  then have "chain drv t cs"
    using chain_kept [of cs drv t s] v(3) t(3) more_on_volume(1) [of t s] by (simp add: entry_added_def)
  ultimately show ?thesis using that t n by (simp add: has_entry_def)
qed

subsection \<open>The whole call\<close>

text \<open>The state of the write loop after the entry.\<close>

lemma entry_added_write:
  fixes s t u :: "('d, 'z) fat_scheme"
  assumes "lowest_free drv s n" "entry_added drv c n s t" "vol_step drv t u" "data_frame t u"
    and "benign (ram s)" "clusters_used k \<le> card (free_clusters drv s)"
  shows "write_state drv n k u"
proof -
  note v = vol_step_view [OF assms(3)]
  have n: "n \<in> free_clusters drv s" "on_volume s n" using assms(1) by (auto simp: lowest_free_def free_clusters_def)
  have on: "on_volume t = on_volume s" using assms(2) more_on_volume(1) by (auto simp: entry_added_def)
  have "free_clusters drv u = free_clusters drv s - {n}"
    using assms(2) v(1,3) on by (auto simp: free_clusters_def entry_added_def END_CLUSTER_32_def FREE_CLUSTER_32_def split: if_splits)
  then have "Suc (card (free_clusters drv u)) = card (free_clusters drv s)"
    using n(1) card_Suc_Diff1 [of "free_clusters drv s" n] by simp
  moreover have "benign (ram u)"
    using assms(2,5) benign_data_frame [OF data_frame_trans [OF _ assms(4)]] unfolding entry_added_def by blast
  ultimately show ?thesis
    using v(1,3,4) on n(2) assms(2,6) by (simp add: write_state_def entry_added_def)
qed

text \<open>The entry is found again under the name that is shown for it.\<close>

lemma search_new_entry:
  fixes s :: "('d, 'z) fat_scheme"
  assumes dev: "ata_on B drv" "uart_ready B" and s: "has_entry drv cs (name83 b e) (new_entry f n) s"
    and f: "good83 b e" "file_name f = name83 b e" and nm: "search_name shown = ret found" "take 11 found = name83 b e"
  obtains t where "vol_step drv s t" "data_frame s t"
    "directorySearch B shown (hd cs) (Ref x) Null s = ret (0, Ref (Some (new_entry f n)), Null, t)"
proof -
  have "length (take 11 found) = 11" using nm(2) f(1) by (simp add: good83_def)
  then have "11 \<le> length found" by simp
  moreover have "0 \<notin> set (take 11 found)"
    using nm(2) name83_no_NUL [OF f(1)] by simp
  ultimately show ?thesis
    using directorySearch_chain [OF dev nm(1), of s cs "Ref x" Null] that s nm(2) new_entry_bytes(4) [OF f]
    by (auto simp: has_entry_def)
qed

lemma complain_hex_vol:
  fixes s :: "('d, 'z) fat_scheme"
  assumes "ata_on B drv" "fat32_vol drv s" "benign (ram s)" "ascii (lit msg)" "ascii (lit msg')"
  obtains t where "vol_step drv s t" "data_frame s t" "complain_hex B msg n msg' r s = ret (r, t)"
  using complain_hex_benign [OF assms(4,5) fat32_vol_tty [OF assms(2)] assms(3), of B n r] that
    write_vol [OF assms(1,2)] screen_data_frame by blast

text \<open>The clusters of the other files on the way.\<close>

lemma vol_others_kept: "vol_step drv s t \<Longrightarrow> others_kept drv c s t"
  using vol_step_view [of drv s t] by (simp add: others_kept_def vol_step_def)

lemma added_others_kept:
  assumes "entry_added drv c n s t" "lowest_free drv s n"
  shows "others_kept drv c s t"
  using assms by (auto simp: entry_added_def others_kept_def lowest_free_def free_clusters_def)

lemma others_kept_trans:
  fixes s t u :: "('d, 'z) fat_scheme"
  assumes "others_kept drv c s t" "others_kept drv c t u"
  shows "others_kept drv c s u"
  using assms more_on_volume(1) [of t s] by (simp add: others_kept_def)

lemma has_entry_vol:
  assumes "has_entry drv cs name e s" "vol_step drv s t"
  shows "has_entry drv cs name e t"
  using assms vol_step_view(4) [OF assms(2)] vol_step_chain [OF assms(2)] by (simp add: has_entry_def)

text \<open>The part of \<open>put_in_directory\<close> before the write loop.\<close>

lemma put_in_directory_entry:
  fixes s :: "('d, 'z) fat_scheme"
  assumes dev: "ata_on B drv" "uart_ready B" and s: "takes_file drv cs (name83 b e) n s"
    and f: "good83 b e" "file_name f = name83 b e" "clusters_used k \<le> card (free_clusters drv s)"
    and stale: "length stale = 13" "length e = 0 \<or> length e = 3 \<or> stale ! (length b + 1 + length e) = 0x20"
  obtains u where "put_in_directory B stale body f (hd cs) s =
      bnd (write_chain B body (file_size f) n (file_size f) u) (\<lambda>(r, s). ret (r, new_entry f n, s))"
    "write_state drv n k u" "has_entry drv cs (name83 b e) (new_entry f n) u" "n \<notin> set cs"
    "data_frame s u" "others_kept drv (hd cs) s u"
proof -
  obtain shown found where shown: "convertFromFATFormat (name83 b e) stale = ret shown"
    "search_name shown = ret found" "take 11 found = name83 b e"
    using round_trip_name [OF f(1) stale] .
  have v: "fat32_vol drv s" "benign (ram s)" using s by (simp_all add: takes_file_def)
  have nm: "11 \<le> length (file_name f)" "11 \<le> length shown"
    using f(1,2) shown(1) convertFrom_name83 [OF f(1) stale(1)] by (auto simp: good83_def)
  obtain s1 where s1: "vol_step drv s s1" "data_frame s s1"
    "\<And>k. bnd (d_printsss B (file_name f) 11 s) (\<lambda>s. bnd (d_printhex B (hd cs) 8 s)
       (\<lambda>s. bnd (d_printss B (cstr [CHR 0x0A]) s) k)) = (k s1 :: (int \<times> directory_entry \<times> ('d, 'z) fat_scheme) comp)"
    using name_line [OF dev(1) v nm(1), of "hd cs"] by blast
  note takes = takes_file_vol [OF s s1(1,2)]
  obtain s2 where s2: "directoryAdd B (hd cs) f s1 = ret (0, new_entry f n, s2)" "entry_added drv (hd cs) n s1 s2"
    "has_entry drv cs (name83 b e) (new_entry f n) s2" "n \<notin> set cs"
    using directoryAdd_first [OF dev takes(1) f(1,2)] by blast
  have frame2: "data_frame s s2" using s2(2) data_frame_trans [OF s1(2)] by (simp add: entry_added_def)
  have v2: "fat32_vol drv s2" "benign (ram s2)"
    using s2(3) benign_data_frame [OF frame2 v(2)] by (simp_all add: has_entry_def)
  obtain s3 where s3: "vol_step drv s2 s3" "data_frame s2 s3"
    "\<And>k. bnd (d_printsss B shown 11 s2) (\<lambda>s. bnd (d_printhex B (hd cs) 8 s)
       (\<lambda>s. bnd (d_printss B (cstr [CHR 0x0A]) s) k)) = (k s3 :: (int \<times> directory_entry \<times> ('d, 'z) fat_scheme) comp)"
    using name_line [OF dev(1) v2 nm(2), of "hd cs"] by blast
  obtain s4 where s4: "vol_step drv s3 s4" "data_frame s3 s4"
    "directorySearch B shown (hd cs) (Ref None) Null s3 = ret (0, Ref (Some (new_entry f n)), Null, s4)"
    using search_new_entry [OF dev has_entry_vol [OF s2(3) s3(1)] f(1,2) shown(2,3)] .
  note step4 = vol_step_trans [OF s3(1) s4(1)] and frame4 = data_frame_trans [OF s3(2) s4(2)]
  have msg: "ascii (lit ''Cluster of Entry: '')" "ascii (lit [])" by (simp_all add: ascii_def lit_def)
  obtain s5 where s5: "vol_step drv s4 s5" "data_frame s4 s5"
    "complain_hex B ''Cluster of Entry: '' n [] () s4 = ret ((), s5)"
    using complain_hex_vol [OF dev(1) vol_step_view(4) [OF s4(1)] benign_data_frame [OF frame4 v2(2)] msg] .
  note step5 = vol_step_trans [OF step4 s5(1)] and frame5 = data_frame_trans [OF frame4 s5(2)]
  have "write_state drv n k s5"
    using entry_added_write [OF _ s2(2) step5 frame5 benign_data_frame [OF s1(2) v(2)]] takes f(3)
    by (simp add: takes_file_def)
  moreover have "GET_CLUSTER_FROM_ENTRY (fat_type s4) (new_entry f n) = ret n"
    using fat32_vol_type [OF vol_step_view(4) [OF s4(1)]] entry_cluster_new [of n f] s
    by (simp add: GET_CLUSTER_FROM_ENTRY_def entry_cluster_def takes_file_def)
  moreover have "file_name (new_entry f n) = name83 b e" "file_size (new_entry f n) = file_size f"
    using f(2) by (simp_all add: new_entry_def stamp_def)
  moreover have "others_kept drv (hd cs) s s5"
    using others_kept_trans [OF vol_others_kept [OF s1(1)] others_kept_trans [OF added_others_kept [OF s2(2)] vol_others_kept [OF step5]]]
      takes(1) by (simp add: takes_file_def)
  ultimately show ?thesis
    using that [of s5] s1(3) s2(1,4) s3(3) s4(3) s5(3) shown(1) has_entry_vol [OF s2(3) step5]
      data_frame_trans [OF frame2 frame5] by (simp add: put_in_directory_def)
qed

text \<open>A body the caller gives: its size, its place in memory, and the room for it.\<close>

definition storable :: "('d \<Rightarrow> ata) \<Rightarrow> ('d, 'z) fat_scheme \<Rightarrow> u32 \<Rightarrow> u32 \<Rightarrow> bool" where
  "storable drv s body sz \<longleftrightarrow> 0 < sz \<and> unat sz mod 513 \<noteq> 512 \<and> body_area body (unat sz)
     \<and> clusters_used (unat sz) \<le> card (free_clusters drv s)"

lemma put_in_directory_stores:
  fixes s :: "('d, 'z) fat_scheme"
  assumes dev: "ata_on B drv" "uart_ready B" and s: "takes_file drv cs (name83 b e) n s" "storable drv s body (file_size f)"
    and f: "good83 b e" "file_name f = name83 b e"
    and stale: "length stale = 13" "length e = 0 \<or> length e = 3 \<or> stale ! (length b + 1 + length e) = 0x20"
  obtains t ds where "put_in_directory B stale body f (hd cs) s = ret (0, new_entry f n, t)"
    "has_entry drv cs (name83 b e) (new_entry f n) t" "others_kept drv (hd cs) s t"
    "holds_body drv t (n # ds) (mem_read (ram s) body (unat (file_size f)))"
proof -
  let ?sz = "file_size f"
  have sz: "0 < ?sz" "unat ?sz mod 513 \<noteq> 512" "body_area body (unat ?sz)"
    "clusters_used (unat ?sz) \<le> card (free_clusters drv s)"
    using s(2) by (simp_all add: storable_def)
  obtain u where u: "put_in_directory B stale body f (hd cs) s =
      bnd (write_chain B body ?sz n ?sz u) (\<lambda>(r, s). ret (r, new_entry f n, s))"
    "write_state drv n (unat ?sz) u" "has_entry drv cs (name83 b e) (new_entry f n) u" "n \<notin> set cs"
    "data_frame s u" "others_kept drv (hd cs) s u"
    using put_in_directory_entry [OF dev s(1) f sz(4) stale] .
  obtain t ds where t: "write_chain B body ?sz n ?sz u = ret (0, t)" "fat32_vol drv t"
    "others_kept drv n u t" "holds_body drv t (n # ds) (mem_read (ram u) body (unat ?sz))"
    using write_chain_stores [OF dev sz(3) u(2) sz(1) _ sz(2)] by auto
  have "n \<in> free_clusters drv s" "on_volume u = on_volume s"
    using s(1) u(6) more_on_volume(1) [of u s] by (simp_all add: takes_file_def lowest_free_def others_kept_def)
  then have "others_kept drv (hd cs) s t"
    using others_kept_link [OF u(6) _ t(3)] by blast
  then show ?thesis
    using that u(1) t(1,4) has_entry_kept [OF u(3) t(3,2) u(4)] data_frame_body [OF u(5) sz(3)] by simp
qed

text \<open>The search for the name before, and the branch for the root directory.\<close>

lemma putFile_stores:
  fixes s :: "('d, 'z) fat_scheme"
  assumes dev: "ata_on B drv" "uart_ready B" and s: "takes_file drv cs (name83 b e) n s" "storable drv s body (file_size f)"
    and root: "hd cs = root_of s" and f: "good83 b e" "file_name f = name83 b e"
    and stale: "length stale = 13" "length e = 0 \<or> length e = 3 \<or> stale ! (length b + 1 + length e) = 0x20"
      "length stale' = 13" "length e = 0 \<or> length e = 3 \<or> stale' ! (length b + 1 + length e) = 0x20"
  obtains t ds where "putFile B stale stale' (cstr (''C:'' @ [CHR 0x5C])) body f s = ret (0, new_entry f n, t)"
    "has_entry drv cs (name83 b e) (new_entry f n) t" "others_kept drv (hd cs) s t"
    "holds_body drv t (n # ds) (mem_read (ram s) body (unat (file_size f)))"
proof -
  obtain shown found where shown: "convertFromFATFormat (name83 b e) stale = ret shown"
    "search_name shown = ret found" "take 11 found = name83 b e"
    using round_trip_name [OF f(1) stale(1,2)] .
  have v: "fat32_vol drv s" "chain drv s cs" "dir_lookup (take 11 found) (dir_slots drv s cs) = None"
    using s(1) shown(3) by (simp_all add: takes_file_def)
  have "length (take 11 found) = 11" using shown(3) f(1) by (simp add: good83_def)
  then have nm: "11 \<le> length found" by simp
  have nul: "0 \<notin> set (take 11 found)" using shown(3) name83_no_NUL [OF f(1)] by simp
  obtain s1 where s1: "vol_step drv s s1" "data_frame s s1"
    "directorySearch B shown (root_of s) Null Null s = ret (-2, Null, Null, s1)"
    using directorySearch_chain [OF dev shown(2) nm nul v(1,2), of Null Null] v(3) root by auto
  have step: "takes_file drv cs (name83 b e) n s1" "storable drv s1 body (file_size f)"
    using takes_file_vol [OF s(1) s1(1,2)] s(2) by (simp_all add: storable_def)
  obtain t ds where t: "put_in_directory B stale' body f (hd cs) s1 = ret (0, new_entry f n, t)"
    "has_entry drv cs (name83 b e) (new_entry f n) t" "others_kept drv (hd cs) s1 t"
    "holds_body drv t (n # ds) (mem_read (ram s1) body (unat (file_size f)))"
    using put_in_directory_stores [OF dev step f stale(3,4)] .
  have info: "\<exists>i. root_info (fat_type s) (root_of s) = ret i \<and> attributes i AND FILE_DIRECTORY = FILE_DIRECTORY"
    using fat32_vol_type [OF v(1)]
    by (simp add: root_info_def GET_ENTRY_HIGH_BITS_def FILE_DIRECTORY_def FILE_VOLUME_ID_def)
  have "strcmp (cstr (''C:'' @ [CHR 0x5C])) (cstr (''C:'' @ [CHR 0x5C])) = ret 0"
    by (simp add: cstr_def lit_def)
  then have "putFile B stale stale' (cstr (''C:'' @ [CHR 0x5C])) body f s = ret (0, new_entry f n, t)"
    using test_name83 [OF f(1), of "[]"] f(2) shown(1) s1(3) t(1) info fat32_vol_type [OF v(1)] root
    by (auto simp: putFile_def)
  moreover have "mem_read (ram s1) body (unat (file_size f)) = mem_read (ram s) body (unat (file_size f))"
    using data_frame_body [OF s1(2)] s(2) by (simp add: storable_def)
  ultimately show ?thesis
    using that t(2,4) others_kept_trans [OF vol_others_kept [OF s1(1)] t(3)] by simp
qed

text \<open>The path a user types for the name, in either case.\<close>

lemma typed_component:
  assumes "good83 (map uppercase b) (map uppercase e)"
  shows "component (typed b e)" "search_name (typed b e @ [0]) = ret (name83 (map uppercase b) (map uppercase e) @ [0, 0])"
proof -
  have len: "b \<noteq> []" "length b \<le> 8" "length e \<le> 3" using assms by (simp_all add: good83_def)
  have ok: "0 \<notin> set u \<and> 0x2E \<notin> set u \<and> 0x5C \<notin> set u" if "list_all fat_char (map uppercase u)" for u
  proof -
    have "fat_char (uppercase c)" if "c \<in> set u" for c
      using that \<open>list_all fat_char (map uppercase u)\<close> by (simp add: list_all_iff)
    moreover have "\<not> fat_char (uppercase 0)" "\<not> fat_char (uppercase 0x2E)" "\<not> fat_char (uppercase 0x5C)"
      by (simp_all add: fat_char_def uppercase_def test_byte_def flag_defs)
    ultimately show ?thesis by blast
  qed
  have b: "0 \<notin> set b \<and> 0x2E \<notin> set b \<and> 0x5C \<notin> set b" and e: "0 \<notin> set e \<and> 0x2E \<notin> set e \<and> 0x5C \<notin> set e"
    using assms ok [of b] ok [of e] by (simp_all add: good83_def)
  then show "component (typed b e)" using len by (auto simp: component_def typed_def)
  have "0 \<notin> set (typed b e)" using b e by (auto simp: typed_def)
  then have "terminated (typed b e @ [0])" "text_of (typed b e @ [0]) = typed b e"
    by (simp_all add: terminated_def)
  then show "search_name (typed b e @ [0]) = ret (name83 (map uppercase b) (map uppercase e) @ [0, 0])"
    using search_name_typed [of b e] len b e by (simp add: plain_def)
qed

lemma typed_leads_to:
  fixes s :: "('d, 'z) fat_scheme"
  assumes "has_entry drv cs (name83 (map uppercase b) (map uppercase e)) x s" "hd cs = root_of s"
    and "good83 (map uppercase b) (map uppercase e)" "length (file_name x) = 11"
  shows "leads_to drv s (root_of s) [typed b e] (Some x)"
proof (rule leads_to.target)
  let ?nm = "name83 (map uppercase b) (map uppercase e)"
  have "length ?nm = 11" using assms(3) by (simp add: good83_def)
  then show "dir_entry drv s (root_of s) (typed b e) (Some x)"
    unfolding dir_entry_def
    using assms(1,2) typed_component(2) [OF assms(3)] name83_no_NUL [OF assms(3)] directory_entry_bytes [OF assms(4)]
    by (intro exI [of _ cs] exI [of _ "?nm @ [0, 0]"]) (simp add: has_entry_def)
qed

text \<open>What a read of the whole chain has at its start.\<close>

lemma stored_in_memory:
  assumes "holds_body drv t cs bs" "mem_read m a k = concat (map (cluster_data drv t) cs)"
  shows "mem_read m a (length (stored bs)) = stored bs"
proof -
  have at: "take (length (stored bs)) (mem_read m a k) = stored bs"
    using assms by (simp add: holds_body_def)
  have "length (stored bs) \<le> k"
    using arg_cong [OF at, of length] by simp
  then show ?thesis using at by (simp add: take_mem_read min_absorb1)
qed

subsection \<open>Properties\<close>

text \<open>C1: a file that is written is read back. The volume is FAT32 with clusters of one sector. The clusters of its
  root directory form a chain, the first slot of the directory is open and no entry has the name. The first
  free cluster has a number with bits 4 to 15 clear, which an entry can hold. The file is not a directory, its name is an 8.3 name
  with an extension of no or three characters, or the stale byte behind a shorter extension is a space. Its size is
  from 1 to 261632 bytes and does not leave exactly one cluster for a round (it is not 512 modulo 513), there are enough
  free clusters, and the body lies apart from the screen and the transfer buffer. Low memory is harmless as a
  format. Then \<open>putFile\<close> into the root directory returns 0 and the stamped entry, and keeps the table
  entry and the data of every cluster in use but the first of the directory. A \<open>getFile\<close> under that name, typed in
  either case, then returns 0, that entry, and in memory the body without the byte behind each full cluster.\<close>

theorem putFile_getFile_round_trip:
  fixes s :: "('d, 'z) fat_scheme"
  assumes "ata_on B drv" "uart_ready B" "takes_file drv cs (name83 b e) n s" "storable drv s body (file_size f)"
    and "hd cs = root_of s" "good83 b e" "file_name f = name83 b e"
    and "length stale = 13" "length e = 0 \<or> length e = 3 \<or> stale ! (length b + 1 + length e) = 0x20"
    and "length stale' = 13" "length e = 0 \<or> length e = 3 \<or> stale' ! (length b + 1 + length e) = 0x20"
    and "attributes f AND FILE_DIRECTORY = 0" "file_size f \<le> 261632" "map uppercase b' = b" "map uppercase e' = e"
  shows "\<exists>t u. putFile B stale stale' (cstr (''C:'' @ [CHR 0x5C])) body f s = ret (0, new_entry f n, t)
    \<and> others_kept drv (root_of s) s t
    \<and> getFile B (full_path [typed b' e']) (Ref a) (Ref m) 1 t =
        ret (0, Ref (Some (block_at 1)), Ref (Some (new_entry f n)), u)
    \<and> (let bs = stored (mem_read (ram s) body (unat (file_size f))) in mem_read (ram u) (block_at 1) (length bs) = bs)"
proof -
  let ?x = "new_entry f n" and ?bs = "mem_read (ram s) body (unat (file_size f))"
  obtain t ds where t: "putFile B stale stale' (cstr (''C:'' @ [CHR 0x5C])) body f s = ret (0, ?x, t)"
    "has_entry drv cs (name83 b e) ?x t" "others_kept drv (hd cs) s t" "holds_body drv t (n # ds) ?bs"
    using putFile_stores [OF assms(1-11)] .
  have x: "file_size ?x = file_size f" "attributes ?x = attributes f" "length (file_name ?x) = 11" "entry_cluster ?x = n"
    using assms(3,6,7) entry_cluster_new [of n f]
    by (simp_all add: new_entry_def stamp_def good83_def takes_file_def)
  have vol: "fat32_vol drv t" "root_of t = root_of s"
    using t(2,3) more_on_volume(2) [of t s] by (simp_all add: has_entry_def others_kept_def)
  have good: "good83 (map uppercase b') (map uppercase e')" using assms(6,14,15) by simp
  have path: "leads_to drv t (root_of t) [typed b' e'] (Some ?x)"
    using typed_leads_to [of drv cs b' e' ?x t, OF _ _ good x(3)] t(2) vol(2) assms(5,14,15) by simp
  have comp: "list_all component [typed b' e']" "length (full_path [typed b' e']) < 65536"
    using typed_component(1) [OF good] by (simp_all add: component_def full_path_def)
  have cs: "chain drv t (entry_cluster ?x # ds)" "Suc (length ds) = clusters_used (unat (file_size f))"
    using t(4) x(4) by (simp_all add: holds_body_def)
  have "unat (file_size f) \<le> 261632" using assms(13) by (simp add: word_le_nat_alt)
  then have room: "512 * (unat (1 :: u32) + length ds + 1) \<le> 0x78000"
    using cs(2) by (simp add: clusters_used_def)
  have size: "1 * 512 + file_size ?x \<le> 262144"
    using assms(13) unfolding x(1) by (simp add: word_le_nat_alt unat_word_ariths)
  obtain u where u: "getFile B (full_path [typed b' e']) (Ref a) (Ref m) 1 t =
      ret (0, Ref (Some (block_at (unat (1 :: u32)))), Ref (Some ?x), u)"
    "mem_read (ram u) (block_at (unat (1 :: u32))) (512 * (length ds + 1)) =
      concat (map (cluster_data drv t) (entry_cluster ?x # ds))"
    using getFile_file [OF assms(1,2) vol(1) path comp _ _ size cs(1) room, of a m] assms(12) x(2) by auto
  show ?thesis
    using t(1,3) u(1) assms(5) stored_in_memory [OF t(4), of "ram u"] u(2) x(4) unfolding Let_def
    by (intro exI [of _ t] exI [of _ u]) simp
qed

text \<open>A volume with an empty root directory in cluster 2.\<close>

definition empty_vol :: "ata fat" where
  "empty_vol = (sample_fat sample_boot)
     \<lparr>dev := blank_drive\<lparr>sectors := \<lambda>l. if l - part_start_lba = 32
        then put32 (replicate 512 0) 8 END_CLUSTER_32 else replicate 512 0\<rparr>\<rparr>"

lemma empty_vol_fields [simp]:
  "first_fat_sector empty_vol = 32" "first_data_sector empty_vol = 100" "total_clusters empty_vol = 500"
  "fat_type empty_vol = 32" "bootsect empty_vol = sample_boot" "ram empty_vol = ram (sample_fat sample_boot)"
  "disk (\<lambda>a. a) empty_vol l = (if l = 32 then put32 (replicate 512 0) 8 END_CLUSTER_32 else replicate 512 0)"
  by (simp_all add: empty_vol_def disk_def)

lemma empty_vol_root: "root_of empty_vol = 2" "cluster_data (\<lambda>a. a) empty_vol 2 = replicate 512 0"
  using sample_root by (simp_all add: root_of_def cluster_data_def start_sect_def)

lemma empty_vol_entry:
  "fat_entry (\<lambda>a. a) empty_vol 2 = END_CLUSTER_32" "fat_entry (\<lambda>a. a) empty_vol 3 = FREE_CLUSTER_32"
  by (simp_all add: fat_entry_def fat_raw_def fat_sec_def fat_off_def get32_put32 get32_put32_other)
    (simp_all add: END_CLUSTER_32_def FREE_CLUSTER_32_def get32_def le32_def)

lemma empty_vol_ok: "fat32_vol (\<lambda>a. a) empty_vol" "lowest_free (\<lambda>a. a) empty_vol 3"
proof -
  have "disk_ready (\<lambda>a. a) empty_vol"
    using sample_fat_simps(7) [of sample_boot]
    by (simp add: disk_ready_def empty_vol_def tty_ok_def drive_ok_def blank_drive_def)
  then show "fat32_vol (\<lambda>a. a) empty_vol"
    by (simp add: fat32_vol_def fat32_ok_def part_length_def) (simp add: sample_boot_def)
  have "3 \<le> m" if "on_volume empty_vol m" "fat_entry (\<lambda>a. a) empty_vol m = FREE_CLUSTER_32" for m
  proof -
    have "m \<noteq> 2" using that(2) empty_vol_entry(1) by (auto simp: END_CLUSTER_32_def FREE_CLUSTER_32_def)
    then have "unat m \<noteq> 2" using word_unat_eq_iff [of m 2] by simp
    then show ?thesis using that(1) by (simp add: on_volume_def word_le_nat_alt)
  qed
  then show "lowest_free (\<lambda>a. a) empty_vol 3"
    by (auto simp: lowest_free_def free_clusters_def on_volume_def empty_vol_entry(2))
qed

lemma empty_vol_takes: "takes_file (\<lambda>a. a) [2] name 3 empty_vol"
proof -
  have "\<not> live_slot (0, take 32 (replicate 512 0))" "open_slot (0, take 32 (replicate 512 0))"
    by (simp_all add: live_slot_def open_slot_def ENTRY_END_def)
  then show ?thesis
    using empty_vol_ok
    by (simp add: takes_file_def on_volume_def empty_vol_entry empty_vol_root dir_slots_def slots_first dir_lookup_def)
qed

theorem putFile_getFile_round_trip_witness:
  "\<exists>t u. putFile ata_bus (replicate 13 0x20) (replicate 13 0x20) (cstr (''C:'' @ [CHR 0x5C])) 0x1000 sample_entry empty_vol =
      ret (0, new_entry sample_entry 3, t)
    \<and> getFile ata_bus (full_path [lit ''boot.c'']) (Ref None) (Ref None) 1 t =
        ret (0, Ref (Some (block_at 1)), Ref (Some (new_entry sample_entry 3)), u)
    \<and> mem_read (ram u) (block_at 1) 5 = mem_read (ram empty_vol) 0x1000 5"
proof -
  have good: "good83 (lit ''BOOT'') (lit ''C'')"
    by (simp add: good83_def fat_char_def lit_def test_byte_def)
  have name: "file_name sample_entry = name83 (lit ''BOOT'') (lit ''C'')"
    by (simp add: sample_entry_def name83_def lit_def replicate_numeral)
  have entry: "file_size sample_entry = 5" "attributes sample_entry AND FILE_DIRECTORY = 0"
    by (simp_all add: sample_entry_def directory_entry_of_def)
  have "3 \<in> free_clusters (\<lambda>a. a) empty_vol" using empty_vol_ok(2) by (simp add: lowest_free_def)
  then have "0 < card (free_clusters (\<lambda>a. a) empty_vol)" by (auto simp: card_gt_0_iff)
  then have room: "storable (\<lambda>a. a) empty_vol 0x1000 (file_size sample_entry)"
    using low_body [of 5] by (simp add: storable_def entry clusters_used_def)
  have low: "map uppercase (lit ''boot'') = lit ''BOOT''" "map uppercase (lit ''c'') = lit ''C''"
    "typed (lit ''boot'') (lit ''c'') = lit ''boot.c''"
    by (simp_all add: uppercase_def lit_def typed_def)
  have "stored (mem_read (ram empty_vol) 0x1000 5) = mem_read (ram empty_vol) 0x1000 5"
    by (simp add: stored_short take_mem_read)
  then show ?thesis
    using putFile_getFile_round_trip [OF ata_bus_on empty_vol_takes room _ good name, of "replicate 13 0x20"
        "replicate 13 0x20" "lit ''boot''" "lit ''c''" None None] entry low empty_vol_root(1)
    by (auto simp: Let_def)
qed

end
