(* ===== verification/FatList.thy ===== *)
theory FatList
  imports FatDir
begin

unbundle bit_operations_syntax

section \<open>Listing a directory\<close>

text \<open>
  What \<open>directoryList\<close> of \<^verbatim>\<open>kernel/arch/i386/FAT.c\<close> prints on a FAT32 volume with clusters of one
  sector. The loop that walks a pointer over the transfer buffer refines the text of the listing, made
  from the entries of the directory as they are on the disk; in a cluster whose entries are all shown it does not
  stop at the end of the cluster. What a message shows is the text that low memory holds at the codes of its
  characters (\<open>uttered\<close>).
\<close>

subsection \<open>The text of a listing\<close>

text \<open>
  Bits 1 and 2 of the attributes are those of hidden and system files, bit 4 that of directories, and
  bits 0 to 3 together mark a part of a long name. An entry is shown if it is none of a free entry
  (first byte \<open>0xE5\<close>) and a part of a long name, and: in the exclusive mode (1), if it has no attribute but
  those asked for; otherwise if it is neither hidden nor a system file, apart from the attributes
  asked for in mode 0.
\<close>

definition visible :: "u8 \<Rightarrow> int \<Rightarrow> directory_entry \<Rightarrow> bool" where
  "visible asked exclusive e \<longleftrightarrow> file_name e ! 0 \<noteq> 0xE5 \<and> \<not> (\<forall>k < 4. bit (attributes e) k)
     \<and> (if exclusive = 1 then \<forall>k < 8. bit (attributes e) k \<longrightarrow> bit asked k
        else \<forall>k \<in> {1, 2}. bit (attributes e) k \<longrightarrow> exclusive = 0 \<and> bit asked k)"

definition dotted :: "directory_entry \<Rightarrow> bool" where
  "dotted e \<longleftrightarrow> file_name e ! 0 = 0x2E"

definition is_dir :: "directory_entry \<Rightarrow> bool" where
  "is_dir e \<longleftrightarrow> bit (attributes e) 4"

text \<open>
  A stored name is the base and the extension, each filled up with spaces. It is shown with a dot
  between them and spaces behind, twelve characters in all; but behind an extension of one or two characters
  comes what the local array \<open>stale\<close> held there before, and a NUL there ends the text.
\<close>

definition base_of :: "u8 list \<Rightarrow> u8 list" where
  "base_of name = takeWhile (\<lambda>c. c \<noteq> 0x20) (take 8 name)"

definition ext_of :: "u8 list \<Rightarrow> u8 list" where
  "ext_of name = takeWhile (\<lambda>c. c \<noteq> 0x20) (drop 8 name)"

definition shown_name :: "u8 list \<Rightarrow> u8 list \<Rightarrow> u8 list" where
  "shown_name stale name =
     (let b = base_of name; x = ext_of name; full = b @ [0x2E] @ x; junk = stale ! length full
      in if x = [] then b @ replicate (12 - length b) 0x20
         else if length x = 3 then full @ replicate (12 - length full) 0x20
         else if junk = 0 then full
         else full @ [junk] @ replicate (11 - length full) 0x20)"

definition entry_text :: "u8 list \<Rightarrow> directory_entry \<Rightarrow> u8 list" where
  "entry_text stale e = shown_name stale (file_name e) @ [9] @ (if is_dir e then [9] else hex_text (file_size e) 8)
     @ [9] @ (if is_dir e then lit ''DIR'' else []) @ [10]"

definition dot_text :: "directory_entry \<Rightarrow> u8 list" where
  "dot_text e = lit (if file_name e ! 1 = 0x2E then ''..'' else ''.'') @ [9, 9, 9] @ lit ''DIR'' @ [10]"

definition line_text :: "u8 list \<Rightarrow> u8 \<Rightarrow> int \<Rightarrow> directory_entry \<Rightarrow> u8 list" where
  "line_text stale asked exclusive e =
     (if dotted e then dot_text e else if visible asked exclusive e then entry_text stale e else [])"

definition listing_text :: "u8 list \<Rightarrow> u8 \<Rightarrow> int \<Rightarrow> directory_entry list \<Rightarrow> u8 list" where
  "listing_text stale asked exclusive es = concat (map (line_text stale asked exclusive) es)"

text \<open>The entries of a cluster, and an entry whose line can be printed: its name is in ASCII.\<close>

definition entry_of :: "nat \<times> u8 list \<Rightarrow> directory_entry" where
  "entry_of kb = directory_entry_of (snd kb)"

definition listable :: "u8 \<Rightarrow> int \<Rightarrow> directory_entry \<Rightarrow> bool" where
  "listable asked exclusive e \<longleftrightarrow> dotted e \<or> \<not> visible asked exclusive e
     \<or> (\<exists>b x. file_name e = name83 b x \<and> good83 b x \<and> ascii b \<and> ascii x)"

definition clean :: "u8 list \<Rightarrow> bool" where
  "clean stale \<longleftrightarrow> length stale = 13 \<and> list_all (\<lambda>c. c < 128) stale"

subsection \<open>The mask of hidden attributes\<close>

definition hidden :: "u8 \<Rightarrow> directory_entry \<Rightarrow> bool" where
  "hidden hide e \<longleftrightarrow> file_name e ! 0 = ENTRY_FREE \<or> attributes e AND FILE_LONG_NAME = FILE_LONG_NAME
     \<or> attributes e AND hide \<noteq> 0"

lemma u8_eq_iff: "(v :: u8) = w \<longleftrightarrow> (\<forall>k < 8. bit v k = bit w k)"
  by (auto intro: bit_word_eqI)

lemma mask_bits:
  "bit (6 :: int) k \<longleftrightarrow> k = 1 \<or> k = 2" "bit (15 :: int) k \<longleftrightarrow> k < 4" "bit (16 :: int) k \<longleftrightarrow> k = 4"
proof -
  have "(15 :: int) = mask 4" by (simp add: mask_numeral)
  then show "bit (15 :: int) k \<longleftrightarrow> k < 4" by (simp only: bit_mask_iff) simp
  have "(6 :: int) = push_bit 1 (mask 2)" by (simp add: mask_numeral)
  then show "bit (6 :: int) k \<longleftrightarrow> k = 1 \<or> k = 2" by (simp only: bit_push_bit_iff bit_mask_iff) auto
  show "bit (16 :: int) k \<longleftrightarrow> k = 4"
    using bit_exp_iff [where 'a = int, of 4 k] by auto
qed

lemma dir_bit: "w AND FILE_DIRECTORY = FILE_DIRECTORY \<longleftrightarrow> bit (w :: u8) 4"
  unfolding FILE_DIRECTORY_def u8_eq_iff by (auto simp: bit_and_iff mask_bits dest: spec [of _ 4])

lemma hidden_visible: "hidden (attributes_to_hide asked exclusive) e \<longleftrightarrow> \<not> visible asked exclusive e"
proof -
  have long: "attributes e AND FILE_LONG_NAME = FILE_LONG_NAME \<longleftrightarrow> (\<forall>k < 4. bit (attributes e) k)"
  proof -
    have m: "FILE_LONG_NAME = 15"
      by (simp add: FILE_LONG_NAME_def FILE_READ_ONLY_def FILE_HIDDEN_def FILE_SYSTEM_def FILE_VOLUME_ID_def)
    have "attributes e AND FILE_LONG_NAME = FILE_LONG_NAME \<longleftrightarrow> (\<forall>k < 8. k < 4 \<longrightarrow> bit (attributes e) k)"
      unfolding u8_eq_iff m by (auto simp: bit_and_iff mask_bits)
    then show ?thesis by auto
  qed
  have "attributes e AND attributes_to_hide asked exclusive = 0 \<longleftrightarrow>
      (if exclusive = 1 then \<forall>k < 8. bit (attributes e) k \<longrightarrow> bit asked k
       else \<forall>k \<in> {1, 2}. bit (attributes e) k \<longrightarrow> exclusive = 0 \<and> bit asked k)"
    unfolding u8_eq_iff
    by (auto simp: attributes_to_hide_def FILE_HIDDEN_def FILE_SYSTEM_def bit_and_iff bit_not_iff mask_bits Let_def
        dest: spec [of _ 1] spec [of _ 2])
  then show ?thesis by (simp add: hidden_def visible_def long ENTRY_FREE_def)
qed

subsection \<open>The line of an entry\<close>

text \<open>A message or a sequence of them with its text.\<close>

definition utters :: "'d bus \<Rightarrow> (('d, 'z) tty_scheme \<Rightarrow> ('d, 'z) tty_scheme comp) \<Rightarrow> u8 list \<Rightarrow> bool" where
  "utters B p cs \<longleftrightarrow> (\<forall>s. tty_ok s \<and> benign (ram s) \<longrightarrow> p s = ret (terminal_write B (uttered (ram s) cs) s))"

lemma uttersD: "utters B p cs \<Longrightarrow> tty_ok s \<Longrightarrow> benign (ram s) \<Longrightarrow> p s = ret (terminal_write B (uttered (ram s) cs) s)"
  by (simp add: utters_def)

lemma utters_bnd: "utters B p cs \<Longrightarrow> utters B q ds \<Longrightarrow> utters B (\<lambda>s. bnd (p s) q) (cs @ ds)"
  by (simp add: utters_def terminal_write_ok(1) benign_write uttered_write terminal_write_append)
    (simp add: uttered_def)

lemma utters_ret: "utters B ret []"
  by (simp add: utters_def uttered_def terminal_write_def)

lemma utters_text:
  assumes "list_all (\<lambda>c. c < 128) xs" "0 \<in> set xs"
  shows "utters B (d_printss B xs) (text_of xs)"
proof -
  obtain cs r where xs: "xs = cs @ 0 # r" "0 \<notin> set cs"
    using split_list_first [OF assms(2)] by blast
  then have "ascii cs" "text_of xs = cs"
    using assms(1) by (auto simp: ascii_def list_all_iff takeWhile_eq_all_conv)
  then show ?thesis unfolding utters_def xs(1) using d_printss_uttered by auto
qed

lemma utters_lit: "ascii (lit m) \<Longrightarrow> utters B (d_printss B (cstr m)) (lit m)"
  unfolding utters_def cstr_def using d_printss_uttered by blast

lemma utters_hex: "utters B (d_printhex B num k) (hex_text num k)"
  unfolding utters_def using d_printhex_uttered by blast

lemma utters_if: "utters B p cs \<Longrightarrow> utters B q ds \<Longrightarrow> utters B (\<lambda>s. if P then p s else q s) (if P then cs else ds)"
  by (cases P) simp_all

lemma utters_printall: "list_all (\<lambda>m. ascii (lit m)) msgs \<Longrightarrow> utters B (d_printall B msgs) (concat (map lit msgs))"
proof (induction msgs)
  case Nil
  have "d_printall B [] = ret" by (rule ext) simp
  then show ?case using utters_ret by simp
next
  case (Cons m msgs)
  have "d_printall B (m # msgs) = (\<lambda>s. bnd (d_printss B (cstr m) s) (d_printall B msgs))" by (rule ext) simp
  then show ?case using Cons utters_bnd [OF utters_lit, of m B "d_printall B msgs"] by simp
qed

text \<open>What \<open>convertFromFATFormat\<close> gives up to the NUL is the shown name.\<close>

lemma name83_parts:
  assumes "good83 b x"
  shows "base_of (name83 b x) = b" "ext_of (name83 b x) = x"
proof -
  have b: "length b \<le> 8" "0x20 \<notin> set b" "0x20 \<notin> set x" "length x \<le> 3"
    using assms fat_chars_notin by (auto simp: good83_def)
  have tw: "takeWhile (\<lambda>c. c \<noteq> 0x20) (cs @ replicate k 0x20) = cs" if "0x20 \<notin> set cs" for cs :: "u8 list" and k
    using that by (induction cs) (auto simp: takeWhile_replicate)
  show "base_of (name83 b x) = b" "ext_of (name83 b x) = x"
    using b tw by (simp_all add: base_of_def ext_of_def name83_def)
qed

lemma shown_name83:
  assumes "good83 b x" "ascii b" "ascii x" "clean stale"
  shows "\<exists>t. convertFromFATFormat (name83 b x) stale = ret t \<and> list_all (\<lambda>c. c < 128) t \<and> 0 \<in> set t
    \<and> text_of t = shown_name stale (name83 b x)"
proof -
  let ?n = "length b + 1 + length x" and ?j = "stale ! (length b + 1 + length x)"
  have len: "?n < 13" "length b \<le> 8" "length x \<le> 3" using assms(1) by (simp_all add: good83_def)
  then have j: "?j < 128" using assms(4) by (simp add: clean_def list_all_length)
  have nz: "0 \<notin> set b" "0 \<notin> set x" using assms(2,3) by (auto simp: ascii_def list_all_iff)
  have tw: "text_of (cs @ replicate k 0x20 @ [0]) = cs @ replicate k 0x20" if "0 \<notin> set cs" for cs :: "u8 list" and k
    using that by (induction cs) (induction k, auto)
  note conv = convertFrom_name83 [OF assms(1), of stale] and parts = name83_parts [OF assms(1)]
  consider "x = []" | "length x = 3" | "x \<noteq> []" "length x \<noteq> 3" by blast
  then show ?thesis
  proof cases
    case 1
    then show ?thesis
      using conv assms(2,4) tw [OF nz(1)] parts by (simp add: clean_def ascii_def list_all_iff shown_name_def Let_def ball_Un)
  next
    case 2
    then have "x \<noteq> []" by auto
    then show ?thesis
      using 2 conv assms(2,3,4) tw [of "b @ 0x2E # x" "8 - length b"] nz parts len
      by (simp add: clean_def ascii_def list_all_iff shown_name_def Let_def ball_Un)
  next
    case 3
    have jz: "text_of (b @ 0x2E # x @ 0 # r) = b @ 0x2E # x" for r
      using nz takeWhile_append2 [of "b @ 0x2E # x" "\<lambda>c. c \<noteq> 0" "0 # r"] by auto
    have eq: "12 - (length b + 2 + length x) = 11 - ?n" by simp
    show ?thesis
      using 3 conv assms(2,3,4) tw [of "b @ 0x2E # x @ [?j]" "11 - ?n"] nz parts len j jz eq
      by (cases "?j = 0") (simp_all add: clean_def ascii_def list_all_iff shown_name_def Let_def ball_Un)
  qed
qed

lemma utters_list_entry:
  assumes "file_name e = name83 b x" "good83 b x" "ascii b" "ascii x" "clean stale"
  shows "utters B (list_entry B stale e) (entry_text stale e)"
proof -
  obtain t where t: "convertFromFATFormat (file_name e) stale = ret t" "list_all (\<lambda>c. c < 128) t" "0 \<in> set t"
    "text_of t = shown_name stale (file_name e)"
    using shown_name83 [OF assms(2-5)] assms(1) by auto
  have tab: "utters B (d_printss B (cstr [CHR 0x09])) [9]" "utters B (d_printss B (cstr [CHR 0x0A])) [10]"
    "utters B (d_printss B (cstr ''DIR'')) (lit ''DIR'')"
    using utters_lit [of "[CHR 0x09]" B] utters_lit [of "[CHR 0x0A]" B] utters_lit [of "''DIR''" B]
    by (simp_all add: ascii_def lit_def)
  have "utters B (list_entry B stale e) (text_of t @ [9] @ (if \<not> is_dir e then hex_text (file_size e) 8 else [9]) @ [9]
      @ (if is_dir e then lit ''DIR'' else []) @ [10])"
    unfolding list_entry_def t(1) bnd_ret dir_bit is_dir_def [symmetric]
    by (intro utters_bnd utters_if utters_text [OF t(2,3)] tab utters_hex utters_ret)
  then show ?thesis unfolding entry_text_def t(4) by (cases "is_dir e") simp_all
qed

definition dot_line :: "'d bus \<Rightarrow> directory_entry \<Rightarrow> ('d, 'z) tty_scheme \<Rightarrow> ('d, 'z) tty_scheme comp" where
  "dot_line B e = d_printall B [if file_name e ! 1 = 0x2E then ''..'' else ''.'', [CHR 0x09], [CHR 0x09], [CHR 0x09],
     ''DIR'', [CHR 0x0A]]"

definition entry_line ::
  "'d bus \<Rightarrow> u8 list \<Rightarrow> u8 \<Rightarrow> directory_entry \<Rightarrow> ('d, 'z) fat_scheme \<Rightarrow> ('d, 'z) fat_scheme comp" where
  "entry_line B stale hide e =
     (if dotted e then dot_line B e else if hidden hide e then ret else list_entry B stale e)"

primrec listing ::
  "'d bus \<Rightarrow> u8 list \<Rightarrow> u8 \<Rightarrow> directory_entry list \<Rightarrow> ('d, 'z) fat_scheme \<Rightarrow> ('d, 'z) fat_scheme comp" where
  "listing B stale hide [] s = ret s"
| "listing B stale hide (e # es) s = bnd (entry_line B stale hide e s) (listing B stale hide es)"

lemma utters_entry_line:
  assumes "listable asked exclusive e" "clean stale"
  shows "utters B (entry_line B stale (attributes_to_hide asked exclusive) e) (line_text stale asked exclusive e)"
proof -
  have "utters B (dot_line B e) (dot_text e)"
    unfolding dot_line_def dot_text_def
    using utters_printall [of "[if file_name e ! 1 = 0x2E then ''..'' else ''.'', [CHR 0x09], [CHR 0x09], [CHR 0x09], ''DIR'', [CHR 0x0A]]" B]
    by (cases "file_name e ! 1 = 0x2E") (simp_all add: ascii_def lit_def)
  then show ?thesis
    using assms utters_list_entry utters_ret
    by (fastforce simp: entry_line_def line_text_def listable_def hidden_visible)
qed

subsection \<open>The loop\<close>

text \<open>One step at a slot that is in use.\<close>

lemma dots:
  assumes "length name = 11"
  shows "\<exists>r q. strncmp name (cstr ''..'') 2 = ret r \<and> strncmp name (cstr ''.'') 1 = ret q
    \<and> (r = 0 \<or> q = 0 \<longleftrightarrow> name ! 0 = 0x2E)"
proof -
  obtain a b r where "name = a # b # r"
    using assms by (cases name; cases "tl name") auto
  then show ?thesis by (auto simp: cstr_def lit_def numeral_2_eq_2)
qed

lemma list_scan_slot:
  fixes s :: "('d, 'z) fat_scheme"
  assumes buf: "mem_read (ram s) DISK_READ_LOCATION 512 = bs" and k: "k < 16" and lim: "last_entry s = 15"
  defines "kb \<equiv> (k, take 32 (drop (32 * k) bs))" and "p \<equiv> \<lambda>k. DISK_READ_LOCATION + 32 * of_nat k"
  shows "\<not> live_slot kb \<Longrightarrow> list_scan B stale hide (p k) (of_nat k) s = ret (True, s)"
    and "live_slot kb \<Longrightarrow> \<not> (k = 15 \<and> hidden hide (entry_of kb) \<and> \<not> dotted (entry_of kb)) \<Longrightarrow>
      list_scan B stale hide (p k) (of_nat k) s =
        bnd (entry_line B stale hide (entry_of kb) s) (list_scan B stale hide (p (Suc k)) (of_nat (Suc k)))"
    and "live_slot kb \<Longrightarrow> k = 15 \<Longrightarrow> hidden hide (entry_of kb) \<Longrightarrow> \<not> dotted (entry_of kb) \<Longrightarrow>
      list_scan B stale hide (p k) (of_nat k) s = ret (False, s)"
proof -
  have e: "entry_at (ram s) (p k) = entry_of kb"
    using buffer_slot [OF buf k] by (simp add: entry_at_def entry_of_def kb_def p_def)
  have "length (take 32 (drop (32 * k) bs)) = 32" using buf k by (auto simp: min_def)
  then have name: "length (file_name (entry_of kb)) = 11" "file_name (entry_of kb) ! 0 = ENTRY_END \<longleftrightarrow> \<not> live_slot kb"
    by (auto simp: entry_of_def directory_entry_of_def live_slot_def kb_def)
  obtain r q where rq: "strncmp (file_name (entry_of kb)) (cstr ''..'') 2 = ret r"
    "strncmp (file_name (entry_of kb)) (cstr ''.'') 1 = ret q" "r = 0 \<or> q = 0 \<longleftrightarrow> dotted (entry_of kb)"
    using dots [OF name(1)] by (auto simp: dotted_def)
  have succ: "p k + sizeof_directory_entry = p (Suc k)"
    by (simp add: p_def sizeof_directory_entry_def algebra_simps)
  have lt: "(of_nat k :: u32) < 15 \<longleftrightarrow> k < 15"
    using k by (simp add: word_less_nat_alt unat_of_nat)
  note step = list_scan.simps [of B stale hide "p k" "of_nat k" s, unfolded Let_def e rq(1,2) bnd_ret rq(3) name(2) lim lt succ]
  show "\<not> live_slot kb \<Longrightarrow> list_scan B stale hide (p k) (of_nat k) s = ret (True, s)"
    by (simp add: step)
  show "live_slot kb \<Longrightarrow> \<not> (k = 15 \<and> hidden hide (entry_of kb) \<and> \<not> dotted (entry_of kb)) \<Longrightarrow>
      list_scan B stale hide (p k) (of_nat k) s =
        bnd (entry_line B stale hide (entry_of kb) s) (list_scan B stale hide (p (Suc k)) (of_nat (Suc k)))"
    using k unfolding step by (cases "k = 15"; cases "dotted (entry_of kb)") (simp_all add: entry_line_def dot_line_def hidden_def add.commute)
  show "live_slot kb \<Longrightarrow> k = 15 \<Longrightarrow> hidden hide (entry_of kb) \<Longrightarrow> \<not> dotted (entry_of kb) \<Longrightarrow>
      list_scan B stale hide (p k) (of_nat k) s = ret (False, s)"
    unfolding step by (simp add: hidden_def)
qed

lemma utters_listing:
  assumes "clean stale"
  shows "list_all (listable asked exclusive) es \<Longrightarrow>
    utters B (listing B stale (attributes_to_hide asked exclusive) es) (listing_text stale asked exclusive es)"
proof (induction es)
  case Nil
  have "listing B stale (attributes_to_hide asked exclusive) [] = ret" by (rule ext) simp
  then show ?case using utters_ret by (simp add: listing_text_def)
next
  case (Cons e es)
  let ?h = "attributes_to_hide asked exclusive"
  have "listing B stale ?h (e # es) = (\<lambda>s. bnd (entry_line B stale ?h e s) (listing B stale ?h es))"
    by (rule ext) simp
  then show ?case
    using Cons utters_bnd [OF utters_entry_line [OF _ assms], of asked exclusive e B "listing B stale ?h es"]
    by (simp add: listing_text_def)
qed

text \<open>Text output keeps the volume and the transfer buffer.\<close>

lemma write_keeps_buffer:
  fixes s :: "('d, 'z) fat_scheme"
  assumes "ata_on B drv" "fat32_vol drv s" "benign (ram s)"
  shows "vol_step drv s (terminal_write B ds s)" "benign (ram (terminal_write B ds s))"
    "mem_read (ram (terminal_write B ds s)) DISK_READ_LOCATION 512 = mem_read (ram s) DISK_READ_LOCATION 512"
proof -
  have "apart VGA_MEMORY 4000 DISK_READ_LOCATION 512"
    using apart_below [of DISK_READ_LOCATION 512 VGA_MEMORY 4000]
    by (simp add: DISK_READ_LOCATION_def VGA_MEMORY_def)
  then show "mem_read (ram (terminal_write B ds s)) DISK_READ_LOCATION 512 = mem_read (ram s) DISK_READ_LOCATION 512"
    using off_screen_apart [OF write_vol(2) [OF assms(1,2)]] by simp
  show "vol_step drv s (terminal_write B ds s)" "benign (ram (terminal_write B ds s))"
    using write_vol(1) [OF assms(1,2)] benign_write [OF fat32_vol_tty [OF assms(2)] assms(3)] by simp_all
qed

lemma list_scan_run:
  fixes s :: "('d, 'z) fat_scheme" and asked :: u8 and exclusive :: int
  assumes dev: "ata_on B drv" and stale: "clean stale"
  defines "p \<equiv> \<lambda>k. DISK_READ_LOCATION + 32 * of_nat k" and "hide \<equiv> attributes_to_hide asked exclusive"
  shows "fat32_vol drv s \<Longrightarrow> benign (ram s) \<Longrightarrow> mem_read (ram s) DISK_READ_LOCATION 512 = bs \<Longrightarrow> last_entry s = 15 \<Longrightarrow>
    k + n \<le> 16 \<Longrightarrow> es = take n (drop k (slots bs)) \<Longrightarrow> list_all live_slot es \<Longrightarrow>
    list_all (listable asked exclusive) (map entry_of es) \<Longrightarrow>
    \<not> (k + n = 16 \<and> n > 0 \<and> hidden hide (entry_of (slots bs ! 15)) \<and> \<not> dotted (entry_of (slots bs ! 15))) \<Longrightarrow>
    list_scan B stale hide (p k) (of_nat k) s =
      bnd (listing B stale hide (map entry_of es) s) (list_scan B stale hide (p (k + n)) (of_nat (k + n)))"
proof (induction n arbitrary: k s es)
  case (Suc n)
  let ?kb = "(k, take 32 (drop (32 * k) bs))"
  have k: "k < 16" using Suc.prems(5) by simp
  have es: "es = ?kb # take n (drop (Suc k) (slots bs))"
    unfolding Suc.prems(6) drop_slots [OF k] by simp
  have head: "live_slot ?kb" "listable asked exclusive (entry_of ?kb)" using Suc.prems(7,8) es by simp_all
  have "slots bs ! k = ?kb" using k by (simp add: slots_def del: upt_rec_numeral)
  then have last: "\<not> (k = 15 \<and> hidden hide (entry_of ?kb) \<and> \<not> dotted (entry_of ?kb))"
    using Suc.prems(5,9) by auto
  obtain ds where u: "entry_line B stale hide (entry_of ?kb) s = ret (terminal_write B ds s)"
    using uttersD [OF utters_entry_line [OF head(2) stale] fat32_vol_tty [OF Suc.prems(1)] Suc.prems(2)]
    unfolding hide_def by blast
  let ?u = "terminal_write B ds s"
  note w = write_keeps_buffer [OF dev Suc.prems(1,2), of ds]
  have "last_entry ?u = 15"
    using Suc.prems(4) vol_step_view(7) [OF w(1)] by (simp add: last_entry_def cluster_bytes_def)
  then have "list_scan B stale hide (p (Suc k)) (of_nat (Suc k)) ?u =
      bnd (listing B stale hide (map entry_of (take n (drop (Suc k) (slots bs)))) ?u)
        (list_scan B stale hide (p (Suc k + n)) (of_nat (Suc k + n)))"
    using Suc.prems(3,5,7,8,9) w vol_step_view(4) [OF w(1)] es by (intro Suc.IH) auto
  then show ?case
    using list_scan_slot(2) [OF Suc.prems(3) k Suc.prems(4) head(1) last, of B stale] u es
    unfolding p_def by simp
qed simp

lemma end_slot:
  assumes "\<not> list_all live_slot (slots bs)"
  obtains j where "j < 16" "takeWhile live_slot (slots bs) = take j (slots bs)"
    "\<not> live_slot (j, take 32 (drop (32 * j) bs))"
proof -
  define j where "j = length (takeWhile live_slot (slots bs))"
  have len: "length (slots bs) = 16" by (simp add: slots_def)
  have all: "takeWhile live_slot (slots bs) = take j (slots bs)"
    unfolding j_def by (rule takeWhile_eq_take)
  have "j \<noteq> 16"
  proof
    assume "j = 16"
    then have "takeWhile live_slot (slots bs) = slots bs" using all len by simp
    then show False using assms by (simp add: takeWhile_eq_all_conv list_all_iff)
  qed
  then have j: "j < 16" using length_takeWhile_le [of live_slot "slots bs"] len by (simp add: j_def)
  then have "slots bs ! j = (j, take 32 (drop (32 * j) bs))"
    by (simp add: slots_def del: upt_rec_numeral)
  moreover have "\<not> live_slot (slots bs ! j)"
    using nth_length_takeWhile [of live_slot "slots bs"] len j by (simp add: j_def)
  ultimately show ?thesis using that [OF j all] by simp
qed

lemma directoryList_listing:
  fixes s :: "('d, 'z) fat_scheme" and asked :: u8 and exclusive :: int
  assumes dev: "ata_on B drv" and s: "fat32_vol drv s" "on_volume s c" "benign (ram s)" and stale: "clean stale"
  defines "ds \<equiv> slots (cluster_data drv s c)"
  assumes fin: "\<not> list_all live_slot ds" and ok: "list_all (listable asked exclusive) (map entry_of (takeWhile live_slot ds))"
  defines "out \<equiv> uttered (ram s) (listing_text stale asked exclusive (map entry_of (takeWhile live_slot ds)))"
  shows "\<exists>u. clusterRead B c 0 s = ret (0, u) \<and> directoryList B stale c asked exclusive s = ret (0, terminal_write B out u)
    \<and> vol_step drv s (terminal_write B out u)"
proof -
  let ?hide = "attributes_to_hide asked exclusive" and ?es = "map entry_of (takeWhile live_slot ds)"
  obtain u where u: "clusterRead B c 0 s = ret (0, u)" "vol_step drv s u"
    "off_screen (ram u) (mem_write (ram s) DISK_READ_LOCATION (cluster_data drv s c))"
    using clusterRead_ok [OF dev s(1,2), of 0] by auto
  note v = vol_step_view [OF u(2)] and len = fat32_vol_cluster(6) [OF s(1,2)]
  have buf: "mem_read (ram u) DISK_READ_LOCATION 512 = cluster_data drv s c"
    using buffer_holds [OF u(3) len] .
  have ben: "benign (ram u)" using benign_buffer [OF u(3)] len s(3) by simp
  have "spoken (ram u) = spoken (ram s)"
    using u(3) len by (intro spoken_cong) (simp add: off_screen_def mem_write_out low_outside)
  then have said: "uttered (ram u) = uttered (ram s)" by (simp add: uttered_def [abs_def])
  have lim: "last_entry u = 15" using fat32_vol_cluster(5) [OF v(4)] v(3) s(2) by simp
  obtain j where j: "j < 16" "takeWhile live_slot ds = take j (slots (cluster_data drv s c))"
    "\<not> live_slot (j, take 32 (drop (32 * j) (cluster_data drv s c)))"
    using end_slot fin unfolding ds_def by blast
  have live: "list_all live_slot (takeWhile live_slot ds)" by (auto simp: list_all_iff dest: set_takeWhileD)
  have scan: "list_scan B stale ?hide DISK_READ_LOCATION 0 u =
      bnd (listing B stale ?hide ?es u) (list_scan B stale ?hide (DISK_READ_LOCATION + 32 * of_nat j) (of_nat j))"
    using list_scan_run [OF dev stale v(4) ben buf lim _ _ live ok, of 0 j] j(1,2) by simp
  have lines: "listing B stale ?hide ?es u = ret (terminal_write B out u)"
    using uttersD [OF utters_listing [OF stale ok] fat32_vol_tty [OF v(4)] ben] by (simp add: out_def said)
  let ?t = "terminal_write B out u"
  note w = write_keeps_buffer [OF dev v(4) ben, of out]
  have "last_entry ?t = 15"
    using lim vol_step_view(7) [OF w(1)] by (simp add: last_entry_def cluster_bytes_def)
  then have "list_scan B stale ?hide (DISK_READ_LOCATION + 32 * of_nat j) (of_nat j) ?t = ret (True, ?t)"
    using list_scan_slot(1) [of ?t "cluster_data drv s c" j] w(3) buf j(1,3) by simp
  then have "list_scan B stale ?hide DISK_READ_LOCATION 0 u = ret (True, ?t)" using scan lines by simp
  then have "directoryList B stale c asked exclusive s = ret (0, ?t)"
    using s(2) u(1) by (subst directoryList.simps) (auto simp: on_volume_def)
  then show ?thesis using u vol_step_trans [OF u(2) w(1)] by blast
qed

text \<open>
  A cluster whose last entry is shown and that has no end mark: the loop goes on with the memory
  behind the cluster.
\<close>

lemma list_scan_leaves_cluster:
  fixes s :: "('d, 'z) fat_scheme" and asked :: u8 and exclusive :: int
  assumes "ata_on B drv" "clean stale" "fat32_vol drv s" "benign (ram s)" "last_entry s = 15"
  defines "ds \<equiv> slots (mem_read (ram s) DISK_READ_LOCATION 512)" and "hide \<equiv> attributes_to_hide asked exclusive"
  assumes "list_all live_slot ds" "list_all (listable asked exclusive) (map entry_of ds)" "visible asked exclusive (entry_of (last ds))"
  shows "list_scan B stale hide DISK_READ_LOCATION 0 s =
    bnd (listing B stale hide (map entry_of ds) s) (list_scan B stale hide (DISK_READ_LOCATION + 512) 16)"
proof -
  have "length ds = 16" by (simp add: ds_def slots_def)
  then have "take 16 (drop 0 ds) = ds" "last ds = ds ! 15" by (simp_all add: last_conv_nth flip: length_0_conv)
  then show ?thesis
    using list_scan_run [OF assms(1,2,3,4) _ assms(5), of _ 0 16 ds asked exclusive] assms(8-10)
    by (simp add: ds_def hide_def hidden_visible)
qed

subsection \<open>Long names\<close>

text \<open>
  The structure of a part of a long name has its attributes where a directory entry has them, so
  that the test of the listing recognises it.
\<close>

record long_entry =
  le_order :: u8
  le_first_five :: "u8 list"
  le_attributes :: u8
  le_type :: u8
  le_checksum :: u8
  le_next_six :: "u8 list"
  le_zero :: u16
  le_last_two :: "u8 list"

definition long_entry_of :: "u8 list \<Rightarrow> long_entry" where
  "long_entry_of bs =
     \<lparr>le_order = bs ! 0, le_first_five = take 10 (drop 1 bs), le_attributes = bs ! 11, le_type = bs ! 12,
      le_checksum = bs ! 13, le_next_six = take 12 (drop 14 bs), le_zero = get16 bs 26, le_last_two = take 4 (drop 28 bs)\<rparr>"

lemma long_entry_not_listed:
  assumes "le_attributes (long_entry_of (snd kb)) = FILE_LONG_NAME" "\<not> dotted (entry_of kb)"
  shows "entry_line B stale hide (entry_of kb) s = ret s"
  using assms by (simp add: entry_line_def hidden_def entry_of_def long_entry_of_def directory_entry_of_def)

subsection \<open>Other structures of the volume\<close>

text \<open>
  The extended boot record of the smaller table types and the sector with the numbers of free clusters,
  which the header declares and the driver does not read.
\<close>

record fat_extBS_16 =
  bios_drive_num :: u8
  reserved1_16 :: u8
  boot_signature_16 :: u8
  volume_id_16 :: u32
  volume_label_16 :: "u8 list"
  fat_type_label_16 :: "u8 list"

definition extBS_16_of :: "u8 list \<Rightarrow> fat_extBS_16" where
  "extBS_16_of bs =
     \<lparr>bios_drive_num = bs ! 0, reserved1_16 = bs ! 1, boot_signature_16 = bs ! 2, volume_id_16 = get32 bs 3,
      volume_label_16 = take 11 (drop 7 bs), fat_type_label_16 = take 8 (drop 18 bs)\<rparr>"

record fsInfo =
  lead_signature :: u32
  fs_reserved1 :: "u8 list"
  structure_signature :: u32
  free_space :: u32
  last_written :: u32
  fs_reserved2 :: "u8 list"
  trail_signature :: u32

definition fsInfo_of :: "u8 list \<Rightarrow> fsInfo" where
  "fsInfo_of bs =
     \<lparr>lead_signature = get32 bs 0, fs_reserved1 = take 480 (drop 4 bs), structure_signature = get32 bs 484,
      free_space = get32 bs 488, last_written = get32 bs 492, fs_reserved2 = take 12 (drop 496 bs), trail_signature = get32 bs 508\<rparr>"

definition fsInfo_bytes :: "fsInfo \<Rightarrow> u8 list" where
  "fsInfo_bytes f = bytes32 (lead_signature f) @ fs_reserved1 f @ bytes32 (structure_signature f) @ bytes32 (free_space f)
     @ bytes32 (last_written f) @ fs_reserved2 f @ bytes32 (trail_signature f)"

text \<open>The structure fills one sector and survives it.\<close>

lemma get32_at: "length xs = i \<Longrightarrow> get32 (xs @ bytes32 v @ ys) i = v"
  by (simp add: get32_def bytes32_def nth_append le32_bytes32)

lemma fsInfo_sector:
  assumes "length (fs_reserved1 f) = 480" "length (fs_reserved2 f) = 12"
  shows "length (fsInfo_bytes f) = 512" "fsInfo_of (fsInfo_bytes f) = f"
proof -
  let ?a = "bytes32 (lead_signature f) @ fs_reserved1 f" and ?s = "bytes32 (structure_signature f)"
  let ?b = "?a @ ?s @ bytes32 (free_space f)" and ?l = "bytes32 (last_written f)"
  have len: "length (bytes32 v) = 4" for v by (simp add: bytes32_def)
  then show "length (fsInfo_bytes f) = 512" using assms by (simp add: fsInfo_bytes_def)
  have "get32 (fsInfo_bytes f) 0 = lead_signature f" "get32 (fsInfo_bytes f) 484 = structure_signature f"
    "get32 (fsInfo_bytes f) 488 = free_space f" "get32 (fsInfo_bytes f) 492 = last_written f"
    "get32 (fsInfo_bytes f) 508 = trail_signature f"
    using assms len get32_at [of "[]" 0] get32_at [of ?a 484] get32_at [of "?a @ ?s" 488] get32_at [of ?b 492]
      get32_at [of "?b @ ?l @ fs_reserved2 f" 508 _ "[]"]
    by (simp_all add: fsInfo_bytes_def)
  moreover have "take 480 (drop 4 (fsInfo_bytes f)) = fs_reserved1 f" "take 12 (drop 496 (fsInfo_bytes f)) = fs_reserved2 f"
    using assms len by (simp_all add: fsInfo_bytes_def)
  ultimately show "fsInfo_of (fsInfo_bytes f) = f" by (cases f) (simp add: fsInfo_of_def)
qed

text \<open>The macro that joins the halves of a cluster number agrees with the one for an entry.\<close>

definition CONCAT_ENTRY_HL_BITS :: "u32 \<Rightarrow> u32 \<Rightarrow> u32 \<Rightarrow> u32 comp" where
  "CONCAT_ENTRY_HL_BITS ft high low = (if ft div 2 < 32 then ret (push_bit (unat (ft div 2)) high OR low) else stuck BadShift)"

lemma concat_entry: "CONCAT_ENTRY_HL_BITS ft (ucast (high_bits x)) (ucast (low_bits x)) = GET_CLUSTER_FROM_ENTRY ft x"
  by (simp add: CONCAT_ENTRY_HL_BITS_def GET_CLUSTER_FROM_ENTRY_def or.commute)

subsection \<open>Properties\<close>



end
