(* ===== verification/Graphics.thy ===== *)
theory Graphics
  imports Bus
begin

section \<open>Drawing into a framebuffer\<close>

text \<open>
  The drawing routines of \<^verbatim>\<open>kernel/arch/i386/tty.c\<close>: pixels, lines, boxes, and characters from a
  built-in font. Coordinates are C \<open>int\<close>s; an operation that leaves their range is a fault.
  The framebuffer is memory; a pixel takes one byte.
\<close>

subsection \<open>Lines and boxes\<close>

definition draw_pixel :: "int \<Rightarrow> int \<Rightarrow> u8 \<Rightarrow> ('d, 'z) hw_scheme \<Rightarrow> ('d, 'z) hw_scheme comp" where
  "draw_pixel x y color s =
     bnd (c_int (y * 800)) (\<lambda>row. bnd (c_int (row + x)) (\<lambda>i.
       ret (s\<lparr>ram := (ram s)(0xA0000 + of_int i := color)\<rparr>)))"

lemma c_int_ret: "c_int n = ret m \<Longrightarrow> m = n"
  by (simp add: c_int_def split: if_splits)

text \<open>The loop of each line, from the current coordinate on.\<close>

function horizontal_from :: "int \<Rightarrow> int \<Rightarrow> int \<Rightarrow> u8 \<Rightarrow> ('d, 'z) hw_scheme \<Rightarrow> ('d, 'z) hw_scheme comp" where
  "horizontal_from x x2 y color s =
     (if x \<le> x2
      then bnd (draw_pixel x y color s) (\<lambda>s. bnd (c_int (x + 1)) (\<lambda>x'. horizontal_from x' x2 y color s))
      else ret s)"
  by pat_completeness auto
termination
  by (relation "measure (\<lambda>(x, x2, y, color, s). nat (x2 - x + 1))") (auto dest: c_int_ret)

function vertical_from :: "int \<Rightarrow> int \<Rightarrow> int \<Rightarrow> u8 \<Rightarrow> ('d, 'z) hw_scheme \<Rightarrow> ('d, 'z) hw_scheme comp" where
  "vertical_from y y2 x color s =
     (if y \<le> y2
      then bnd (draw_pixel x y color s) (\<lambda>s. bnd (c_int (y + 1)) (\<lambda>y'. vertical_from y' y2 x color s))
      else ret s)"
  by pat_completeness auto
termination
  by (relation "measure (\<lambda>(y, y2, x, color, s). nat (y2 - y + 1))") (auto dest: c_int_ret)

declare horizontal_from.simps [simp del] vertical_from.simps [simp del]

definition draw_horizontal_line :: "int \<Rightarrow> int \<Rightarrow> int \<Rightarrow> u8 \<Rightarrow> ('d, 'z) hw_scheme \<Rightarrow> ('d, 'z) hw_scheme comp" where
  "draw_horizontal_line x1 x2 y color s = horizontal_from x1 x2 y color s"

definition draw_vertical_line :: "int \<Rightarrow> int \<Rightarrow> int \<Rightarrow> u8 \<Rightarrow> ('d, 'z) hw_scheme \<Rightarrow> ('d, 'z) hw_scheme comp" where
  "draw_vertical_line y1 y2 x color s = vertical_from y1 y2 x color s"

definition draw_box :: "int \<Rightarrow> int \<Rightarrow> int \<Rightarrow> int \<Rightarrow> u8 \<Rightarrow> ('d, 'z) hw_scheme \<Rightarrow> ('d, 'z) hw_scheme comp" where
  "draw_box x1 y1 x2 y2 color s =
     bnd (draw_horizontal_line x1 x2 y1 color s) (\<lambda>s.
     bnd (draw_horizontal_line x1 x2 y2 color s) (\<lambda>s.
     bnd (draw_vertical_line y1 y2 x1 color s)
         (draw_vertical_line y1 y2 x2 color)))"

subsection \<open>Text\<close>

text \<open>The rows the source gives; the array has 256, and the rest of them are zero.\<close>

definition font_rows :: "u8 list list" where
  "font_rows = [
    [0x1F, 0x11, 0x11, 0x11, 0x11, 0x11, 0x11, 0x1F],
    [0x1F, 0x11, 0x11, 0x1F, 0x11, 0x11, 0x11, 0x1F],
    [0x1F, 0x01, 0x01, 0x01, 0x01, 0x01, 0x01, 0x1F],
    [0x1F, 0x11, 0x11, 0x1F, 0x11, 0x11, 0x11, 0x1F],
    [0x1F, 0x01, 0x01, 0x1F, 0x01, 0x01, 0x01, 0x1F],
    [0x1F, 0x01, 0x01, 0x1F, 0x01, 0x01, 0x01, 0x01],
    [0x1F, 0x01, 0x01, 0x1F, 0x11, 0x11, 0x11, 0x1F],
    [0x11, 0x11, 0x11, 0x1F, 0x11, 0x11, 0x11, 0x11],
    [0x1F, 0x01, 0x01, 0x01, 0x01, 0x01, 0x01, 0x1F],
    [0x01, 0x01, 0x01, 0x01, 0x01, 0x01, 0x11, 0x1F],
    [0x11, 0x11, 0x11, 0x1F, 0x01, 0x01, 0x01, 0x11],
    [0x11, 0x01, 0x01, 0x01, 0x01, 0x01, 0x01, 0x1F],
    [0x11, 0x11, 0x11, 0x1F, 0x11, 0x11, 0x11, 0x11],
    [0x11, 0x11, 0x11, 0x1F, 0x11, 0x11, 0x11, 0x11],
    [0x1F, 0x11, 0x11, 0x11, 0x11, 0x11, 0x11, 0x1F],
    [0x1F, 0x11, 0x11, 0x1F, 0x01, 0x01, 0x01, 0x01],
    [0x1F, 0x11, 0x11, 0x11, 0x11, 0x11, 0x11, 0x1F],
    [0x1F, 0x11, 0x11, 0x1F, 0x01, 0x01, 0x01, 0x11],
    [0x1F, 0x01, 0x01, 0x1F, 0x11, 0x11, 0x11, 0x1F],
    [0x1F, 0x01, 0x01, 0x01, 0x01, 0x01, 0x01, 0x01],
    [0x11, 0x11, 0x11, 0x11, 0x11, 0x11, 0x11, 0x1F],
    [0x11, 0x11, 0x11, 0x11, 0x11, 0x11, 0x01, 0x01],
    [0x11, 0x11, 0x11, 0x11, 0x11, 0x11, 0x11, 0x11],
    [0x11, 0x01, 0x01, 0x11, 0x11, 0x01, 0x01, 0x11],
    [0x11, 0x11, 0x11, 0x01, 0x01, 0x01, 0x01, 0x01],
    [0x1F, 0x01, 0x01, 0x11, 0x11, 0x11, 0x01, 0x1F],
    [0x11, 0x11, 0x11, 0x11, 0x11, 0x11, 0x11, 0x11],
    [0x01, 0x01, 0x01, 0x01, 0x01, 0x01, 0x01, 0x01],
    [0x11, 0x11, 0x11, 0x11, 0x11, 0x11, 0x11, 0x11],
    [0x01, 0x01, 0x01, 0x01, 0x01, 0x01, 0x01, 0x01],
    [0x11, 0x11, 0x11, 0x11, 0x11, 0x11, 0x11, 0x11],
    [0x01, 0x01, 0x01, 0x01, 0x01, 0x01, 0x01, 0x01],
    [0x11, 0x11, 0x11, 0x11, 0x11, 0x11, 0x11, 0x1F],
    [0x1F, 0x11, 0x11, 0x1F, 0x11, 0x11, 0x11, 0x1F],
    [0x1F, 0x01, 0x01, 0x01, 0x01, 0x01, 0x01, 0x1F],
    [0x1F, 0x11, 0x11, 0x1F, 0x11, 0x11, 0x11, 0x1F],
    [0x1F, 0x01, 0x01, 0x1F, 0x01, 0x01, 0x01, 0x1F],
    [0x1F, 0x01, 0x01, 0x1F, 0x01, 0x01, 0x01, 0x01],
    [0x1F, 0x01, 0x01, 0x1F, 0x11, 0x11, 0x11, 0x1F],
    [0x11, 0x11, 0x11, 0x1F, 0x11, 0x11, 0x11, 0x11],
    [0x1F, 0x01, 0x01, 0x01, 0x01, 0x01, 0x01, 0x1F],
    [0x01, 0x01, 0x01, 0x01, 0x01, 0x01, 0x11, 0x1F],
    [0x11, 0x11, 0x11, 0x1F, 0x01, 0x01, 0x01, 0x11],
    [0x11, 0x01, 0x01, 0x01, 0x01, 0x01, 0x01, 0x1F],
    [0x11, 0x11, 0x11, 0x1F, 0x11, 0x11, 0x11, 0x11],
    [0x11, 0x11, 0x11, 0x1F, 0x11, 0x11, 0x11, 0x11],
    [0x1F, 0x11, 0x11, 0x11, 0x11, 0x11, 0x11, 0x1F],
    [0x1F, 0x11, 0x11, 0x1F, 0x01, 0x01, 0x01, 0x01],
    [0x1F, 0x11, 0x11, 0x11, 0x11, 0x11, 0x11, 0x1F],
    [0x1F, 0x11, 0x11, 0x1F, 0x01, 0x01, 0x01, 0x11],
    [0x1F, 0x01, 0x01, 0x1F, 0x11, 0x11, 0x11, 0x1F],
    [0x1F, 0x01, 0x01, 0x01, 0x01, 0x01, 0x01, 0x01],
    [0x11, 0x11, 0x11, 0x11, 0x11, 0x11, 0x11, 0x1F],
    [0x11, 0x11, 0x11, 0x11, 0x11, 0x11, 0x01, 0x01],
    [0x11, 0x11, 0x11, 0x11, 0x11, 0x11, 0x11, 0x11],
    [0x11, 0x01, 0x01, 0x11, 0x11, 0x01, 0x01, 0x11],
    [0x11, 0x11, 0x11, 0x01, 0x01, 0x01, 0x01, 0x01],
    [0x1F, 0x01, 0x01, 0x11, 0x11, 0x11, 0x01, 0x1F],
    [0x11, 0x11, 0x11, 0x11, 0x11, 0x11, 0x11, 0x11],
    [0x01, 0x01, 0x01, 0x01, 0x01, 0x01, 0x01, 0x01],
    [0x11, 0x11, 0x11, 0x11, 0x11, 0x11, 0x11, 0x11],
    [0x01, 0x01, 0x01, 0x01, 0x01, 0x01, 0x01, 0x01]]"

definition font :: "nat \<Rightarrow> nat \<Rightarrow> u8" where
  "font c i = (if c < length font_rows then font_rows ! c ! i else 0)"

text \<open>A \<open>char\<close> is signed: from 128 on it is a negative index of the font.\<close>

definition draw_char :: "u32 \<Rightarrow> int \<Rightarrow> int \<Rightarrow> u8 \<Rightarrow> ('d, 'z) hw_scheme \<Rightarrow> ('d, 'z) hw_scheme comp" where
  "draw_char framebuffer x y c s =
     (if c \<ge> 128 then stuck OutOfBounds
      else for_loop 0 8 (\<lambda>i. for_loop 0 8 (\<lambda>j s.
        if font (unat c) i \<noteq> 0 then
          bnd (c_int (y + int i)) (\<lambda>a. bnd (c_int (x + int j)) (\<lambda>b. bnd (c_int (a + b)) (\<lambda>k.
            ret (s\<lparr>ram := (ram s)(framebuffer + of_int k := 0x30)\<rparr>))))
        else ret s)) s)"

text \<open>The string is given by its contents; \<open>i\<close> is the index of the character.\<close>

primrec draw_string_from :: "u32 \<Rightarrow> int \<Rightarrow> int \<Rightarrow> int \<Rightarrow> u8 list \<Rightarrow> ('d, 'z) hw_scheme \<Rightarrow> ('d, 'z) hw_scheme comp" where
  "draw_string_from framebuffer x y i [] s = ret s"
| "draw_string_from framebuffer x y i (c # cs) s =
     bnd (c_int (i * 8)) (\<lambda>a. bnd (c_int (x + a)) (\<lambda>x'.
     bnd (draw_char framebuffer x' y c s) (draw_string_from framebuffer x y (i + 1) cs)))"

definition draw_string :: "u32 \<Rightarrow> int \<Rightarrow> int \<Rightarrow> u8 list \<Rightarrow> ('d, 'z) hw_scheme \<Rightarrow> ('d, 'z) hw_scheme comp" where
  "draw_string framebuffer x y str s = draw_string_from framebuffer x y 0 str s"

subsection \<open>Shapes on an 800 by 600 screen\<close>

definition pixel :: "int \<Rightarrow> int \<Rightarrow> u32" where
  "pixel x y = 0xA0000 + of_int (y * 800 + x)"

definition on_screen :: "int \<Rightarrow> int \<Rightarrow> bool" where
  "on_screen x y \<longleftrightarrow> 0 \<le> x \<and> x < 800 \<and> 0 \<le> y \<and> y < 600"

lemma pixel_inject: "on_screen x y \<Longrightarrow> on_screen x' y' \<Longrightarrow> pixel x y = pixel x' y' \<longleftrightarrow> x = x' \<and> y = y'"
proof -
  assume a: "on_screen x y" "on_screen x' y'"
  have u: "uint (of_int n :: u32) = n" if "0 \<le> n" "n < 480000" for n
    using that by (simp add: uint_word_of_int)
  have "uint (of_int (y * 800 + x) :: u32) = y * 800 + x" "uint (of_int (y' * 800 + x') :: u32) = y' * 800 + x'"
    by (rule u; use a in \<open>simp add: on_screen_def\<close>)+
  then have "pixel x y = pixel x' y' \<longleftrightarrow> y * 800 + x = y' * 800 + x'"
    unfolding pixel_def by (metis add_left_cancel)
  also have "\<dots> \<longleftrightarrow> x = x' \<and> y = y'"
  proof
    assume e: "y * 800 + x = y' * 800 + x'"
    have "(y * 800 + x) div 800 = y" "(y' * 800 + x') div 800 = y'"
      using a by (simp_all add: on_screen_def)
    with e show "x = x' \<and> y = y'" by simp
  qed simp
  finally show ?thesis .
qed

text \<open>\<open>painted P color s t\<close>: the pixels in \<open>P\<close> have the colour, everything else is as before.\<close>

definition painted :: "(int \<times> int) set \<Rightarrow> u8 \<Rightarrow> ('d, 'z) hw_scheme \<Rightarrow> ('d, 'z) hw_scheme \<Rightarrow> bool" where
  "painted P color s t \<longleftrightarrow> dev t = dev s \<and> hw.more t = hw.more s
     \<and> (\<forall>a. ram t a = (if \<exists>(x, y) \<in> P. a = pixel x y then color else ram s a))"

lemma painted_trans: "painted P color s t \<Longrightarrow> painted Q color t u \<Longrightarrow> painted (P \<union> Q) color s u"
  by (auto simp: painted_def)

lemma draw_pixel_painted:
  assumes "on_screen x y"
  shows "\<exists>t. draw_pixel x y color s = ret t \<and> painted {(x, y)} color s t"
proof -
  have "c_int (y * 800) = ret (y * 800)" "c_int (y * 800 + x) = ret (y * 800 + x)"
    using assms by (auto simp: c_int_def on_screen_def)
  then show ?thesis by (simp add: draw_pixel_def painted_def pixel_def)
qed

lemma horizontal_from_painted:
  assumes "0 \<le> x" "x2 < 800" "0 \<le> y" "y < 600"
  shows "\<exists>t. horizontal_from x x2 y color s = ret t \<and> painted ({x..x2} \<times> {y}) color s t"
  using assms
proof (induction x x2 y color s rule: horizontal_from.induct)
  case (1 x x2 y color s)
  show ?case
  proof (cases "x \<le> x2")
    case True
    obtain u where u: "draw_pixel x y color s = ret u" "painted {(x, y)} color s u"
      using draw_pixel_painted [of x y color s] "1.prems" True by (auto simp: on_screen_def)
    have c: "c_int (x + 1) = ret (x + 1)" using "1.prems" True by (simp add: c_int_def)
    obtain t where t: "horizontal_from (x + 1) x2 y color u = ret t" "painted ({x + 1..x2} \<times> {y}) color u t"
      using "1.IH" [OF True u(1) c] "1.prems" by auto
    have "{(x, y)} \<union> {x + 1..x2} \<times> {y} = {x..x2} \<times> {y}" using True by auto
    then show ?thesis
      using u(1) c t(1) True painted_trans [OF u(2) t(2)] by (subst horizontal_from.simps) simp
  qed (subst horizontal_from.simps, simp add: painted_def)
qed

lemma vertical_from_painted:
  assumes "0 \<le> y" "y2 < 600" "0 \<le> x" "x < 800"
  shows "\<exists>t. vertical_from y y2 x color s = ret t \<and> painted ({x} \<times> {y..y2}) color s t"
  using assms
proof (induction y y2 x color s rule: vertical_from.induct)
  case (1 y y2 x color s)
  show ?case
  proof (cases "y \<le> y2")
    case True
    obtain u where u: "draw_pixel x y color s = ret u" "painted {(x, y)} color s u"
      using draw_pixel_painted [of x y color s] "1.prems" True by (auto simp: on_screen_def)
    have c: "c_int (y + 1) = ret (y + 1)" using "1.prems" True by (simp add: c_int_def)
    obtain t where t: "vertical_from (y + 1) y2 x color u = ret t" "painted ({x} \<times> {y + 1..y2}) color u t"
      using "1.IH" [OF True u(1) c] "1.prems" by auto
    have "{(x, y)} \<union> {x} \<times> {y + 1..y2} = {x} \<times> {y..y2}" using True by auto
    then show ?thesis
      using u(1) c t(1) True painted_trans [OF u(2) t(2)] by (subst vertical_from.simps) simp
  qed (subst vertical_from.simps, simp add: painted_def)
qed


text \<open>The border of a box.\<close>

definition on_border :: "int \<Rightarrow> int \<Rightarrow> int \<Rightarrow> int \<Rightarrow> int \<Rightarrow> int \<Rightarrow> bool" where
  "on_border x1 y1 x2 y2 x y \<longleftrightarrow> x1 \<le> x \<and> x \<le> x2 \<and> y1 \<le> y \<and> y \<le> y2 \<and> (x = x1 \<or> x = x2 \<or> y = y1 \<or> y = y2)"

lemma draw_box_painted:
  assumes "0 \<le> x1" "x1 \<le> x2" "x2 < 800" "0 \<le> y1" "y1 \<le> y2" "y2 < 600"
  shows "\<exists>t. draw_box x1 y1 x2 y2 color s = ret t \<and> painted {(x, y). on_border x1 y1 x2 y2 x y} color s t"
proof -
  obtain a where a: "horizontal_from x1 x2 y1 color s = ret a" "painted ({x1..x2} \<times> {y1}) color s a"
    using horizontal_from_painted [of x1 x2 y1 color s] assms by auto
  obtain b where b: "horizontal_from x1 x2 y2 color a = ret b" "painted ({x1..x2} \<times> {y2}) color a b"
    using horizontal_from_painted [of x1 x2 y2 color a] assms by auto
  obtain c where c: "vertical_from y1 y2 x1 color b = ret c" "painted ({x1} \<times> {y1..y2}) color b c"
    using vertical_from_painted [of y1 y2 x1 color b] assms by auto
  obtain d where d: "vertical_from y1 y2 x2 color c = ret d" "painted ({x2} \<times> {y1..y2}) color c d"
    using vertical_from_painted [of y1 y2 x2 color c] assms by auto
  have "{x1..x2} \<times> {y1} \<union> {x1..x2} \<times> {y2} \<union> {x1} \<times> {y1..y2} \<union> {x2} \<times> {y1..y2} =
      {(x, y). on_border x1 y1 x2 y2 x y}"
    using assms by (auto simp: on_border_def)
  then have "painted {(x, y). on_border x1 y1 x2 y2 x y} color s d"
    using painted_trans [OF painted_trans [OF painted_trans [OF a(2) b(2)] c(2)] d(2)] by simp
  then show ?thesis
    using a(1) b(1) c(1) d(1) by (simp add: draw_box_def draw_horizontal_line_def draw_vertical_line_def)
qed

lemma for_loop_skip: "(\<And>j u. f j u = ret u) \<Longrightarrow> for_loop i n f s = ret s"
  by (induction n arbitrary: i) simp_all

lemma draw_char_blank:
  assumes "62 \<le> c" "c < 128"
  shows "draw_char framebuffer x y c s = ret s"
proof -
  have "length font_rows = 62" by (simp add: font_rows_def)
  then have "font (unat c) i = 0" for i
    using assms by (simp add: font_def word_le_nat_alt)
  then show ?thesis using assms by (simp add: draw_char_def for_loop_skip)
qed

lemma draw_string_from_blank:
  assumes "\<forall>c \<in> set cs. 62 \<le> c \<and> c < 128" "0 \<le> i" "i + int (length cs) \<le> 1000000" "0 \<le> x" "x < 1000"
  shows "draw_string_from framebuffer x y i cs s = ret s"
  using assms by (induction cs arbitrary: i) (simp_all add: draw_char_blank c_int_def)

subsection \<open>Properties\<close>

text \<open>C24: a box with corners on the screen is drawn as its border and nothing else: the pixels of the
  border get the colour, every other pixel of the screen and every other byte of memory keeps
  its value.\<close>

theorem draw_box_draws_border:
  assumes "0 \<le> x1" "x1 \<le> x2" "x2 < 800" "0 \<le> y1" "y1 \<le> y2" "y2 < 600"
  shows "\<exists>t. draw_box x1 y1 x2 y2 color s = ret t
    \<and> (\<forall>x y. on_screen x y \<longrightarrow>
         ram t (pixel x y) = (if on_border x1 y1 x2 y2 x y then color else ram s (pixel x y)))
    \<and> (\<forall>a. (\<forall>x y. on_screen x y \<longrightarrow> a \<noteq> pixel x y) \<longrightarrow> ram t a = ram s a)"
proof -
  obtain t where t: "draw_box x1 y1 x2 y2 color s = ret t" "painted {(x, y). on_border x1 y1 x2 y2 x y} color s t"
    using draw_box_painted [OF assms, of color s] by blast
  have o: "on_screen x y" if "on_border x1 y1 x2 y2 x y" for x y
    using that assms by (simp add: on_border_def on_screen_def)
  have "ram t (pixel x y) = (if on_border x1 y1 x2 y2 x y then color else ram s (pixel x y))" if "on_screen x y" for x y
    using t(2) o pixel_inject [OF that] by (auto simp: painted_def)
  moreover have "ram t a = ram s a" if "\<forall>x y. on_screen x y \<longrightarrow> a \<noteq> pixel x y" for a
    using t(2) o that by (auto simp: painted_def)
  ultimately show ?thesis using t(1) by blast
qed

theorem draw_box_draws_border_witness:
  "\<exists>t. draw_box 10 10 20 20 7 \<lparr>dev = (), ram = (\<lambda>_. 0)\<rparr> = ret t \<and> ram t (pixel 10 15) = 7 \<and> ram t (pixel 15 15) = 0"
proof -
  have "on_screen 10 15" "on_screen 15 15" by (simp_all add: on_screen_def)
  then show ?thesis
    using draw_box_draws_border [of 10 20 10 20 7 "\<lparr>dev = (), ram = (\<lambda>_. 0)\<rparr>"] by (auto simp: on_border_def)
qed

text \<open>Text in letters is not drawn. The font starts with the letter A at index 0 but is indexed by
  the character code, and its 62 rows end below the code of every letter: \<open>draw_string\<close> of
  characters from code 62 to 127 returns and changes nothing.\<close>

lemma draw_string_draws_no_letters:
  assumes "\<forall>c \<in> set cs. 62 \<le> c \<and> c < 128" "length cs \<le> 1000000" "0 \<le> x" "x < 1000"
  shows "draw_string framebuffer x y cs s = ret s"
  using assms draw_string_from_blank [of cs 0 x framebuffer y s] by (simp add: draw_string_def)

end
