(* ===== verification/Rtc.thy ===== *)
theory Rtc
  imports Terminal
begin

section \<open>The real-time clock\<close>

text \<open>
  The clock reader of \<^verbatim>\<open>kernel/arch/i386/tty.c\<close>: the CMOS chip is read through an address port
  and a data port until two readings agree, then the values are converted from BCD and from a
  12-hour clock if the chip says so.
\<close>

subsection \<open>Definitions\<close>

record 'd rtc = "'d tty" +
  second :: u8
  minute :: u8
  hour :: u8
  day :: u8
  month :: u8
  year :: u32

definition CURRENT_YEAR :: u32 where "CURRENT_YEAR = 2023"
definition cmos_address :: u16 where "cmos_address = 0x70"
definition cmos_data :: u16 where "cmos_data = 0x71"

definition get_update_in_progress_flag :: "'d bus \<Rightarrow> ('d, 'z) hw_scheme \<Rightarrow> u8 \<times> ('d, 'z) hw_scheme" where
  "get_update_in_progress_flag B s =
     (let s = outb B cmos_address 0x0A s; (v, s) = inb B cmos_data s in (v AND 0x80, s))"

definition get_RTC_register :: "'d bus \<Rightarrow> u8 \<Rightarrow> ('d, 'z) hw_scheme \<Rightarrow> u8 \<times> ('d, 'z) hw_scheme" where
  "get_RTC_register B reg s = inb B cmos_data (outb B cmos_address reg s)"

text \<open>\<open>while (get_update_in_progress_flag());\<close>\<close>

partial_function (option) wait_update :: "'d bus \<Rightarrow> ('d, 'z) hw_scheme \<Rightarrow> ('d, 'z) hw_scheme comp" where
  "wait_update B s = (let (f, s) = get_update_in_progress_flag B s in if f \<noteq> 0 then wait_update B s else ret s)"

text \<open>
  One reading of the six registers. The local \<open>century_register\<close> is 0, so the century is never
  read; it is compared only with a copy of itself.
\<close>

definition read_registers :: "'d bus \<Rightarrow> ('d, 'z) rtc_scheme \<Rightarrow> ('d, 'z) rtc_scheme" where
  "read_registers B s =
     (let (v, s) = get_RTC_register B 0x00 s; s = s\<lparr>second := v\<rparr>;
          (v, s) = get_RTC_register B 0x02 s; s = s\<lparr>minute := v\<rparr>;
          (v, s) = get_RTC_register B 0x04 s; s = s\<lparr>hour := v\<rparr>;
          (v, s) = get_RTC_register B 0x07 s; s = s\<lparr>day := v\<rparr>;
          (v, s) = get_RTC_register B 0x08 s; s = s\<lparr>month := v\<rparr>;
          (v, s) = get_RTC_register B 0x09 s
      in s\<lparr>year := ucast v\<rparr>)"

definition reading :: "('d, 'z) rtc_scheme \<Rightarrow> u8 \<times> u8 \<times> u8 \<times> u8 \<times> u8 \<times> u32" where
  "reading s = (second s, minute s, hour s, day s, month s, year s)"

text \<open>The loop that reads until two readings agree; the last year is kept in a byte.\<close>

partial_function (option) read_stable :: "'d bus \<Rightarrow> ('d, 'z) rtc_scheme \<Rightarrow> ('d, 'z) rtc_scheme comp" where
  "read_stable B s =
     bnd (wait_update B s) (\<lambda>t.
       let t = read_registers B t in
       if second s \<noteq> second t \<or> minute s \<noteq> minute t \<or> hour s \<noteq> hour t \<or> day s \<noteq> day t \<or> month s \<noteq> month t
          \<or> ucast (ucast (year s) :: u8) \<noteq> year t
       then read_stable B t else ret t)"

definition from_bcd :: "'a::len word \<Rightarrow> 'a word" where
  "from_bcd v = (v AND 0x0F) + (v div 16) * 10"

definition convert_bcd :: "('d, 'z) rtc_scheme \<Rightarrow> ('d, 'z) rtc_scheme" where
  "convert_bcd s =
     s\<lparr>second := from_bcd (second s), minute := from_bcd (minute s),
       hour := ((hour s AND 0x0F) + ((hour s AND 0x70) div 16) * 10) OR (hour s AND 0x80),
       day := from_bcd (day s), month := from_bcd (month s), year := from_bcd (year s)\<rparr>"

definition convert_hour :: "('d, 'z) rtc_scheme \<Rightarrow> ('d, 'z) rtc_scheme" where
  "convert_hour s = s\<lparr>hour := ((hour s AND 0x7F) + 12) mod 24\<rparr>"

definition full_year :: "u32 \<Rightarrow> u32" where
  "full_year y = (let y = y + (CURRENT_YEAR div 100) * 100 in if y < CURRENT_YEAR then y + 100 else y)"

definition convert_clock :: "u8 \<Rightarrow> ('d, 'z) rtc_scheme \<Rightarrow> ('d, 'z) rtc_scheme" where
  "convert_clock registerB s =
     (let s = (if registerB AND 0x04 = 0 then convert_bcd s else s);
          s = (if registerB AND 0x02 = 0 \<and> hour s AND 0x80 \<noteq> 0 then convert_hour s else s)
      in s\<lparr>year := full_year (year s)\<rparr>)"

definition read_rtc :: "'d bus \<Rightarrow> ('d, 'z) rtc_scheme \<Rightarrow> ('d, 'z) rtc_scheme comp" where
  "read_rtc B s =
     bnd (wait_update B (task B ''Read RTC...'' 0 s)) (\<lambda>s.
     bnd (read_stable B (read_registers B s)) (\<lambda>s.
       let (registerB, s) = get_RTC_register B 0x0B s
       in ret (task B ''Read RTC...'' 1 (convert_clock registerB s))))"

subsection \<open>A clock chip between two updates\<close>

text \<open>
  What the code relies on of the chip: the address port selects a register, the data port reads
  it, and no register changes while the code reads them, which is the case between two updates
  of the chip. Terminal output goes to other ports.
\<close>

definition cmos :: "'d bus \<Rightarrow> ('d \<Rightarrow> u8) \<Rightarrow> ('d \<Rightarrow> u8 \<Rightarrow> u8) \<Rightarrow> bool" where
  "cmos B sel reg \<longleftrightarrow>
     (\<forall>d v. sel (bus_outb B 0x70 v d) = v \<and> reg (bus_outb B 0x70 v d) = reg d)
   \<and> (\<forall>d. fst (bus_inb B 0x71 d) = reg d (sel d) \<and> reg (snd (bus_inb B 0x71 d)) = reg d)
   \<and> off_video B reg"

lemma get_RTC_register_cmos:
  assumes "cmos B sel reg"
  shows "fst (get_RTC_register B r s) = reg (dev s) r"
    "reg (dev (snd (get_RTC_register B r s))) = reg (dev s)"
    "\<exists>d. snd (get_RTC_register B r s) = s\<lparr>dev := d\<rparr>"
  using assms
  by (auto simp: cmos_def get_RTC_register_def outb_def inb_def Let_def case_prod_beta cmos_address_def cmos_data_def)

lemma wait_update_cmos:
  assumes "cmos B sel reg" "reg (dev s) 0x0A AND 0x80 = 0"
  shows "\<exists>d. wait_update B s = ret (s\<lparr>dev := d\<rparr>) \<and> reg d = reg (dev s)"
  using assms
  by (subst wait_update.simps)
    (auto simp: cmos_def get_update_in_progress_flag_def outb_def inb_def Let_def case_prod_beta
      cmos_address_def cmos_data_def)

text \<open>The state after a reading.\<close>

definition with_registers :: "(u8 \<Rightarrow> u8) \<Rightarrow> ('d, 'z) rtc_scheme \<Rightarrow> ('d, 'z) rtc_scheme" where
  "with_registers r s = s\<lparr>second := r 0, minute := r 2, hour := r 4, day := r 7, month := r 8, year := ucast (r 9)\<rparr>"

lemma read_registers_cmos:
  fixes s :: "('d, 'z) rtc_scheme"
  assumes "cmos B sel reg"
  shows "\<exists>d. read_registers B s = with_registers (reg (dev s)) (s\<lparr>dev := d\<rparr>) \<and> reg d = reg (dev s)"
proof -
  have step: "\<exists>d. get_RTC_register B r t = (reg (dev t) r, t\<lparr>dev := d\<rparr>) \<and> reg d = reg (dev t)"
    for r and t :: "('d, 'z) rtc_scheme"
    using get_RTC_register_cmos [OF assms, of r t] by (cases "get_RTC_register B r t") auto
  define R where "R = reg (dev s)"
  obtain d1 where 1: "get_RTC_register B 0 s = (R 0, s\<lparr>dev := d1\<rparr>)" "reg d1 = R"
    using step [of 0 s] by (auto simp: R_def)
  obtain d2 where 2: "get_RTC_register B 2 (s\<lparr>dev := d1, second := R 0\<rparr>) = (R 2, s\<lparr>second := R 0, dev := d2\<rparr>)" "reg d2 = R"
    using step [of 2 "s\<lparr>dev := d1, second := R 0\<rparr>"] 1(2) by auto
  obtain d3 where 3: "get_RTC_register B 4 (s\<lparr>second := R 0, dev := d2, minute := R 2\<rparr>) =
      (R 4, s\<lparr>second := R 0, minute := R 2, dev := d3\<rparr>)" "reg d3 = R"
    using step [of 4 "s\<lparr>second := R 0, dev := d2, minute := R 2\<rparr>"] 2(2) by auto
  obtain d4 where 4: "get_RTC_register B 7 (s\<lparr>second := R 0, minute := R 2, dev := d3, hour := R 4\<rparr>) =
      (R 7, s\<lparr>second := R 0, minute := R 2, hour := R 4, dev := d4\<rparr>)" "reg d4 = R"
    using step [of 7 "s\<lparr>second := R 0, minute := R 2, dev := d3, hour := R 4\<rparr>"] 3(2) by auto
  obtain d5 where 5: "get_RTC_register B 8 (s\<lparr>second := R 0, minute := R 2, hour := R 4, dev := d4, day := R 7\<rparr>) =
      (R 8, s\<lparr>second := R 0, minute := R 2, hour := R 4, day := R 7, dev := d5\<rparr>)" "reg d5 = R"
    using step [of 8 "s\<lparr>second := R 0, minute := R 2, hour := R 4, dev := d4, day := R 7\<rparr>"] 4(2) by auto
  obtain d6 where 6: "get_RTC_register B 9 (s\<lparr>second := R 0, minute := R 2, hour := R 4, day := R 7, dev := d5, month := R 8\<rparr>) =
      (R 9, s\<lparr>second := R 0, minute := R 2, hour := R 4, day := R 7, month := R 8, dev := d6\<rparr>)" "reg d6 = R"
    using step [of 9 "s\<lparr>second := R 0, minute := R 2, hour := R 4, day := R 7, dev := d5, month := R 8\<rparr>"] 5(2) by auto
  have "read_registers B s = with_registers R (s\<lparr>dev := d6\<rparr>)"
    using 1(1) 2(1) 3(1) 4(1) 5(1) 6(1) by (cases s) (simp add: read_registers_def with_registers_def)
  then show ?thesis
    using 6(2) by (auto simp: R_def)
qed

interpretation clock: client reading
proof unfold_locales
  show "tty.more s = tty.more t \<Longrightarrow> reading s = reading t" for s t :: "('a, 'b) rtc_scheme"
    by (cases s; cases t) (simp add: reading_def)
qed

interpretation clock_rest: client rtc.more
proof unfold_locales
  show "tty.more s = tty.more t \<Longrightarrow> rtc.more s = rtc.more t" for s t :: "('a, 'b) rtc_scheme"
    by (cases s; cases t) simp
qed

lemma rtc_more_keeps [simp]:
  "rtc.more (convert_clock r s) = rtc.more s" "rtc.more (with_registers R s) = rtc.more s"
  by (simp_all add: convert_clock_def convert_bcd_def convert_hour_def with_registers_def Let_def)

lemma with_registers_again [simp]: "with_registers r (with_registers r s) = with_registers r s"
  "with_registers r (with_registers r s\<lparr>dev := d\<rparr>) = with_registers r (s\<lparr>dev := d\<rparr>)"
  by (simp_all add: with_registers_def)

lemma dev_with_registers [simp]: "dev (with_registers r s) = dev s"
  by (simp add: with_registers_def)

lemma ucast_year [simp]: "(ucast (ucast (x :: u8) :: u32) :: u8) = x"
  by (rule bit_word_eqI) (auto simp: bit_ucast_iff dest: bit_imp_le_length)

lemma read_stable_cmos:
  fixes s :: "('d, 'z) rtc_scheme"
  assumes c: "cmos B sel reg" and r: "reg (dev s) = R" "R 0x0A AND 0x80 = 0"
  shows "\<exists>d. read_stable B (with_registers R s) = ret (with_registers R (s\<lparr>dev := d\<rparr>)) \<and> reg d = R"
proof -
  obtain d1 where 1: "wait_update B (with_registers R s) = ret (with_registers R s\<lparr>dev := d1\<rparr>)" "reg d1 = R"
    using wait_update_cmos [OF c, of "with_registers R s"] r by auto
  obtain d2 where 2: "read_registers B (with_registers R s\<lparr>dev := d1\<rparr>) = with_registers R (s\<lparr>dev := d2\<rparr>)" "reg d2 = R"
    using read_registers_cmos [OF c, of "with_registers R s\<lparr>dev := d1\<rparr>"] 1(2) by auto
  have "read_stable B (with_registers R s) = ret (with_registers R (s\<lparr>dev := d2\<rparr>))"
    using 1(1) 2(1) by (subst read_stable.simps) (simp add: with_registers_def Let_def)
  then show ?thesis using 2(2) by blast
qed

lemma read_rtc_cmos:
  fixes s :: "('d, 'z) rtc_scheme"
  assumes c: "cmos B sel reg" and r: "reg (dev s) = R" "R 0x0A AND 0x80 = 0"
  shows "\<exists>t. read_rtc B s = ret t \<and> reading t = reading (convert_clock (R 0x0B) (with_registers R s))
    \<and> rtc.more t = rtc.more s \<and> (tty_ok s \<longrightarrow> tty_ok t)"
proof -
  have ov: "off_video B reg" using c by (simp add: cmos_def)
  let ?s = "task B ''Read RTC...'' 0 s"
  have R: "reg (dev ?s) = R" using off_video_task [OF ov, of "''Read RTC...''" 0 s] r(1) by simp
  obtain d1 where 1: "wait_update B ?s = ret (?s\<lparr>dev := d1\<rparr>)" "reg d1 = R"
    using wait_update_cmos [OF c, of ?s] R r(2) by auto
  obtain d2 where 2: "read_registers B (?s\<lparr>dev := d1\<rparr>) = with_registers R (?s\<lparr>dev := d2\<rparr>)" "reg d2 = R"
    using read_registers_cmos [OF c, of "?s\<lparr>dev := d1\<rparr>"] 1(2) by auto
  obtain d3 where 3: "read_stable B (with_registers R (?s\<lparr>dev := d2\<rparr>)) = ret (with_registers R (?s\<lparr>dev := d3\<rparr>))" "reg d3 = R"
    using read_stable_cmos [OF c, of "?s\<lparr>dev := d2\<rparr>" R] 2(2) r(2) by auto
  obtain d4 where 4: "get_RTC_register B 0x0B (with_registers R (?s\<lparr>dev := d3\<rparr>)) =
      (R 0x0B, with_registers R (?s\<lparr>dev := d3\<rparr>)\<lparr>dev := d4\<rparr>)"
    using get_RTC_register_cmos [OF c, of "0x0B" "with_registers R (?s\<lparr>dev := d3\<rparr>)"] 3(2)
    by (cases "get_RTC_register B 0x0B (with_registers R (?s\<lparr>dev := d3\<rparr>))") auto
  have "read_rtc B s = ret (task B ''Read RTC...'' 1 (convert_clock (R 0x0B) (with_registers R (?s\<lparr>dev := d3\<rparr>)\<lparr>dev := d4\<rparr>)))"
    using 1(1) 2(1) 3(1) 4 by (simp add: read_rtc_def)
  moreover have "reading (task B ''Read RTC...'' 1 (convert_clock (R 0x0B) (with_registers R (?s\<lparr>dev := d3\<rparr>)\<lparr>dev := d4\<rparr>))) =
      reading (convert_clock (R 0x0B) (with_registers R s))"
    by (rule trans [OF clock.output_kept(9)])
      (auto simp: reading_def convert_clock_def convert_bcd_def convert_hour_def with_registers_def Let_def)
  moreover have "rtc.more (task B ''Read RTC...'' 1 (convert_clock (R 0x0B) (with_registers R (?s\<lparr>dev := d3\<rparr>)\<lparr>dev := d4\<rparr>))) = rtc.more s"
    by simp
  moreover have "tty_ok (task B ''Read RTC...'' 1 (convert_clock (R 0x0B) (with_registers R (?s\<lparr>dev := d3\<rparr>)\<lparr>dev := d4\<rparr>)))"
    if "tty_ok s"
    using tty_ok_task [OF that, of B "''Read RTC...''" 0]
    by (intro tty_ok_task) (simp add: tty_ok_def convert_clock_def convert_bcd_def convert_hour_def with_registers_def Let_def)
  ultimately show ?thesis by blast
qed


text \<open>Binary-coded decimal, as the chip stores it.\<close>

definition to_bcd :: "nat \<Rightarrow> u8" where
  "to_bcd n = of_nat (16 * (n div 10) + n mod 10)"

lemma and_15: "(w :: 'a::len word) AND 15 = w mod 16"
  using take_bit_eq_mask [of 4 w] by (simp add: mask_numeral take_bit_eq_mod)

lemma unat_to_bcd: "n < 100 \<Longrightarrow> unat (to_bcd n) = 16 * (n div 10) + n mod 10"
  by (simp add: to_bcd_def unat_of_nat unat_word_ariths)

lemma from_bcd_to_bcd [simp]:
  assumes "n < 100"
  shows "from_bcd (to_bcd n) = of_nat n" "from_bcd (ucast (to_bcd n) :: u32) = of_nat n"
proof -
  have *: "16 * (n div 10) + n mod 10 < 256" "(16 * (n div 10) + n mod 10) mod 16 = n mod 10"
    "(16 * (n div 10) + n mod 10) div 16 = n div 10" "n mod 10 + (n div 10) * 10 = n"
    using assms by simp_all
  show "from_bcd (to_bcd n) = of_nat n"
    unfolding from_bcd_def and_15
    by (rule word_unat_eq_iff [THEN iffD2])
      (use * assms in \<open>simp add: unat_word_ariths unat_to_bcd unat_mod unat_div unat_of_nat\<close>)
  show "from_bcd (ucast (to_bcd n) :: u32) = of_nat n"
    unfolding from_bcd_def and_15
    by (rule word_unat_eq_iff [THEN iffD2])
      (use * assms in \<open>simp add: unat_word_ariths unat_to_bcd unat_mod unat_div unat_of_nat unat_ucast_wide\<close>)
qed


lemma hour_bcd:
  assumes "n < 24"
  shows "((to_bcd n AND 0x0F) + ((to_bcd n AND 0x70) div 16) * 10) OR (to_bcd n AND 0x80) = of_nat n"
proof -
  have "n = 0 \<or> n = 1 \<or> n = 2 \<or> n = 3 \<or> n = 4 \<or> n = 5 \<or> n = 6 \<or> n = 7 \<or> n = 8 \<or> n = 9 \<or> n = 10 \<or> n = 11 \<or> 
      n = 12 \<or> n = 13 \<or> n = 14 \<or> n = 15 \<or> n = 16 \<or> n = 17 \<or> n = 18 \<or> n = 19 \<or> n = 20 \<or> n = 21 \<or> n = 22 \<or> n = 23"
    using assms by presburger
  then show ?thesis by (elim disjE) (simp_all add: to_bcd_def)
qed

lemma full_year_of_nat:
  assumes "n < 100"
  shows "full_year (of_nat n) = of_nat (if n < 23 then 2100 + n else 2000 + n)"
  using assms by (simp add: full_year_def CURRENT_YEAR_def Let_def word_less_nat_alt unat_word_ariths word_unat_eq_iff)


text \<open>A chip with the selected register and its registers as state.\<close>

definition cmos_bus :: "(u8 \<times> (u8 \<Rightarrow> u8)) bus" where
  "cmos_bus = \<lparr>bus_inb = (\<lambda>p d. (if p = 0x71 then snd d (fst d) else 0, d)),
     bus_outb = (\<lambda>p v d. if p = 0x70 then (v, snd d) else d),
     bus_inw = (\<lambda>p d. (0, d)), bus_outw = (\<lambda>p v d. d)\<rparr>"

lemma cmos_bus_cmos: "cmos cmos_bus fst snd"
  by (simp add: cmos_def cmos_bus_def off_video_def)

definition sample_clock :: "u8 \<Rightarrow> u8 \<Rightarrow> u8 \<Rightarrow> u8" where
  "sample_clock h b r = (if r = 0 then 0x58 else if r = 2 then 0x59 else if r = 4 then h else if r = 7 then 0x31
     else if r = 8 then 0x12 else if r = 9 then 0x24 else if r = 0x0B then b else 0)"

definition boot_rtc :: "'d \<Rightarrow> 'd rtc" where
  "boot_rtc d = tty.extend (boot_tty d) (rtc.fields 0 0 0 0 0 0)"

lemma dev_boot_rtc [simp]: "dev (boot_rtc d) = d"
  by (simp add: boot_rtc_def boot_tty_def tty.extend_def)

subsection \<open>Properties\<close>

text \<open>C22: reading the clock. On a chip that is not updating and keeps its time in binary-coded
  decimal and in 24 hour mode, \<open>read_rtc\<close> returns, and the time in the globals is the time of
  the chip; the two digits of the year are read as a year from 2023 to 2122.\<close>

theorem read_rtc_reads_clock:
  assumes "cmos B sel reg" "reg (dev s) = R" "R 0x0A AND 0x80 = 0"
    "R 0x0B AND 0x04 = 0" "R 0x0B AND 0x02 \<noteq> 0"
    "R 0 = to_bcd sec" "R 2 = to_bcd mi" "R 4 = to_bcd h" "R 7 = to_bcd d" "R 8 = to_bcd mo" "R 9 = to_bcd y"
    "sec < 60" "mi < 60" "h < 24" "d \<le> 31" "mo \<le> 12" "y < 100"
  shows "\<exists>t. read_rtc B s = ret t \<and> second t = of_nat sec \<and> minute t = of_nat mi \<and> hour t = of_nat h
    \<and> day t = of_nat d \<and> month t = of_nat mo \<and> year t = of_nat (if y < 23 then 2100 + y else 2000 + y)"
  using read_rtc_cmos [OF assms(1-3)] assms(4-17)
  by (auto simp: reading_def convert_clock_def convert_bcd_def with_registers_def hour_bcd full_year_of_nat Let_def)

theorem read_rtc_reads_clock_witness:
  "\<exists>t. read_rtc cmos_bus (boot_rtc (0, sample_clock 0x23 2)) = ret t \<and> second t = 58 \<and> hour t = 23 \<and> year t = 2024"
  using read_rtc_reads_clock [OF cmos_bus_cmos, of "boot_rtc (0, sample_clock 0x23 2)" "sample_clock 0x23 2" 58 59 23 31 12 24]
  by (auto simp: sample_clock_def to_bcd_def)

text \<open>In 12 hour mode the code adds 12 to every hour with the PM bit, the twelfth included, so
  that at noon (12 PM) the hour read is 0.\<close>

lemma read_rtc_noon_is_midnight:
  assumes "cmos B sel reg" "reg (dev s) = R" "R 0x0A AND 0x80 = 0"
    "R 0x0B AND 0x04 = 0" "R 0x0B AND 0x02 = 0" "R 4 = 0x80 OR to_bcd 12"
  shows "\<exists>t. read_rtc B s = ret t \<and> hour t = 0"
  using read_rtc_cmos [OF assms(1-3)] assms(4-6)
  by (auto simp: reading_def convert_clock_def convert_bcd_def convert_hour_def with_registers_def to_bcd_def Let_def)

end
