(* ===== verification/Net.thy ===== *)
theory Net
  imports Rtc Stdio
begin

section \<open>The network stub\<close>

text \<open>
  The ping code of \<^verbatim>\<open>kernel/arch/i386/tty.c\<close>: byte order conversion, the Internet checksum,
  the transmission of a packet byte by byte through port I/O, the reception of one, and
  \<open>send_ping\<close> and \<open>receive_ping\<close> over them. A packet or a struct is the list of its bytes, in
  the little endian layout of the machine.
\<close>

subsection \<open>Byte order\<close>

definition htonl :: "u32 \<Rightarrow> u32" where
  "htonl hostlong =
     drop_bit 24 (hostlong AND 0xFF000000) OR drop_bit 8 (hostlong AND 0x00FF0000)
     OR push_bit 8 (hostlong AND 0x0000FF00) OR push_bit 24 (hostlong AND 0x000000FF)"

definition htons :: "u16 \<Rightarrow> u16" where
  "htons hostshort = ucast (drop_bit 8 (ucast hostshort :: u32) OR push_bit 8 (ucast hostshort :: u32))"

subsection \<open>Headers\<close>

record ip_header =
  version_ihl :: u8
  type_of_service :: u8
  total_length :: u16
  identification :: u16
  flags_fragment_offset :: u16
  time_to_live :: u8
  protocol :: u8
  header_checksum :: u16
  source_address :: u32
  destination_address :: u32

record icmp_header =
  icmp_type :: u8
  icmp_code :: u8
  icmp_checksum :: u16
  icmp_identifier :: u16
  icmp_sequence_number :: u16

definition ip_bytes :: "ip_header \<Rightarrow> u8 list" where
  "ip_bytes h = [version_ihl h, type_of_service h] @ bytes16 (total_length h) @ bytes16 (identification h)
     @ bytes16 (flags_fragment_offset h) @ [time_to_live h, protocol h] @ bytes16 (header_checksum h)
     @ bytes32 (source_address h) @ bytes32 (destination_address h)"

definition icmp_bytes :: "icmp_header \<Rightarrow> u8 list" where
  "icmp_bytes h = [icmp_type h, icmp_code h] @ bytes16 (icmp_checksum h) @ bytes16 (icmp_identifier h)
     @ bytes16 (icmp_sequence_number h)"

subsection \<open>The Internet checksum\<close>

text \<open>\<open>printf(".")\<close>\<close>

definition dot :: "'d bus \<Rightarrow> ('d, 'z) tty_scheme \<Rightarrow> ('d, 'z) tty_scheme comp" where
  "dot B s = bnd (printf B (lit ''.'') [] s) (\<lambda>(_, s). ret s)"

text \<open>The first loop: \<open>n\<close> 16-bit words from byte \<open>i\<close> on.\<close>

primrec sum_words :: "u8 list \<Rightarrow> nat \<Rightarrow> nat \<Rightarrow> u32 \<Rightarrow> u32 comp" where
  "sum_words data i 0 acc = ret acc"
| "sum_words data i (Suc n) acc =
     (if i + 1 < length data then sum_words data (i + 2) n (acc + ucast (get16 data i)) else stuck OutOfBounds)"

lemma unat_drop16: "unat (drop_bit 16 (w :: u32)) = unat w div 65536"
  by (simp add: drop_bit_eq_div unat_div)

lemma fold_carry_less:
  assumes "drop_bit 16 (acc :: u32) \<noteq> 0"
  shows "unat ((acc AND 0xFFFF) + drop_bit 16 acc) = unat acc mod 65536 + unat acc div 65536"
    "unat ((acc AND 0xFFFF) + drop_bit 16 acc) < unat acc"
proof -
  have 1: "unat (acc AND 0xFFFF) = unat acc mod 65536"
    using take_bit_eq_mask [of 16 acc, symmetric] by (simp add: mask_numeral take_bit_eq_mod unat_mod)
  have 3: "unat acc div 65536 < 65536"
    using unsigned_less [of acc, where 'a = nat] by (simp add: less_mult_imp_div_less)
  have 4: "unat acc div 65536 \<noteq> 0"
    using assms unat_drop16 by (metis unsigned_0 unat_eq_zero)
  show 5: "unat ((acc AND 0xFFFF) + drop_bit 16 acc) = unat acc mod 65536 + unat acc div 65536"
    using 1 3 by (simp add: unat_word_ariths unat_drop16)
  have "unat acc = 65536 * (unat acc div 65536) + unat acc mod 65536" by simp
  then show "unat ((acc AND 0xFFFF) + drop_bit 16 acc) < unat acc"
    unfolding 5 using 4 by linarith
qed

function fold_carry :: "'d bus \<Rightarrow> u32 \<Rightarrow> ('d, 'z) tty_scheme \<Rightarrow> (u32 \<times> ('d, 'z) tty_scheme) comp" where
  "fold_carry B acc s =
     (if drop_bit 16 acc \<noteq> 0 then bnd (dot B s) (\<lambda>s. fold_carry B ((acc AND 0xFFFF) + drop_bit 16 acc) s)
      else ret (acc, s))"
  by pat_completeness auto
termination
  by (relation "measure (\<lambda>(B, acc, s). unat acc)") (simp_all add: fold_carry_less(2) del: unat_u32_less)

declare fold_carry.simps [simp del]

definition checksum :: "'d bus \<Rightarrow> u8 list \<Rightarrow> nat \<Rightarrow> ('d, 'z) tty_scheme \<Rightarrow> (u16 \<times> ('d, 'z) tty_scheme) comp" where
  "checksum B data len s =
     bnd (sum_words data 0 (len div 2) 0) (\<lambda>acc.
     bnd (if len mod 2 \<noteq> 0 then bnd (aget data (2 * (len div 2))) (\<lambda>b. ret (acc + ucast b)) else ret acc) (\<lambda>acc.
     bnd (fold_carry B acc s) (\<lambda>(acc, s). ret (ucast (NOT acc), s))))"

subsection \<open>Sending and receiving\<close>

text \<open>
  \<open>io_base\<close> is a 16-bit variable: the constant \<open>0xB8000\<close> it is initialised with becomes
  \<open>0x8000\<close>. Ports are 16-bit as well.
\<close>

primrec send_bytes :: "'d bus \<Rightarrow> u8 list \<Rightarrow> u32 \<Rightarrow> ('d, 'z) tty_scheme \<Rightarrow> ('d, 'z) tty_scheme comp" where
  "send_bytes B [] i s = ret s"
| "send_bytes B (b # bs) i s =
     bnd (dot B (outb B (ucast (ucast (ucast (0xB8000 :: u32) :: u16) + i)) b s)) (send_bytes B bs (i + 1))"

definition network_send :: "'d bus \<Rightarrow> u8 list \<Rightarrow> ('d, 'z) tty_scheme \<Rightarrow> ('d, 'z) tty_scheme comp" where
  "network_send B packet s =
     bnd (send_bytes B packet 0 s) (\<lambda>s. ret (outb B (ucast (0xB8000 :: u32) + 0x10) 0x01 s))"

fun receive_bytes ::
  "'d bus \<Rightarrow> nat \<Rightarrow> nat \<Rightarrow> u8 list \<Rightarrow> ('d, 'z) tty_scheme \<Rightarrow> (u8 list \<times> ('d, 'z) tty_scheme) comp" where
  "receive_bytes B i 0 buffer s = ret (buffer, s)"
| "receive_bytes B i (Suc n) buffer s =
     (let (v, s) = inb B (0x1500 + of_nat i) s in
      bnd (aput buffer i v) (\<lambda>buffer. bnd (dot B s) (receive_bytes B (i + 1) n buffer)))"

definition network_receive ::
  "'d bus \<Rightarrow> u8 list \<Rightarrow> u32 \<Rightarrow> ('d, 'z) tty_scheme \<Rightarrow> (u32 \<times> u8 list \<times> ('d, 'z) tty_scheme) comp" where
  "network_receive B buffer max_length s =
     (let (v, s) = inb B (0x1500 + 0x20) s in
      if v AND 0x01 \<noteq> 0 then
        let (l, s) = inb B (0x1500 + 0x24) s;
            length = ucast l;
            length = (if length > max_length then max_length else length)
        in bnd (receive_bytes B 0 (unat length) buffer s) (\<lambda>(buffer, s). ret (length, buffer, s))
      else ret (0, buffer, s))"

subsection \<open>Ping\<close>

text \<open>
  \<open>send_ping\<close> hands an IP address to \<open>printf\<close> as a format, so that a string is read at the address
  \<open>0x0100A8C0\<close>. What is there depends on the address translation of the processor, the argument \<open>at\<close>; an
  address without a translation is a page fault.
\<close>

partial_function (option) string_via :: "(u32 \<Rightarrow> u32 option) \<Rightarrow> mem \<Rightarrow> u32 \<Rightarrow> u8 list comp" where
  "string_via at m p =
     (case at p of
        None \<Rightarrow> stuck PageFault
      | Some a \<Rightarrow> if m a = 0 then ret [] else bnd (string_via at m (p + 1)) (\<lambda>cs. ret (m a # cs)))"

definition send_ping :: "'d bus \<Rightarrow> (u32 \<Rightarrow> u32 option) \<Rightarrow> u32 \<Rightarrow> ('d, 'z) tty_scheme \<Rightarrow> ('d, 'z) tty_scheme comp" where
  "send_ping B at dest_ip s =
     (let ip = \<lparr>version_ihl = 0x45, type_of_service = 0, total_length = htons (20 + 8), identification = 0,
                flags_fragment_offset = 0, time_to_live = 64, protocol = 0, header_checksum = 0,
                source_address = htonl 0xC0A80001, destination_address = htonl dest_ip\<rparr>
      in bnd (checksum B (ip_bytes ip) 20 s) (\<lambda>(c, s).
         let ip = ip\<lparr>header_checksum := c\<rparr>;
             icmp = \<lparr>icmp_type = 8, icmp_code = 0, icmp_checksum = 0, icmp_identifier = htons 1, icmp_sequence_number = htons 1\<rparr>
         in bnd (checksum B (icmp_bytes icmp) 8 s) (\<lambda>(c, s).
            let icmp = icmp\<lparr>icmp_checksum := c\<rparr>;
                packet = ip_bytes ip @ icmp_bytes icmp
            in bnd (string_via at (ram s) (htonl 0xC0A80001)) (\<lambda>format.
               bnd (printf B format [] s) (\<lambda>(_, s). network_send B packet s)))))"

record 'd net = "'d rtc" +
  networkinit :: bool

text \<open>
  \<open>receive_ping\<close> does not look at the length it gets; \<open>stale\<close> is the content of the 1500 byte
  local array before the call.
\<close>

definition receive_ping :: "'d bus \<Rightarrow> u8 list \<Rightarrow> ('d, 'z) net_scheme \<Rightarrow> ('d, 'z) net_scheme comp" where
  "receive_ping B stale s =
     bnd (network_receive B stale 1500 s) (\<lambda>(len, buffer, s).
     bnd (aget buffer 20) (\<lambda>type. bnd (aget buffer 21) (\<lambda>code.
       let s = (if type = 0 \<and> code = 0 then
                  (terminal_writestring B (lit ''[  OK  ] Attempting to ping 192.168.0.2...'') (terminal_newline s))
                    \<lparr>networkinit := True\<rparr>
                else
                  (terminal_newline (terminal_writestring B (lit ''[ FAIL ] Attempting to ping 192.168.0.2...'')
                    (terminal_newline s)))\<lparr>networkinit := False\<rparr>)
       in ret (terminal_putchar B type (terminal_newline (terminal_putchar B code (terminal_newline s)))))))"

subsection \<open>The checksum as a one's complement sum\<close>

text \<open>The sum of the little endian 16-bit words, an odd last byte alone, and the one's complement
  representative of a sum: congruent to it modulo 65535, and 0 only for 0.\<close>

fun internet_sum :: "u8 list \<Rightarrow> nat" where
  "internet_sum (a # b # r) = unat (le16 a b) + internet_sum r"
| "internet_sum [b] = unat b"
| "internet_sum [] = 0"

definition ones_sum :: "nat \<Rightarrow> nat" where
  "ones_sum n = (if n = 0 then 0 else (n - 1) mod 65535 + 1)"

lemma ones_sum_small: "n < 65536 \<Longrightarrow> ones_sum n = n"
  by (simp add: ones_sum_def)

lemma ones_sum_le: "ones_sum n \<le> 65535"
  by (simp add: ones_sum_def Suc_le_eq)

lemma ones_sum_fold: "ones_sum (n mod 65536 + n div 65536) = ones_sum n"
proof -
  have n: "n = n mod 65536 + n div 65536 + 65535 * (n div 65536)"
    using div_mult_mod_eq [of n 65536] by linarith
  show ?thesis
  proof (cases "n mod 65536 + n div 65536 = 0")
    case False
    define k where "k = n div 65536"
    define q where "q = n mod 65536 + n div 65536"
    have "n - 1 = (q - 1) + 65535 * k"
      using n False unfolding k_def q_def by linarith
    then have "(n - 1) mod 65535 = (q - 1) mod 65535" by simp
    then show ?thesis using False n by (auto simp: ones_sum_def q_def)
  qed (use n in simp)
qed

lemma dot_eq [simp]: "dot B s = ret (terminal_putchar B 46 s)"
  by (simp add: dot_def printf_plain INT_MAX_def lit_def terminal_write_def)

lemma fold_carry_ones_sum:
  "\<exists>k. fold_carry B acc s = ret (of_nat (ones_sum (unat acc)), (terminal_putchar B 46 ^^ k) s)"
proof (induction B acc s rule: fold_carry.induct)
  case (1 B acc s)
  show ?case
  proof (cases "drop_bit 16 acc = 0")
    case True
    then have "unat acc div 65536 = 0"
      by (metis unat_drop16 unsigned_0)
    then have "ones_sum (unat acc) = unat acc"
      by (intro ones_sum_small) (simp add: div_eq_0_iff)
    then have "fold_carry B acc s = ret (of_nat (ones_sum (unat acc)), (terminal_putchar B 46 ^^ 0) s)"
      using True by (subst fold_carry.simps) simp
    then show ?thesis by blast
  next
    case False
    let ?a = "(acc AND 0xFFFF) + drop_bit 16 acc"
    obtain k where "fold_carry B ?a (terminal_putchar B 46 s) =
        ret (of_nat (ones_sum (unat ?a)), (terminal_putchar B 46 ^^ k) (terminal_putchar B 46 s))"
      using "1.IH" [OF False] by auto
    then have "fold_carry B acc s = ret (of_nat (ones_sum (unat acc)), (terminal_putchar B 46 ^^ Suc k) s)"
      using False fold_carry_less(1) [OF False] ones_sum_fold
      by (subst fold_carry.simps) (simp add: funpow_swap1)
    then show ?thesis by blast
  qed
qed

lemma internet_sum_drop:
  assumes "i + 1 < length data"
  shows "internet_sum (drop i data) = unat (get16 data i) + internet_sum (drop (i + 2) data)"
proof -
  have "drop i data = data ! i # data ! (i + 1) # drop (i + 2) data"
    using assms by (simp add: Cons_nth_drop_Suc)
  then show ?thesis by (simp add: get16_def)
qed

lemma internet_sum_le: "internet_sum data \<le> 65535 * ((length data + 1) div 2)"
proof (induction data rule: internet_sum.induct)
  case (1 a b r)
  have "unat (le16 a b) < 65536" by simp
  then show ?case using 1 by (simp del: unat_u16_less)
next
  case (2 b)
  have "unat b < 256" by simp
  then show ?case by (simp del: unat_u8_less)
qed simp

lemma sum_words_ok:
  assumes "i + 2 * n \<le> length data" "unat acc + internet_sum (drop i data) < 2 ^ 32"
  shows "\<exists>v. sum_words data i n acc = ret v
    \<and> unat v + internet_sum (drop (i + 2 * n) data) = unat acc + internet_sum (drop i data)"
  using assms
proof (induction n arbitrary: i acc)
  case (Suc n)
  let ?w = "get16 data i"
  have w: "internet_sum (drop i data) = unat ?w + internet_sum (drop (i + 2) data)"
    using Suc.prems(1) by (intro internet_sum_drop) simp
  have u: "unat (ucast ?w :: u32) = unat ?w"
    using less_trans [of "unat ?w" 65536 4294967296] by (simp add: unsigned_ucast_eq take_bit_nat_eq_self_iff)
  have a: "unat (acc + ucast ?w) = unat acc + unat ?w"
    using Suc.prems(2) w by (simp add: unat_word_ariths u)
  show ?case
    using Suc.IH [of "i + 2" "acc + ucast ?w"] Suc.prems w a by (simp add: add.assoc)
qed simp

lemma checksum_eq:
  assumes "length data \<le> 100000"
  shows "\<exists>k. checksum B data (length data) s =
    ret (of_nat (65535 - ones_sum (internet_sum data)), (terminal_putchar B 46 ^^ k) s)"
proof -
  let ?n = "length data div 2"
  have b: "internet_sum data < 2 ^ 32"
    using internet_sum_le [of data] assms by simp
  obtain v where v: "sum_words data 0 ?n 0 = ret v" "unat v + internet_sum (drop (2 * ?n) data) = internet_sum data"
    using sum_words_ok [of 0 ?n data 0] b by auto
  define v' where "v' = (if odd (length data) then v + ucast (data ! (2 * ?n)) else v)"
  have v': "unat v' = internet_sum data"
  proof (cases "odd (length data)")
    case True
    then have d: "drop (2 * ?n) data = [data ! (2 * ?n)]"
      by (intro nth_equalityI) (auto elim!: oddE)
    let ?b = "data ! (2 * ?n)"
    have "unat (ucast ?b :: u32) = unat ?b" by (rule unat_ucast_wide)
    moreover have "unat v + unat ?b = internet_sum data" using v(2) unfolding d by simp
    moreover have "v' = v + ucast ?b" using True unfolding v'_def by (rule if_P)
    ultimately show ?thesis using b by (simp only: unat_word_ariths) simp
  qed (use v(2) in \<open>simp add: v'_def\<close>)
  obtain k where k: "fold_carry B v' s = ret (of_nat (ones_sum (internet_sum data)), (terminal_putchar B 46 ^^ k) s)"
    using fold_carry_ones_sum [of B v' s] v' by auto
  have n: "ucast (NOT (of_nat m :: u32)) = (of_nat (65535 - m) :: u16)" if "m \<le> 65535" for m
  proof -
    have "ucast (NOT (of_nat m :: u32)) = (NOT (of_nat m) :: u16)"
      by (rule bit_word_eqI) (auto simp: bit_ucast_iff bit_not_iff bit_of_nat_iff)
    also have "\<dots> = of_nat (65535 - m)"
      using that by (simp add: not_eq_complement of_nat_diff)
    finally show ?thesis .
  qed
  have "(if length data mod 2 \<noteq> 0 then bnd (aget data (2 * ?n)) (\<lambda>b. ret (v + ucast b)) else ret v) = ret v'"
    by (auto simp: v'_def aget_ret odd_iff_mod_2_eq_one elim!: oddE)
  then have "checksum B data (length data) s =
      ret (of_nat (65535 - ones_sum (internet_sum data)), (terminal_putchar B 46 ^^ k) s)"
    unfolding checksum_def v(1) bnd_ret by (simp only: bnd_ret k prod.case n [OF ones_sum_le])
  then show ?thesis by blast
qed

text \<open>Storing the checksum in a zero word makes the sum of the whole a multiple of 65535.\<close>

lemma internet_sum_store:
  assumes "2 * k + 1 < length data" "data ! (2 * k) = 0" "data ! (2 * k + 1) = 0"
  shows "internet_sum (data[2 * k := ucast c, 2 * k + 1 := ucast (drop_bit 8 c)]) = internet_sum data + unat (c :: u16)"
  using assms
proof (induction k arbitrary: data)
  case 0
  then obtain r where "data = 0 # 0 # r"
    by (cases data rule: internet_sum.cases) auto
  then show ?case by (simp add: le16_bytes16) (simp add: le16_def)
next
  case (Suc k)
  then obtain a b r where r: "data = a # b # r"
    by (cases data rule: internet_sum.cases) auto
  then show ?case
    using Suc.IH [of r] Suc.prems by simp
qed

lemma checksum_closes:
  assumes "internet_sum data' = internet_sum data + unat (of_nat (65535 - ones_sum (internet_sum data)) :: u16)"
  shows "ones_sum (internet_sum data') = 65535"
proof -
  let ?n = "internet_sum data"
  have "unat (of_nat (65535 - ones_sum ?n) :: u16) = 65535 - ones_sum ?n"
    by (simp add: unat_of_nat)
  then have d: "internet_sum data' = ?n + (65535 - ones_sum ?n)" using assms by simp
  show ?thesis
  proof (cases "?n = 0")
    case True
    then show ?thesis using d by (simp add: ones_sum_def)
  next
    case False
    define q where "q = (?n - 1) mod 65535"
    have q: "q < 65535" "?n = (?n - 1) div 65535 * 65535 + q + 1" "ones_sum ?n = q + 1"
      using False div_mult_mod_eq [of "?n - 1" 65535] by (simp_all add: q_def ones_sum_def)
    then have "?n + (65535 - ones_sum ?n) = 65535 * ((?n - 1) div 65535) + 65535"
      by linarith
    then show ?thesis using d by (simp add: ones_sum_def) 
  qed
qed

subsection \<open>Packets\<close>

text \<open>The conversions reverse the bytes.\<close>

lemma htonl_bytes: "bytes32 (htonl w) = rev (bytes32 w)"
proof -
  have m: "mask 8 = (0xFF :: u32)" by (simp add: mask_numeral)
  have p: "(0xFF00 :: u32) = push_bit 8 (mask 8)" "(0xFF0000 :: u32) = push_bit 16 (mask 8)"
    "(0xFF000000 :: u32) = push_bit 24 (mask 8)" by (simp_all add: mask_numeral)
  show ?thesis
    unfolding bytes32_def htonl_def p m [symmetric]
    by (auto intro!: bit_word_eqI
        simp: bit_ucast_iff bit_drop_bit_eq bit_push_bit_iff bit_or_iff bit_and_iff bit_mask_iff)
qed

lemma htons_bytes: "bytes16 (htons w) = rev (bytes16 w)"
proof -
  have "\<not> bit w (16 + n)" for n
    using bit_imp_le_length [of w "16 + n"] by auto
  then show ?thesis
    unfolding bytes16_def htons_def
    by (auto intro!: bit_word_eqI simp: bit_ucast_iff bit_drop_bit_eq bit_push_bit_iff bit_or_iff)
qed

lemma putchars_step: "tty_ok s \<Longrightarrow> console_step s ((terminal_putchar B c ^^ k) s)"
  by (induction k) (auto intro: console_intros)

text \<open>
  A card that keeps what is written to its ports, \<open>0x8000\<close> to \<open>0x80FF\<close>, in the order of the writes,
  and takes no notice of other ports.
\<close>

definition card_log :: "'d bus \<Rightarrow> ('d \<Rightarrow> (u16 \<times> u8) list) \<Rightarrow> bool" where
  "card_log B log \<longleftrightarrow>
     (\<forall>p v d. log (bus_outb B p v d) = (if 0x8000 \<le> p \<and> p < 0x8100 then log d @ [(p, v)] else log d))
   \<and> (\<forall>p d. log (snd (bus_inb B p d)) = log d)"

lemma putchar_log:
  assumes "card_log B log"
  shows "log (dev (terminal_putchar B c s)) = log (dev s)"
  using assms
  by (simp add: terminal_putchar_def terminal_putentryat_def update_cursor_def outb_def Let_def terminal_scroll_def card_log_def)

lemma putchars_log: "card_log B log \<Longrightarrow> log (dev ((terminal_putchar B c ^^ k) s)) = log (dev s)"
  by (induction k) (simp_all add: putchar_log)

text \<open>The writes of a packet to the ports from the \<open>i\<close>-th on.\<close>

definition packet_writes :: "nat \<Rightarrow> u8 list \<Rightarrow> (u16 \<times> u8) list" where
  "packet_writes i bs = zip (map (\<lambda>k. 0x8000 + of_nat k) [i..<i + length bs]) bs"

lemma packet_writes_Cons: "packet_writes i (b # bs) = (0x8000 + of_nat i, b) # packet_writes (Suc i) bs"
  by (simp add: packet_writes_def upt_conv_Cons del: upt_Suc)

lemma send_bytes_log:
  assumes "card_log B log"
  shows "i + length bs \<le> 0x100 \<Longrightarrow> \<exists>t. send_bytes B bs (of_nat i) s = ret t \<and> log (dev t) = log (dev s) @ packet_writes i bs"
proof (induction bs arbitrary: i s)
  case Nil
  show ?case by (simp add: packet_writes_def)
next
  case (Cons b bs)
  have "(ucast (of_nat (0x8000 + i) :: u32) :: u16) = of_nat (0x8000 + i)"
    using Cons.prems unfolding unsigned_of_nat by (subst take_bit_nat_eq_self) simp_all
  then have port: "(ucast (ucast (ucast (0xB8000 :: u32) :: u16) + of_nat i :: u32) :: u16) = 0x8000 + of_nat i"
    by simp
  have "unat (of_nat (0x8000 + i) :: u16) = 0x8000 + i"
    using Cons.prems by (subst unat_of_nat) simp
  then have "unat (0x8000 + of_nat i :: u16) = 0x8000 + i" by simp
  then have range: "0x8000 \<le> (0x8000 + of_nat i :: u16)" "(0x8000 + of_nat i :: u16) < 0x8100"
    using Cons.prems by (simp_all add: word_le_nat_alt word_less_nat_alt)
  let ?s = "terminal_putchar B 46 (outb B (0x8000 + of_nat i) b s)"
  obtain t where t: "send_bytes B bs (of_nat (Suc i)) ?s = ret t" "log (dev t) = log (dev ?s) @ packet_writes (Suc i) bs"
    using Cons.IH [of "Suc i" ?s] Cons.prems by auto
  have "log (dev ?s) = log (dev s) @ [(0x8000 + of_nat i, b)]"
    using assms range by (simp add: putchar_log outb_def) (simp add: card_log_def)
  moreover have "send_bytes B (b # bs) (of_nat i) s = send_bytes B bs (of_nat (Suc i)) ?s"
    unfolding send_bytes.simps port dot_eq bnd_ret of_nat_Suc by (simp only: add.commute)
  ultimately show ?case
    unfolding packet_writes_Cons using t by simp
qed

lemma network_send_log:
  assumes "card_log B log" "length packet \<le> 0x100"
  shows "\<exists>t. network_send B packet s = ret t \<and> log (dev t) = log (dev s) @ packet_writes 0 packet @ [(0x8010, 1)]"
proof -
  obtain t where "send_bytes B packet 0 s = ret t" "log (dev t) = log (dev s) @ packet_writes 0 packet"
    using send_bytes_log [OF assms(1), of 0 packet s] assms(2) by auto
  then show ?thesis
    using assms(1) by (simp add: network_send_def outb_def) (simp add: card_log_def)
qed

text \<open>The bytes of a ping with its two checksums, and when these are right.\<close>

definition ping_packet :: "u32 \<Rightarrow> u16 \<Rightarrow> u16 \<Rightarrow> u8 list" where
  "ping_packet dest_ip c d =
     [0x45, 0, 0, 28, 0, 0, 0, 0, 64, 0] @ bytes16 c @ [192, 168, 0, 1] @ rev (bytes32 dest_ip)
     @ [8, 0] @ bytes16 d @ [0, 1, 0, 1]"

definition well_formed_ping :: "u32 \<Rightarrow> u8 list \<Rightarrow> bool" where
  "well_formed_ping dest_ip p \<longleftrightarrow> (\<exists>c d. p = ping_packet dest_ip c d)
     \<and> ones_sum (internet_sum (take 20 p)) = 65535 \<and> ones_sum (internet_sum (drop 20 p)) = 65535"

lemma length_ip_bytes [simp]: "length (ip_bytes h) = 20"
  by (simp add: ip_bytes_def)

lemma length_icmp_bytes [simp]: "length (icmp_bytes h) = 8"
  by (simp add: icmp_bytes_def)

lemma ip_bytes_checksum: "header_checksum h = 0 \<Longrightarrow>
  internet_sum (ip_bytes (h\<lparr>header_checksum := c\<rparr>)) = internet_sum (ip_bytes h) + unat c"
  by (simp add: ip_bytes_def bytes16_def bytes32_def le16_bytes16) (simp add: le16_def)

lemma icmp_bytes_checksum: "icmp_checksum h = 0 \<Longrightarrow>
  internet_sum (icmp_bytes (h\<lparr>icmp_checksum := c\<rparr>)) = internet_sum (icmp_bytes h) + unat c"
  by (simp add: icmp_bytes_def bytes16_def le16_bytes16) (simp add: le16_def)

lemma send_ping_run:
  obtains p j k where "send_ping B at dest_ip s = (let t = (terminal_putchar B 46 ^^ k) ((terminal_putchar B 46 ^^ j) s) in
      bnd (string_via at (ram t) 0x0100A8C0) (\<lambda>format. bnd (printf B format [] t) (\<lambda>(_, s). network_send B p s)))"
    "well_formed_ping dest_ip p"
proof -
  define ip where "ip = \<lparr>version_ihl = 0x45, type_of_service = 0, total_length = htons (20 + 8), identification = 0,
                flags_fragment_offset = 0, time_to_live = 64, protocol = 0, header_checksum = 0,
                source_address = htonl 0xC0A80001, destination_address = htonl dest_ip\<rparr>"
  define icmp where "icmp = \<lparr>icmp_type = 8, icmp_code = 0, icmp_checksum = 0, icmp_identifier = htons 1, icmp_sequence_number = htons 1\<rparr>"
  define c where "c = (of_nat (65535 - ones_sum (internet_sum (ip_bytes ip))) :: u16)"
  define d where "d = (of_nat (65535 - ones_sum (internet_sum (icmp_bytes icmp))) :: u16)"
  obtain j where j: "checksum B (ip_bytes ip) 20 s = ret (c, (terminal_putchar B 46 ^^ j) s)" (is "_ = ret (c, ?t)")
    using checksum_eq [of "ip_bytes ip" B s] by (auto simp: c_def)
  obtain k where k: "checksum B (icmp_bytes icmp) 8 ?t = ret (d, (terminal_putchar B 46 ^^ k) ?t)"
    using checksum_eq [of "icmp_bytes icmp" B ?t] by (auto simp: d_def)
  let ?p = "ip_bytes (ip\<lparr>header_checksum := c\<rparr>) @ icmp_bytes (icmp\<lparr>icmp_checksum := d\<rparr>)"
  have format: "htonl 0xC0A80001 = 0x0100A8C0" by (simp add: htonl_def)
  have z: "header_checksum ip = 0" "icmp_checksum icmp = 0" by (simp_all add: ip_def icmp_def)
  have "?p = ping_packet dest_ip c d"
    using htonl_bytes [of dest_ip] htonl_bytes [of "0xC0A80001"] htons_bytes [of 28] htons_bytes [of 1]
    by (simp add: ip_def icmp_def ip_bytes_def icmp_bytes_def ping_packet_def) (simp add: bytes16_def bytes32_def)
  moreover have "ones_sum (internet_sum (take 20 ?p)) = 65535" "ones_sum (internet_sum (drop 20 ?p)) = 65535"
    using checksum_closes [OF ip_bytes_checksum [OF z(1), of c, unfolded c_def], folded c_def]
      checksum_closes [OF icmp_bytes_checksum [OF z(2), of d, unfolded d_def], folded d_def] by simp_all
  ultimately have "well_formed_ping dest_ip ?p" by (auto simp: well_formed_ping_def)
  moreover have "send_ping B at dest_ip s = (let t = (terminal_putchar B 46 ^^ k) ?t in
      bnd (string_via at (ram t) 0x0100A8C0) (\<lambda>format. bnd (printf B format [] t) (\<lambda>(_, s). network_send B ?p s)))"
    unfolding send_ping_def ip_def [symmetric] icmp_def [symmetric] Let_def j bnd_ret prod.case k by (simp only: format)
  ultimately show ?thesis using that by blast
qed

lemma send_ping_unmapped:
  assumes "at 0x0100A8C0 = None"
  shows "send_ping B at dest_ip s = stuck PageFault"
proof -
  obtain p j k where "send_ping B at dest_ip s = (let t = (terminal_putchar B 46 ^^ k) ((terminal_putchar B 46 ^^ j) s) in
      bnd (string_via at (ram t) 0x0100A8C0) (\<lambda>format. bnd (printf B format [] t) (\<lambda>(_, s). network_send B p s)))"
    by (rule send_ping_run)
  then show ?thesis using assms by (simp add: string_via.simps [of at _ "0x0100A8C0"] Let_def)
qed

lemma send_ping_log:
  assumes s: "tty_ok s" and card: "card_log B log"
    and m: "at 0x0100A8C0 = Some a" "ram s a = 0" "\<not> in_block VGA_MEMORY 4000 a"
  shows "\<exists>p u. send_ping B at dest_ip s = ret u \<and> well_formed_ping dest_ip p
    \<and> log (dev u) = log (dev s) @ packet_writes 0 p @ [(0x8010, 1)]"
proof -
  obtain p j k where p: "send_ping B at dest_ip s = (let t = (terminal_putchar B 46 ^^ k) ((terminal_putchar B 46 ^^ j) s) in
      bnd (string_via at (ram t) 0x0100A8C0) (\<lambda>format. bnd (printf B format [] t) (\<lambda>(_, s). network_send B p s)))"
    "well_formed_ping dest_ip p"
    by (rule send_ping_run)
  let ?t = "(terminal_putchar B 46 ^^ k) ((terminal_putchar B 46 ^^ j) s)"
  have "console_step s ?t"
    using console_step_trans [OF putchars_step putchars_step] putchars_step s by (metis console_step_def)
  then have "ram ?t a = 0" using m(2,3) by (simp add: console_step_def screen_frame_def)
  then have "string_via at (ram ?t) 0x0100A8C0 = ret []" using m(1) by (simp add: string_via.simps [of at _ "0x0100A8C0"])
  then have "send_ping B at dest_ip s = network_send B p ?t"
    using p(1) by (simp add: printf_plain INT_MAX_def terminal_write_def)
  moreover have "length p \<le> 0x100" using p(2) by (auto simp: well_formed_ping_def ping_packet_def)
  ultimately show ?thesis
    using p(2) network_send_log [OF card, of p ?t] putchars_log [OF card] by metis
qed

lemma receive_bytes_ok:
  "i + n \<le> length buffer \<Longrightarrow> \<exists>b t. receive_bytes B i n buffer s = ret (b, t)
     \<and> length b = length buffer \<and> take i b = take i buffer \<and> drop (i + n) b = drop (i + n) buffer"
proof (induction n arbitrary: i buffer s)
  case (Suc n)
  obtain v u where u: "inb B (0x1500 + of_nat i) s = (v, u)" by fastforce
  have "i < length buffer" using Suc.prems by simp
  moreover obtain b t where "receive_bytes B (i + 1) n (buffer[i := v]) (terminal_putchar B 46 u) = ret (b, t)"
    "length b = length buffer" "take (i + 1) b = take (i + 1) (buffer[i := v])"
    "drop (i + 1 + n) b = drop (i + 1 + n) (buffer[i := v])"
    using Suc.IH [of "i + 1" "buffer[i := v]" "terminal_putchar B 46 u"] Suc.prems by auto
  moreover from arg_cong [OF this(3), of "take i"] have "take i b = take i buffer"
    by simp
  ultimately show ?case using u by (simp add: aput_ret)
qed simp

interpretation link: client networkinit
proof unfold_locales
  show "tty.more s = tty.more t \<Longrightarrow> networkinit s = networkinit t" for s t :: "('a, 'b) net_scheme"
    by (cases s; cases t) simp
qed

subsection \<open>Properties\<close>

text \<open>C21: \<open>checksum\<close> computes the Internet checksum: of up to 100000 bytes it returns the complement of the one's
  complement sum of the 16-bit words of the data, an odd last byte counted alone.\<close>

theorem checksum_is_internet_checksum:
  assumes "length data \<le> 100000"
  shows "\<exists>t. checksum B data (length data) s = ret (of_nat (65535 - ones_sum (internet_sum data)), t)"
  using checksum_eq [OF assms, of B s] by blast

theorem checksum_is_internet_checksum_witness:
  "\<exists>t. checksum idle_bus [1, 2, 255, 255, 7] 5 (boot_tty ()) = ret (0xFDF7, t)"
proof -
  have "length [1, 2, 255, 255, 7 :: u8] = 5" by simp
  from checksum_is_internet_checksum [of "[1, 2, 255, 255, 7]" idle_bus "boot_tty ()", unfolded this]
  show ?thesis by (simp add: le16_def ones_sum_def)
qed

text \<open>Data with the checksum of the code stored in a word that was zero verifies: the checksum of
  the whole is then 0.\<close>

lemma checksum_verifies:
  assumes "length data \<le> 100000" "2 * k + 1 < length data" "data ! (2 * k) = 0" "data ! (2 * k + 1) = 0"
    "checksum B data (length data) s = ret (c, t)"
  shows "\<exists>u. checksum B (data[2 * k := ucast c, 2 * k + 1 := ucast (drop_bit 8 c)]) (length data) t = ret (0, u)"
proof -
  let ?d = "data[2 * k := ucast c, 2 * k + 1 := ucast (drop_bit 8 c)]"
  have c: "c = of_nat (65535 - ones_sum (internet_sum data))"
    using checksum_eq [OF assms(1), of B s] assms(5) by auto
  have "ones_sum (internet_sum ?d) = 65535"
    using checksum_closes [of ?d data] internet_sum_store [OF assms(2-4), of c] c by simp
  then show ?thesis
    using checksum_eq [of ?d B t] assms(1) by auto
qed


definition card_bus :: "(u16 \<times> u8) list bus" where
  "card_bus = \<lparr>bus_inb = \<lambda>p d. (0, d), bus_outb = \<lambda>p v d. if 0x8000 \<le> p \<and> p < 0x8100 then d @ [(p, v)] else d,
     bus_inw = \<lambda>p d. (0, d), bus_outw = \<lambda>p v d. d\<rparr>"


text \<open>\<open>receive_ping\<close> ignores whether a packet came. If none did, what the local array held before
  the call decides: two zero bytes there are taken for an echo reply and the network is marked
  as working.\<close>

lemma receive_ping_trusts_stale_buffer:
  assumes "length stale = 1500" "fst (bus_inb B 0x1520 (dev s)) AND 1 = 0"
  shows "\<exists>t. receive_ping B stale s = ret t \<and> (networkinit t \<longleftrightarrow> stale ! 20 = 0 \<and> stale ! 21 = 0)"
  using assms
  by (cases "bus_inb B 0x1520 (dev s)")
    (auto simp: receive_ping_def network_receive_def inb_def aget_ret Let_def)


text \<open>Receiving is memory safe. With a buffer of at least \<open>max_length\<close> bytes \<open>network_receive\<close>
  returns, writes no more than \<open>max_length\<close> and no more than 255 bytes, and keeps the rest of the
  buffer.\<close>

lemma network_receive_in_bounds:
  assumes "unat max_length \<le> length buffer"
  shows "\<exists>n b t. network_receive B buffer max_length s = ret (n, b, t) \<and> unat n \<le> unat max_length \<and> unat n \<le> 255
    \<and> length b = length buffer \<and> drop (unat n) b = drop (unat n) buffer"
proof -
  obtain v u l w where i: "inb B (0x1500 + 0x20) s = (v, u)" "inb B (0x1500 + 0x24) u = (l, w)"
    by (meson surj_pair)
  define n where "n = (if (ucast l :: u32) > max_length then max_length else ucast l)"
  have l: "unat (ucast l :: u32) < 256" by (simp add: unat_ucast_wide)
  have n: "unat n \<le> unat max_length" "unat n \<le> 255"
    using l by (auto simp: n_def word_less_nat_alt not_less)
  obtain b t where "receive_bytes B 0 (unat n) buffer w = ret (b, t)" "length b = length buffer"
    "drop (unat n) b = drop (unat n) buffer"
    using receive_bytes_ok [of 0 "unat n" buffer B w] n(1) assms by auto
  then have "v AND 1 \<noteq> 0 \<Longrightarrow> network_receive B buffer max_length s = ret (n, b, t)"
    using i by (simp add: network_receive_def n_def)
  moreover have "v AND 1 = 0 \<Longrightarrow> network_receive B buffer max_length s = ret (0, buffer, u)"
    using i by (simp add: network_receive_def)
  ultimately show ?thesis
    using n \<open>length b = length buffer\<close> \<open>drop (unat n) b = _\<close> by (cases "v AND 1 = 0") auto
qed

end
