(* ===== verification/Paging.thy ===== *)
theory Paging
  imports Net
begin

section \<open>Paging and the framebuffer\<close>

text \<open>
  \<open>setup_paging\<close> and \<open>setup_framebuffer\<close> of \<^verbatim>\<open>kernel/arch/i386/tty.c\<close>. The page directory, the
  page table and the control registers are fields of the state; the addresses of the two
  tables are chosen by the linker and are parameters. What the tables mean is the page walk of
  the processor, modelled here for this one directory and table.
\<close>

subsection \<open>Definitions\<close>

record 'd paging = "'d net" +
  page_directory :: "u32 list"
  page_table :: "u32 list"
  cr0 :: u32
  cr3 :: u32

definition PAGE_SIZE :: nat where "PAGE_SIZE = 4096"
definition FRAMEBUFFER_ADDRESS :: nat where "FRAMEBUFFER_ADDRESS = 0xA0000"
definition FRAMEBUFFER_SIZE :: nat where "FRAMEBUFFER_SIZE = VGA_HEIGHT * 600"

definition load_page_directory :: "u32 \<Rightarrow> ('d, 'z) paging_scheme \<Rightarrow> ('d, 'z) paging_scheme" where
  "load_page_directory pd s = s\<lparr>cr3 := pd\<rparr>"

definition enable_paging :: "('d, 'z) paging_scheme \<Rightarrow> ('d, 'z) paging_scheme" where
  "enable_paging s = s\<lparr>cr0 := cr0 s OR 0x80000000\<rparr>"

text \<open>The bodies of the two loops.\<close>

definition init_entry :: "'d bus \<Rightarrow> nat \<Rightarrow> ('d, 'z) paging_scheme \<Rightarrow> ('d, 'z) paging_scheme comp" where
  "init_entry B i s =
     bnd (aput (page_directory s) i 0x00000002) (\<lambda>pd.
     bnd (aput (page_table s) i (of_nat (i * PAGE_SIZE) OR 3)) (\<lambda>pt.
       dot B (s\<lparr>page_directory := pd, page_table := pt\<rparr>)))"

definition map_framebuffer :: "'d bus \<Rightarrow> nat \<Rightarrow> ('d, 'z) paging_scheme \<Rightarrow> ('d, 'z) paging_scheme comp" where
  "map_framebuffer B i s =
     bnd (dot B s) (\<lambda>s.
     bnd (aput (page_table s) (FRAMEBUFFER_ADDRESS div PAGE_SIZE + i)
            (of_nat (FRAMEBUFFER_ADDRESS + i * PAGE_SIZE) OR 3)) (\<lambda>pt.
       ret (s\<lparr>page_table := pt\<rparr>)))"

definition setup_paging :: "'d bus \<Rightarrow> u32 \<Rightarrow> u32 \<Rightarrow> ('d, 'z) paging_scheme \<Rightarrow> ('d, 'z) paging_scheme comp" where
  "setup_paging B pd pt s =
     (let s = task B ''Initialize page directory and page table...'' 0 s in
      bnd (for_loop 0 1024 (init_entry B) s) (\<lambda>s.
      let s = task B ''Initialize page directory and page table...'' 1 s;
          s = task B ''Map the framebuffer...'' 0 s in
      bnd (for_loop 0 (FRAMEBUFFER_SIZE div PAGE_SIZE) (map_framebuffer B) s) (\<lambda>s.
      let s = task B ''Map the framebuffer...'' 1 s;
          s = task B ''Point the page directory to the page table...'' 0 s in
      bnd (aput (page_directory s) 0 (pt OR 3)) (\<lambda>dir.
      let s = s\<lparr>page_directory := dir\<rparr>;
          s = task B ''Point the page directory to the page table...'' 1 s;
          s = task B ''Load the page directory...'' 0 s;
          s = enable_paging (load_page_directory pd s)
      in ret (task B ''Load the page directory...'' 1 s)))))"

definition setup_framebuffer :: "('d, 'z) hw_scheme \<Rightarrow> ('d, 'z) hw_scheme" where
  "setup_framebuffer s =
     fold (\<lambda>i s. s\<lparr>ram := (ram s)(of_nat FRAMEBUFFER_ADDRESS + of_nat i := 0x03)\<rparr>) [0..<FRAMEBUFFER_SIZE] s"

subsection \<open>The page walk of the processor\<close>

text \<open>
  The processor finds the directory at \<open>cr3\<close>; a directory entry with bit 0 set gives the frame
  of a page table, whose entry with bit 0 set gives the frame of the page. \<open>pd\<close> and \<open>pt\<close> are
  where the two arrays of the kernel are; another directory or table is not known, and the walk
  has no result there.
\<close>

definition translate :: "u32 \<Rightarrow> u32 \<Rightarrow> ('d, 'z) paging_scheme \<Rightarrow> u32 \<Rightarrow> u32 option" where
  "translate pd pt s a =
     (let pde = page_directory s ! unat (drop_bit 22 a);
          pte = page_table s ! unat (drop_bit 12 a AND 0x3FF)
      in if cr0 s AND 0x80000000 = 0 then Some a
         else if cr3 s = pd \<and> pde AND 1 \<noteq> 0 \<and> pde AND 0xFFFFF000 = pt \<and> pte AND 1 \<noteq> 0
         then Some ((pte AND 0xFFFFF000) OR (a AND 0xFFF))
         else None)"

definition tables_ok :: "('d, 'z) paging_scheme \<Rightarrow> bool" where
  "tables_ok s \<longleftrightarrow> length (page_directory s) = 1024 \<and> length (page_table s) = 1024"

lemma paging_more:
  assumes "tty.more s = tty.more t"
  shows "page_directory s = page_directory t" "page_table s = page_table t" "cr0 s = cr0 t" "cr3 s = cr3 t"
    "networkinit s = networkinit t" "paging.more s = paging.more t"
  using assms by (cases s; cases t; simp)+

interpretation directory: client page_directory
  by unfold_locales (rule paging_more)

interpretation page_tab: client page_table
  by unfold_locales (rule paging_more)

interpretation control0: client cr0
  by unfold_locales (rule paging_more)

interpretation control3: client cr3
  by unfold_locales (rule paging_more)

interpretation above_paging: client paging.more
  by unfold_locales (rule paging_more)

lemma page_masks:
  "bit (0xFFF :: int) n \<longleftrightarrow> n < 12" "bit (0xFFFFF000 :: int) n \<longleftrightarrow> 12 \<le> n \<and> n < 32"
  "bit (0x80000000 :: int) n \<longleftrightarrow> n = 31" "bit (4 :: int) n \<longleftrightarrow> n = 2" "bit (3 :: int) n \<longleftrightarrow> n < 2"
proof -
  have "(0xFFFFF000 :: int) = push_bit 12 (mask 20)" by (simp add: mask_numeral)
  then show "bit (0xFFFFF000 :: int) n \<longleftrightarrow> 12 \<le> n \<and> n < 32"
    by (simp only: bit_push_bit_iff bit_mask_iff) auto
  show "bit (0xFFF :: int) n \<longleftrightarrow> n < 12" "bit (3 :: int) n \<longleftrightarrow> n < 2"
    using bit_mask_iff [of 12 n, where 'a = int] bit_mask_iff [of 2 n, where 'a = int] by (simp_all add: mask_numeral)
  show "bit (0x80000000 :: int) n \<longleftrightarrow> n = 31" "bit (4 :: int) n \<longleftrightarrow> n = 2"
    using bit_exp_iff [of 31 n, where 'a = int] bit_exp_iff [of 2 n, where 'a = int] by auto
qed

lemma bit_nonzero: "bit (w :: u32) n \<Longrightarrow> w \<noteq> 0"
  by auto

lemma page_entry:
  assumes "p AND 0xFFF = (0 :: u32)"
  shows "(p OR 3) AND 1 \<noteq> 0" "(p OR 3) AND 0xFFFFF000 = p" "(p OR 3) AND 4 = 0"
proof -
  have p: "12 \<le> n" if "bit p n" for n
  proof (rule ccontr)
    assume "\<not> 12 \<le> n"
    then have "bit (p AND 0xFFF) n" using that by (simp add: bit_and_iff page_masks)
    then show False using assms by simp
  qed
  show "(p OR 3) AND 1 \<noteq> 0"
    by (rule bit_nonzero [of _ 0]) (simp add: bit_and_iff bit_or_iff page_masks)
  show "(p OR 3) AND 0xFFFFF000 = p"
    by (rule bit_word_eqI) (auto simp: bit_and_iff bit_or_iff page_masks dest: p)
  show "(p OR 3) AND 4 = 0"
    by (rule bit_word_eqI) (auto simp: bit_and_iff bit_or_iff page_masks dest: p)
qed

lemma page_number_aligned: "(push_bit 12 w :: u32) AND 0xFFF = 0"
  by (rule bit_word_eqI) (auto simp: bit_and_iff bit_push_bit_iff page_masks)

lemma page_number: "(of_nat (i * 4096) :: u32) = push_bit 12 (of_nat i)"
  by (simp add: push_bit_eq_mult)

subsection \<open>The tables after initialisation\<close>

text \<open>What paging does not touch.\<close>

definition untouched :: "('d, 'z) paging_scheme \<Rightarrow> ('d, 'z) paging_scheme \<Rightarrow> bool" where
  "untouched s t \<longleftrightarrow> networkinit t = networkinit s \<and> paging.more t = paging.more s \<and> (tty_ok s \<longrightarrow> tty_ok t)"

lemma tty_ok_tables [simp]:
  "tty_ok (s\<lparr>page_directory := d\<rparr>) = tty_ok s" "tty_ok (s\<lparr>page_table := t\<rparr>) = tty_ok s"
  "tty_ok (s\<lparr>cr0 := v\<rparr>) = tty_ok s" "tty_ok (s\<lparr>cr3 := v\<rparr>) = tty_ok s"
  by (simp_all add: tty_ok_def)

lemmas keeps_tty = terminal_putchar_refines(2) tty_ok_task

lemma untouched_task: "untouched (task B name state s) t \<Longrightarrow> untouched s t"
  using tty_ok_task [of s B name state] by (auto simp: untouched_def)

lemma init_loop:
  fixes s :: "('d, 'z) paging_scheme"
  assumes "tables_ok s"
  shows "\<exists>t. for_loop 0 1024 (init_entry B) s = ret t \<and> tables_ok t \<and> cr0 t = cr0 s \<and> untouched s t
    \<and> (\<forall>i < 1024. page_directory t ! i = 2 \<and> page_table t ! i = of_nat (i * 4096) OR 3)"
proof -
  let ?P = "\<lambda>j u. tables_ok u \<and> cr0 u = cr0 s \<and> untouched s u \<and> (\<forall>i < j. page_directory u ! i = 2 \<and> page_table u ! i = of_nat (i * 4096) OR 3)"
  have "\<exists>t. for_loop 0 1024 (init_entry B) s = ret t \<and> ?P (0 + 1024) t"
  proof (rule for_loop_inv)
    fix j and u :: "('d, 'z) paging_scheme"
    assume "j < 0 + 1024" "?P j u"
    then show "\<exists>v. init_entry B j u = ret v \<and> ?P (Suc j) v"
      by (auto simp: init_entry_def aput_ret tables_ok_def untouched_def PAGE_SIZE_def nth_list_update less_Suc_eq keeps_tty)
  qed (use assms in \<open>simp add: untouched_def\<close>)
  then show ?thesis by auto
qed

lemma map_loop:
  fixes s :: "('d, 'z) paging_scheme"
  assumes "tables_ok s" "\<forall>i < 1024. page_table s ! i = of_nat (i * 4096) OR 3"
  shows "\<exists>t. for_loop 0 (FRAMEBUFFER_SIZE div PAGE_SIZE) (map_framebuffer B) s = ret t \<and> tables_ok t \<and> cr0 t = cr0 s \<and> untouched s t
    \<and> page_directory t = page_directory s \<and> (\<forall>i < 1024. page_table t ! i = of_nat (i * 4096) OR 3)"
proof (rule for_loop_inv [where P = "\<lambda>_ t. tables_ok t \<and> cr0 t = cr0 s \<and> untouched s t
    \<and> page_directory t = page_directory s \<and> (\<forall>i < 1024. page_table t ! i = of_nat (i * 4096) OR 3)"])
  fix j and u :: "('d, 'z) paging_scheme"
  assume j: "j < 0 + FRAMEBUFFER_SIZE div PAGE_SIZE" and
    u: "tables_ok u \<and> cr0 u = cr0 s \<and> untouched s u \<and> page_directory u = page_directory s
      \<and> (\<forall>i < 1024. page_table u ! i = of_nat (i * 4096) OR 3)"
  have "0xA0000 + j * 4096 = (160 + j) * 4096" by simp
  then show "\<exists>v. map_framebuffer B j u = ret v \<and> tables_ok v \<and> cr0 v = cr0 s \<and> untouched s v
      \<and> page_directory v = page_directory s \<and> (\<forall>i < 1024. page_table v ! i = of_nat (i * 4096) OR 3)"
    using j u by (auto simp: map_framebuffer_def aput_ret tables_ok_def untouched_def PAGE_SIZE_def FRAMEBUFFER_ADDRESS_def
        FRAMEBUFFER_SIZE_def VGA_HEIGHT_def nth_list_update keeps_tty simp del: of_nat_mult of_nat_add)
qed (use assms in \<open>simp add: untouched_def\<close>)

lemma setup_paging_tables:
  fixes s :: "('d, 'z) paging_scheme"
  assumes "tables_ok s"
  shows "\<exists>t. setup_paging B pd pt s = ret t \<and> tables_ok t \<and> untouched s t \<and> cr0 t = cr0 s OR 0x80000000 \<and> cr3 t = pd
    \<and> page_directory t ! 0 = pt OR 3 \<and> (\<forall>i < 1024. i \<noteq> 0 \<longrightarrow> page_directory t ! i = 2)
    \<and> (\<forall>i < 1024. page_table t ! i = of_nat (i * 4096) OR 3)"
proof -
  let ?s = "task B ''Initialize page directory and page table...'' 0 s"
  have "tables_ok ?s" using assms by (simp add: tables_ok_def)
  then obtain t where t: "for_loop 0 1024 (init_entry B) ?s = ret t" "tables_ok t" "cr0 t = cr0 s" "untouched s t"
    "\<forall>i < 1024. page_directory t ! i = 2 \<and> page_table t ! i = of_nat (i * 4096) OR 3"
    using init_loop [of ?s B] by (auto dest: untouched_task)
  let ?t = "task B ''Map the framebuffer...'' 0 (task B ''Initialize page directory and page table...'' 1 t)"
  obtain u where u: "for_loop 0 (FRAMEBUFFER_SIZE div PAGE_SIZE) (map_framebuffer B) ?t = ret u" "tables_ok u"
    "cr0 u = cr0 s" "untouched s u" "page_directory u = page_directory t" "\<forall>i < 1024. page_table u ! i = of_nat (i * 4096) OR 3"
    using map_loop [of ?t B] t by (auto simp: tables_ok_def untouched_def keeps_tty)
  show ?thesis
    using t(1,5) u by (auto simp: setup_paging_def aput_ret tables_ok_def untouched_def enable_paging_def load_page_directory_def
        nth_list_update keeps_tty simp del: of_nat_mult)
qed

lemma translate_split:
  "push_bit 12 (drop_bit 12 a) OR (a AND 0xFFF) = (a :: u32)"
  by (rule bit_word_eqI) (auto simp: bit_or_iff bit_and_iff bit_push_bit_iff bit_drop_bit_eq page_masks)

lemma low_page:
  assumes "(a :: u32) < 0x400000"
  shows "unat (drop_bit 22 a) = 0" "drop_bit 12 a AND 0x3FF = drop_bit 12 a" "unat (drop_bit 12 a) < 1024"
proof -
  have a: "unat a < 0x400000" using assms by (simp add: word_less_nat_alt)
  then show "unat (drop_bit 22 a) = 0" "unat (drop_bit 12 a) < 1024"
    by (simp_all add: drop_bit_eq_div unat_div less_mult_imp_div_less)
  have "drop_bit 12 a AND 0x3FF = take_bit 10 (drop_bit 12 a)"
    by (simp add: take_bit_eq_mask mask_numeral)
  also have "\<dots> = drop_bit 12 a"
    using a by (simp add: take_bit_eq_mod drop_bit_eq_div word_unat_eq_iff unat_mod unat_div less_mult_imp_div_less)
  finally show "drop_bit 12 a AND 0x3FF = drop_bit 12 a" .
qed

lemma high_page:
  assumes "\<not> (a :: u32) < 0x400000"
  shows "unat (drop_bit 22 a) \<noteq> 0" "unat (drop_bit 22 a) < 1024"
proof -
  have "\<not> unat a < 0x400000" using assms by (simp add: word_less_nat_alt)
  then show "unat (drop_bit 22 a) \<noteq> 0"
    by (simp add: drop_bit_eq_div unat_div div_eq_0_iff)
  show "unat (drop_bit 22 a) < 1024"
    using unat_u32_less [of a] by (simp add: drop_bit_eq_div unat_div less_mult_imp_div_less del: unat_u32_less)
qed

lemma setup_framebuffer_outside:
  "\<not> in_block 0xA0000 15000 a \<Longrightarrow> ram (setup_framebuffer s) a = ram s a"
proof -
  assume a: "\<not> in_block 0xA0000 15000 a"
  have "ram (fold (\<lambda>i s. s\<lparr>ram := (ram s)(of_nat FRAMEBUFFER_ADDRESS + of_nat i := 0x03)\<rparr>) is s) a = ram s a"
    if "set is \<subseteq> {..<15000}" for "is" and s :: "('a, 'b) hw_scheme"
    using that
  proof (induction "is" arbitrary: s)
    case (Cons i js)
    then have "a \<noteq> 0xA0000 + of_nat i"
      using a by (auto simp: in_block_def)
    then show ?case using Cons by (simp add: FRAMEBUFFER_ADDRESS_def)
  qed simp
  then show ?thesis by (simp add: setup_framebuffer_def FRAMEBUFFER_SIZE_def VGA_HEIGHT_def atLeast0LessThan)
qed

lemma setup_paging_maps:
  fixes s :: "('d, 'z) paging_scheme"
  assumes "tables_ok s" "pt AND 0xFFF = 0"
  shows "\<exists>t. setup_paging B pd pt s = ret t \<and> untouched s t \<and> cr0 t AND 0x80000000 \<noteq> 0
    \<and> (\<forall>a. translate pd pt t a = (if a < 0x400000 then Some a else None))
    \<and> (\<forall>e \<in> set (page_table t). e AND 4 = 0)"
proof -
  obtain t where t: "setup_paging B pd pt s = ret t" "tables_ok t" "cr0 t = cr0 s OR 0x80000000" "cr3 t = pd"
    "page_directory t ! 0 = pt OR 3" "\<forall>i < 1024. i \<noteq> 0 \<longrightarrow> page_directory t ! i = 2"
    "\<forall>i < 1024. page_table t ! i = of_nat (i * 4096) OR 3" "untouched s t"
    using setup_paging_tables [OF assms(1), of B pd pt] by auto
  have "cr0 t AND 0x80000000 \<noteq> 0"
    unfolding t(3) by (rule bit_nonzero [of _ 31]) (simp add: bit_and_iff bit_or_iff page_masks)
  moreover have "translate pd pt t a = (if a < 0x400000 then Some a else None)" for a
  proof (cases "a < 0x400000")
    case True
    let ?e = "push_bit 12 (drop_bit 12 a) OR 3 :: u32"
    have "page_table t ! unat (drop_bit 12 a AND 0x3FF) = ?e"
      using t(7) low_page [OF True] by (simp add: page_number del: of_nat_mult)
    then show ?thesis
      using True calculation low_page(1) [OF True] t(4,5) page_entry [OF assms(2)]
        page_entry [OF page_number_aligned, of "drop_bit 12 a"] translate_split [of a]
      by (simp add: translate_def)
  next
    case False
    then show ?thesis
      using calculation t(6) high_page [OF False] by (simp add: translate_def)
  qed
  moreover have "\<forall>e \<in> set (page_table t). e AND 4 = 0"
    using t(2,7) page_entry(3) [OF page_number_aligned]
    by (auto simp: in_set_conv_nth tables_ok_def page_number simp del: of_nat_mult)
  ultimately show ?thesis using t(1,8) by blast
qed

text \<open>
  \<open>send_ping\<close> hands a network address to \<open>printf\<close> as its format. Behind these tables it faults before
  it sends anything.
\<close>

lemma send_ping_after_paging:
  fixes s :: "('d, 'z) paging_scheme" and u :: "('e, 'y) tty_scheme"
  assumes "tables_ok s" "pt AND 0xFFF = 0" "setup_paging B pd pt s = ret t"
  shows "send_ping B' (translate pd pt t) dest_ip u = stuck PageFault"
proof (rule send_ping_unmapped)
  have "translate pd pt t a = (if a < 0x400000 then Some a else None)" for a
    using setup_paging_maps [OF assms(1,2), of B pd] assms(3) by auto
  then show "translate pd pt t 0x0100A8C0 = None" by simp
qed

subsection \<open>Properties\<close>

text \<open>C19: paging is set up as an identity mapping of the first four megabytes. With page aligned
  tables \<open>setup_paging\<close> returns with paging on, and the processor translates every address
  below \<open>0x400000\<close> to itself and no other address. Every page is for the supervisor only,
  where the comment in the loop says that it is a user page.\<close>

theorem setup_paging_identity:
  fixes s :: "('d, 'z) paging_scheme"
  assumes "tables_ok s" "pt AND 0xFFF = 0"
  shows "\<exists>t. setup_paging B pd pt s = ret t \<and> cr0 t AND 0x80000000 \<noteq> 0
    \<and> (\<forall>a. translate pd pt t a = (if a < 0x400000 then Some a else None))
    \<and> (\<forall>e \<in> set (page_table t). e AND 4 = 0)"
  using setup_paging_maps [OF assms, of B pd] by blast

definition boot_paging :: "'d \<Rightarrow> 'd paging" where
  "boot_paging d = net.extend (rtc.extend (boot_rtc d) (net.fields False))
     (paging.fields (replicate 1024 0) (replicate 1024 0) 0 0)"

theorem setup_paging_identity_witness:
  "\<exists>t. setup_paging idle_bus 0x1000 0x2000 (boot_paging ()) = ret t \<and> translate 0x1000 0x2000 t 0xB8000 = Some 0xB8000
    \<and> translate 0x1000 0x2000 t 0x0100A8C0 = None"
proof -
  have "tables_ok (boot_paging ())"
    by (simp add: tables_ok_def boot_paging_def net.extend_def paging.fields_def)
  from setup_paging_identity [OF this, of "0x2000" idle_bus "0x1000"] show ?thesis by auto
qed

end
