(* ===== verification/Drive.thy ===== *)
theory Drive
  imports Paging CString
begin

section \<open>Mounted drives\<close>

text \<open>
  The second, unfinished file system of \<^verbatim>\<open>kernel/arch/i386/tty.c\<close>: the table of mounted drives, block
  and cluster transfers, and files in a single root directory. The code reads blocks over
  the ends of the structures it names, so a \<open>MountedDrive\<close> is modelled as the 5224 bytes it takes
  with its members at their offsets: \<open>is_mounted\<close> at 0, the packed boot sector of 90
  bytes at 1, \<open>fat_start\<close> at 92, \<open>data_start\<close> at 96, \<open>file_count\<close> at 100 and 128 file entries
  of 40 bytes (32 bytes name, size, start cluster) from 104 on. Local arrays that are read before
  they are written are parameters.
\<close>

subsection \<open>Members\<close>

definition MAX_FILES :: nat where "MAX_FILES = 128"
definition MAX_FILENAME_LENGTH :: nat where "MAX_FILENAME_LENGTH = 32"
definition BLOCK_SIZE :: nat where "BLOCK_SIZE = 512"
definition MAX_MOUNTED_DRIVES :: nat where "MAX_MOUNTED_DRIVES = 4"

definition sizeof_FileEntry :: nat where "sizeof_FileEntry = MAX_FILENAME_LENGTH + 4 + 4"

definition sizeof_MountedDrive :: nat where "sizeof_MountedDrive = 104 + MAX_FILES * sizeof_FileEntry"

type_synonym drive = "u8 list"

definition is_mounted :: "drive \<Rightarrow> bool" where "is_mounted d \<longleftrightarrow> d ! 0 \<noteq> 0"
definition sectors_per_cluster :: "drive \<Rightarrow> u8" where "sectors_per_cluster d = d ! (1 + 13)"
definition reserved_sectors :: "drive \<Rightarrow> u16" where "reserved_sectors d = get16 d (1 + 14)"
definition num_fats :: "drive \<Rightarrow> u8" where "num_fats d = d ! (1 + 16)"
definition total_sectors_32 :: "drive \<Rightarrow> u32" where "total_sectors_32 d = get32 d (1 + 32)"
definition fat_size_32 :: "drive \<Rightarrow> u32" where "fat_size_32 d = get32 d (1 + 36)"
definition root_cluster :: "drive \<Rightarrow> u32" where "root_cluster d = get32 d (1 + 44)"
definition fat_start :: "drive \<Rightarrow> u32" where "fat_start d = get32 d 92"
definition data_start :: "drive \<Rightarrow> u32" where "data_start d = get32 d 96"
definition file_count :: "drive \<Rightarrow> u32" where "file_count d = get32 d 100"

definition entry_offset :: "nat \<Rightarrow> nat" where "entry_offset i = 104 + i * sizeof_FileEntry"
definition file_size :: "drive \<Rightarrow> nat \<Rightarrow> u32" where "file_size d i = get32 d (entry_offset i + 32)"
definition file_cluster :: "drive \<Rightarrow> nat \<Rightarrow> u32" where "file_cluster d i = get32 d (entry_offset i + 36)"

record 'd drives = "'d paging" +
  mounted_drives :: "drive list"

subsection \<open>Blocks\<close>

text \<open>The registers of the transfer: \<open>DISK_PORT\<close> is 0.\<close>

definition select_block :: "'d bus \<Rightarrow> u32 \<Rightarrow> u8 \<Rightarrow> ('d, 'z) hw_scheme \<Rightarrow> ('d, 'z) hw_scheme" where
  "select_block B block_num cmd s =
     (let s = outb B 6 0xE0 s;
          s = outb B 1 0 s;
          s = outb B 2 1 s;
          s = outb B 3 (ucast (block_num AND 0xFF)) s;
          s = outb B 4 (ucast (drop_bit 8 block_num AND 0xFF)) s;
          s = outb B 5 (ucast (drop_bit 16 block_num AND 0xFF)) s
      in outb B 7 cmd s)"

primrec words_in :: "'d bus \<Rightarrow> nat \<Rightarrow> nat \<Rightarrow> u8 list \<Rightarrow> ('d, 'z) hw_scheme \<Rightarrow> (u8 list \<times> ('d, 'z) hw_scheme) comp" where
  "words_in B 0 off buffer s = ret (buffer, s)"
| "words_in B (Suc n) off buffer s =
     (let (v, s) = inw B 0 s in bnd (ablit buffer off (bytes16 v)) (\<lambda>buffer. words_in B n (off + 2) buffer s))"

text \<open>The buffer of a block is an array and the offset in it.\<close>

definition read_block :: "'d bus \<Rightarrow> u32 \<Rightarrow> u8 list \<Rightarrow> nat \<Rightarrow> ('d, 'z) hw_scheme \<Rightarrow> (u8 list \<times> ('d, 'z) hw_scheme) comp" where
  "read_block B block_num buffer off s =
     bnd (inb_until B 7 (\<lambda>v. v AND 0x08 \<noteq> 0) (select_block B block_num 0x20 s)) (\<lambda>(_, s).
       words_in B (BLOCK_SIZE div 2) off buffer s)"

primrec words_out :: "'d bus \<Rightarrow> nat \<Rightarrow> nat \<Rightarrow> u8 list \<Rightarrow> ('d, 'z) hw_scheme \<Rightarrow> ('d, 'z) hw_scheme comp" where
  "words_out B 0 off buffer s = ret s"
| "words_out B (Suc n) off buffer s =
     (if off + 1 < length buffer then words_out B n (off + 2) buffer (outw B 0 (get16 buffer off) s)
      else stuck OutOfBounds)"

definition write_block :: "'d bus \<Rightarrow> u32 \<Rightarrow> u8 list \<Rightarrow> nat \<Rightarrow> ('d, 'z) hw_scheme \<Rightarrow> ('d, 'z) hw_scheme comp" where
  "write_block B block_num buffer off s =
     bnd (inb_until B 7 (\<lambda>v. v AND 0x08 \<noteq> 0) (select_block B block_num 0x30 s)) (\<lambda>(_, s).
       words_out B (BLOCK_SIZE div 2) off buffer s)"

subsection \<open>Mounting\<close>

definition read_boot_sector :: "'d bus \<Rightarrow> nat \<Rightarrow> ('d, 'z) drives_scheme \<Rightarrow> ('d, 'z) drives_scheme comp" where
  "read_boot_sector B drive_number s =
     bnd (aget (mounted_drives s) drive_number) (\<lambda>d.
     bnd (read_block B 0 d 1 s) (\<lambda>(d, s).
       ret (s\<lparr>mounted_drives := (mounted_drives s)[drive_number := d]\<rparr>)))"

definition initialize_fat32 :: "nat \<Rightarrow> ('d, 'z) drives_scheme \<Rightarrow> ('d, 'z) drives_scheme comp" where
  "initialize_fat32 drive_number s =
     bnd (aget (mounted_drives s) drive_number) (\<lambda>d.
     bnd (ablit d 92 (bytes32 (ucast (reserved_sectors d)))) (\<lambda>d.
     bnd (ablit d 96 (bytes32 (ucast (reserved_sectors d) + ucast (num_fats d) * fat_size_32 d))) (\<lambda>d.
       ret (s\<lparr>mounted_drives := (mounted_drives s)[drive_number := d]\<rparr>))))"

definition mount_drive :: "'d bus \<Rightarrow> u8 \<Rightarrow> ('d, 'z) drives_scheme \<Rightarrow> (bool \<times> ('d, 'z) drives_scheme) comp" where
  "mount_drive B drive_number s =
     (let n = unat drive_number in
      if n \<ge> MAX_MOUNTED_DRIVES then ret (False, s)
      else bnd (aget (mounted_drives s) n) (\<lambda>d.
        if is_mounted d then ret (False, s)
        else
          bnd (read_boot_sector B n s) (\<lambda>s.
          bnd (initialize_fat32 n s) (\<lambda>s.
          bnd (aget (mounted_drives s) n) (\<lambda>d.
          bnd (aput d 0 1) (\<lambda>d.
            let s = s\<lparr>mounted_drives := (mounted_drives s)[n := d]\<rparr>
            in ret (True, terminal_writestring B (lit ''[  OK  ] Drive mounted successfully.'') (terminal_newline s))))))))"

subsection \<open>Clusters and the allocation table\<close>

definition get_cluster_address :: "u32 \<Rightarrow> drive \<Rightarrow> u32" where
  "get_cluster_address cluster_number d =
     data_start d + (cluster_number - 2) * ucast (sectors_per_cluster d)"

definition read_cluster :: "'d bus \<Rightarrow> u32 \<Rightarrow> u8 list \<Rightarrow> drive \<Rightarrow> ('d, 'z) hw_scheme \<Rightarrow> (u8 list \<times> ('d, 'z) hw_scheme) comp" where
  "read_cluster B cluster_number buffer d s =
     for_loop 0 (unat (sectors_per_cluster d))
       (\<lambda>i (buffer, s). read_block B (get_cluster_address cluster_number d + of_nat i) buffer (i * BLOCK_SIZE) s) (buffer, s)"

definition write_cluster :: "'d bus \<Rightarrow> u32 \<Rightarrow> u8 list \<Rightarrow> drive \<Rightarrow> ('d, 'z) hw_scheme \<Rightarrow> ('d, 'z) hw_scheme comp" where
  "write_cluster B cluster_number buffer d s =
     for_loop 0 (unat (sectors_per_cluster d))
       (\<lambda>i. write_block B (get_cluster_address cluster_number d + of_nat i) buffer (i * BLOCK_SIZE)) s"

text \<open>A table is the bytes of a \<open>uint32_t\<close> array; \<open>i * BLOCK_SIZE\<close> wraps at 32 bits.\<close>

definition read_fat_table :: "'d bus \<Rightarrow> u8 list \<Rightarrow> drive \<Rightarrow> ('d, 'z) hw_scheme \<Rightarrow> (u8 list \<times> ('d, 'z) hw_scheme) comp" where
  "read_fat_table B fat_table d s =
     for_loop 0 (unat (fat_size_32 d * ucast (num_fats d)))
       (\<lambda>i (fat_table, s). read_block B (fat_start d + of_nat i) fat_table (unat (of_nat (i * BLOCK_SIZE) :: u32)) s)
       (fat_table, s)"

definition is_cluster_free :: "u32 \<Rightarrow> u8 list \<Rightarrow> bool comp" where
  "is_cluster_free cluster_number fat_table =
     (if 4 * unat cluster_number + 3 < length fat_table then ret (get32 fat_table (4 * unat cluster_number) = 0)
      else stuck OutOfBounds)"

function first_free :: "u32 \<Rightarrow> u32 \<Rightarrow> u8 list \<Rightarrow> u32 comp" where
  "first_free i limit fat_table =
     (if i < limit
      then bnd (is_cluster_free i fat_table) (\<lambda>free. if free then ret i else first_free (i + 1) limit fat_table)
      else ret 0)"
  by pat_completeness auto
termination
proof (relation "measure (\<lambda>(i, limit, fat_table). unat limit - unat i)", goal_cases)
  case (2 i limit fat_table free)
  then have "unat i < unat limit" by (simp add: word_less_nat_alt)
  moreover have "unat (i + 1) = unat i + 1"
    using calculation unat_u32_less [of limit] by (simp add: unat_word_ariths del: unat_u32_less)
  ultimately show ?case by simp
qed simp

declare first_free.simps [simp del]

text \<open>\<open>stale\<close> is what the local table of 512 bytes holds before it is read.\<close>

definition find_free_cluster :: "'d bus \<Rightarrow> u8 list \<Rightarrow> drive \<Rightarrow> ('d, 'z) hw_scheme \<Rightarrow> (u32 \<times> ('d, 'z) hw_scheme) comp" where
  "find_free_cluster B stale d s =
     bnd (read_fat_table B stale d s) (\<lambda>(fat_table, s).
       if sectors_per_cluster d = 0 then stuck DivByZero
       else bnd (first_free 2 (total_sectors_32 d div ucast (sectors_per_cluster d)) fat_table) (\<lambda>c. ret (c, s)))"

definition update_fat_entry :: "'d bus \<Rightarrow> u8 list \<Rightarrow> u32 \<Rightarrow> u32 \<Rightarrow> drive \<Rightarrow> ('d, 'z) hw_scheme \<Rightarrow> ('d, 'z) hw_scheme comp" where
  "update_fat_entry B stale cluster_number v d s =
     bnd (read_fat_table B stale d s) (\<lambda>(fat_table, s).
     bnd (ablit fat_table (4 * unat cluster_number) (bytes32 v)) (\<lambda>fat_table.
       write_block B (fat_start d + cluster_number * 4 div 512) fat_table 0 s))"

subsection \<open>Files\<close>

definition add_file :: "drive \<Rightarrow> u8 list \<Rightarrow> drive comp" where
  "add_file d entry =
     (let n = file_count d in
      if unat n \<ge> MAX_FILES then stuck OutOfBounds
      else bnd (ablit d 100 (bytes32 (n + 1))) (\<lambda>d. ablit d (entry_offset (unat n)) entry))"

text \<open>
  \<open>stale1\<close> and \<open>stale2\<close> are the two local entries; the character constant \<open>'test'\<close> is cut to its
  last character. The loop reads the same cluster 128 times.
\<close>

definition read_root_directory :: "'d bus \<Rightarrow> u8 list \<Rightarrow> u8 list \<Rightarrow> nat \<Rightarrow> ('d, 'z) drives_scheme \<Rightarrow> ('d, 'z) drives_scheme comp" where
  "read_root_directory B stale1 stale2 drive_number s =
     bnd (aget (mounted_drives s) drive_number) (\<lambda>d.
     let cluster = root_cluster d in
     bnd (aput stale1 1 116) (\<lambda>test.
     bnd (add_file d test) (\<lambda>d.
       for_loop 0 MAX_FILES (\<lambda>_ s. bnd (read_cluster B cluster stale2 d s) (\<lambda>(_, s). ret s))
         (s\<lparr>mounted_drives := (mounted_drives s)[drive_number := d]\<rparr>))))"

text \<open>
  The body of \<open>write_file\<close> for the free entry it has found. \<open>strncpy\<close> may clear the byte behind the local
  buffer: \<open>frame\<close> is the part of the stack that the compiler has put there, and \<open>spill\<close> what its new content does to the
  local entry and the state.
\<close>

definition store_file ::
  "'d bus \<Rightarrow> u8 list \<Rightarrow> u8 list \<Rightarrow> u8 list \<Rightarrow> u8 list
    \<Rightarrow> (u8 list \<Rightarrow> u8 list \<times> ('d, 'z) drives_scheme \<Rightarrow> (u8 list \<times> ('d, 'z) drives_scheme) comp)
    \<Rightarrow> nat \<Rightarrow> u8 list \<Rightarrow> u8 list \<Rightarrow> ('d, 'z) drives_scheme \<Rightarrow> ('d, 'z) drives_scheme comp" where
  "store_file B stale1 stale2 stale3 frame spill n filename body s =
     bnd (aget (mounted_drives s) n) (\<lambda>d.
     bnd (strncpy stale1 filename MAX_FILENAME_LENGTH) (\<lambda>new_file.
     bnd (strlen body) (\<lambda>len.
     bnd (ablit new_file 32 (bytes32 (of_nat len))) (\<lambda>new_file.
     bnd (find_free_cluster B stale2 d s) (\<lambda>(c, s).
     bnd (ablit new_file 36 (bytes32 c)) (\<lambda>new_file.
     bnd (strncpy (replicate BLOCK_SIZE 0 @ frame) body BLOCK_SIZE) (\<lambda>buffer.
     bnd (spill (drop BLOCK_SIZE buffer) (new_file, s)) (\<lambda>(new_file, s).
     bnd (write_cluster B (get32 new_file 36) (take BLOCK_SIZE buffer) d s) (\<lambda>s.
     bnd (update_fat_entry B stale3 (get32 new_file 36) 0xFFFFFFFF d s) (\<lambda>s.
     bnd (add_file d new_file) (\<lambda>d.
       ret (s\<lparr>mounted_drives := (mounted_drives s)[n := d]\<rparr>))))))))))))"

primrec free_entry :: "drive \<Rightarrow> nat \<Rightarrow> nat \<Rightarrow> bool" where
  "free_entry d i 0 = False"
| "free_entry d i (Suc n) = (file_size d i = 0 \<or> free_entry d (Suc i) n)"

definition write_file ::
  "'d bus \<Rightarrow> u8 list \<Rightarrow> u8 list \<Rightarrow> u8 list \<Rightarrow> u8 list
    \<Rightarrow> (u8 list \<Rightarrow> u8 list \<times> ('d, 'z) drives_scheme \<Rightarrow> (u8 list \<times> ('d, 'z) drives_scheme) comp)
    \<Rightarrow> nat \<Rightarrow> u8 list \<Rightarrow> u8 list \<Rightarrow> ('d, 'z) drives_scheme \<Rightarrow> ('d, 'z) drives_scheme comp" where
  "write_file B stale1 stale2 stale3 frame spill drive_number filename body s =
     bnd (aget (mounted_drives s) drive_number) (\<lambda>d.
       if free_entry d 0 MAX_FILES then store_file B stale1 stale2 stale3 frame spill drive_number filename body s
       else ret s)"

primrec read_entry :: "'d bus \<Rightarrow> drive \<Rightarrow> u8 list \<Rightarrow> nat \<Rightarrow> nat \<Rightarrow> ('d, 'z) drives_scheme \<Rightarrow> ('d, 'z) drives_scheme comp" where
  "read_entry B d filename i 0 s = ret s"
| "read_entry B d filename i (Suc n) s =
     (if i \<ge> MAX_FILES then stuck OutOfBounds
      else bnd (strcmp (drop (entry_offset i) d) filename) (\<lambda>r.
        if r = 0 then
          bnd (read_cluster B (file_cluster d i) (replicate BLOCK_SIZE 0) d s) (\<lambda>(buffer, s).
          bnd (contents buffer) (\<lambda>cs. ret (terminal_writestring B cs s)))
        else read_entry B d filename (i + 1) n s))"

definition read_file_tty :: "'d bus \<Rightarrow> nat \<Rightarrow> u8 list \<Rightarrow> ('d, 'z) drives_scheme \<Rightarrow> ('d, 'z) drives_scheme comp" where
  "read_file_tty B drive_number filename s =
     bnd (aget (mounted_drives s) drive_number) (\<lambda>d. read_entry B d filename 0 (unat (file_count d)) s)"

subsection \<open>Blocks overwrite what lies behind their target\<close>

lemma ablit_nth:
  assumes "i + length ys \<le> length xs"
  shows "\<exists>zs. ablit xs i ys = ret zs \<and> length zs = length xs
    \<and> (\<forall>k. k < length xs \<longrightarrow> zs ! k = (if i \<le> k \<and> k < i + length ys then ys ! (k - i) else xs ! k))"
  using assms by (auto simp: ablit_def nth_append)

text \<open>The bytes of the next \<open>n\<close> words of the data port, and the device after them.\<close>

primrec port_bytes :: "'d bus \<Rightarrow> nat \<Rightarrow> 'd \<Rightarrow> u8 list \<times> 'd" where
  "port_bytes B 0 d = ([], d)"
| "port_bytes B (Suc n) d =
     (let (v, d) = bus_inw B 0 d; (bs, d) = port_bytes B n d in (bytes16 v @ bs, d))"

lemma length_port_bytes [simp]: "length (fst (port_bytes B n d)) = 2 * n"
  by (induction n arbitrary: d) (simp_all add: case_prod_beta Let_def)

lemma words_in_bytes:
  "off + 2 * n \<le> length buffer \<Longrightarrow> words_in B n off buffer s =
     ret (take off buffer @ fst (port_bytes B n (dev s)) @ drop (off + 2 * n) buffer, s\<lparr>dev := snd (port_bytes B n (dev s))\<rparr>)"
proof (induction n arbitrary: off buffer s)
  case (Suc n)
  obtain v d where v: "bus_inw B 0 (dev s) = (v, d)" by fastforce
  let ?b = "take off buffer @ bytes16 v @ drop (off + 2) buffer"
  have "words_in B n (off + 2) ?b (s\<lparr>dev := d\<rparr>) =
      ret (take (off + 2) ?b @ fst (port_bytes B n d) @ drop (off + 2 + 2 * n) ?b, s\<lparr>dev := snd (port_bytes B n d)\<rparr>)"
    using Suc.IH [of "off + 2" ?b "s\<lparr>dev := d\<rparr>"] Suc.prems by simp
  moreover have "ablit buffer off (bytes16 v) = ret ?b" using Suc.prems by (simp add: ablit_ret)
  moreover have "take (off + 2) ?b = take off buffer @ bytes16 v" "drop (off + 2 + 2 * n) ?b = drop (off + 2 * Suc n) buffer"
    using Suc.prems by (simp_all add: min_def add.commute)
  ultimately show ?case
    using v by (simp add: inw_def case_prod_beta Let_def)
qed simp

text \<open>
  The device after the command to read a block, when it has shown data ready at the \<open>k\<close>-th
  further look at the status, and the block that it then delivers.
\<close>

definition asked_block :: "'d bus \<Rightarrow> u32 \<Rightarrow> 'd \<Rightarrow> 'd" where
  "asked_block B n d =
     bus_outb B 7 0x20 (bus_outb B 5 (ucast (drop_bit 16 n)) (bus_outb B 4 (ucast (drop_bit 8 n)) (bus_outb B 3 (ucast n)
       (bus_outb B 2 1 (bus_outb B 1 0 (bus_outb B 6 0xE0 d))))))"

definition ready_after :: "'d bus \<Rightarrow> nat \<Rightarrow> 'd \<Rightarrow> bool" where
  "ready_after B k d \<longleftrightarrow> (\<forall>i < k. fst (bus_inb B 7 (polled B 7 i d)) AND 8 = 0) \<and> fst (bus_inb B 7 (polled B 7 k d)) AND 8 \<noteq> 0"

definition delivered :: "'d bus \<Rightarrow> u32 \<Rightarrow> nat \<Rightarrow> 'd \<Rightarrow> u8 list" where
  "delivered B n k d = fst (port_bytes B 256 (polled B 7 (Suc k) (asked_block B n d)))"

lemma length_delivered [simp]: "length (delivered B n k d) = 512"
  by (simp add: delivered_def)

lemma low_byte: "(ucast (w AND 0xFF :: u32) :: u8) = ucast w"
  using take_bit_eq_mask [of 8 w, symmetric]
  by (intro bit_word_eqI) (auto simp: mask_numeral bit_ucast_iff bit_take_bit_iff)

lemma select_block_asked: "select_block B n 0x20 s = s\<lparr>dev := asked_block B n (dev s)\<rparr>"
  by (simp add: select_block_def asked_block_def outb_def Let_def low_byte)

lemma read_block_delivers:
  assumes "ready_after B k (asked_block B n (dev s))" "off + 512 \<le> length buffer"
  shows "\<exists>d. read_block B n buffer off s =
    ret (take off buffer @ delivered B n k (dev s) @ drop (off + 512) buffer, s\<lparr>dev := d\<rparr>)"
proof -
  let ?d = "asked_block B n (dev s)"
  have "inb_until B 7 (\<lambda>v. v AND 0x08 \<noteq> 0) (s\<lparr>dev := ?d\<rparr>) =
      ret (fst (bus_inb B 7 (polled B 7 k ?d)), s\<lparr>dev := polled B 7 (Suc k) ?d\<rparr>)"
    using assms(1) inb_until_returns [of k "\<lambda>v. v AND 0x08 \<noteq> 0" B 7 "s\<lparr>dev := ?d\<rparr>"] by (simp add: ready_after_def)
  then show ?thesis
    using words_in_bytes [of off 256 buffer B "s\<lparr>dev := polled B 7 (Suc k) ?d\<rparr>"] assms(2)
    by (auto simp: read_block_def select_block_asked BLOCK_SIZE_def delivered_def)
qed

subsection \<open>Mounting\<close>

text \<open>The drive record with the block over its first members and the two starts in place.\<close>

definition mounted_image :: "u8 list \<Rightarrow> drive \<Rightarrow> drive" where
  "mounted_image sec d =
     (let reserved = ucast (get16 sec 14); tables = ucast (sec ! 16) * get32 sec 36
      in [1] @ take 91 sec @ bytes32 reserved @ bytes32 (reserved + tables) @ drop 99 sec @ drop 513 d)"

lemma mount_boot_sector:
  assumes B: "ready_after B k (asked_block B 0 (dev s))" and n: "n < length (mounted_drives s)" "length (mounted_drives s ! n) = 5224"
  defines "d \<equiv> mounted_drives s ! n" and "sec \<equiv> delivered B 0 k (dev s)"
  shows "\<exists>e x. bnd (read_boot_sector B n s) (initialize_fat32 n) =
    ret (s\<lparr>dev := e, mounted_drives := (mounted_drives s)[n := x # tl (mounted_image sec d)]\<rparr>)"
proof -
  obtain x r where x: "d = x # r" "length r = 5223" using n(2) by (cases d) (auto simp: d_def)
  obtain e where r: "read_block B 0 d 1 s = ret (x # sec @ drop 512 r, s\<lparr>dev := e\<rparr>)"
    using read_block_delivers [OF B, of 1 d] n(2) x by (auto simp: d_def sec_def)
  have len: "length sec = 512" by (simp add: sec_def)
  define rs where "rs = (ucast (get16 sec 14) :: u32)"
  define ts where "ts = ucast (sec ! 16) * get32 sec 36"
  let ?d1 = "x # sec @ drop 512 r"
  let ?d2 = "x # take 91 sec @ bytes32 rs @ drop 95 sec @ drop 512 r"
  let ?d3 = "x # take 91 sec @ bytes32 rs @ bytes32 (rs + ts) @ drop 99 sec @ drop 512 r"
  have f: "reserved_sectors (x # sec' @ q) = get16 sec' 14" "num_fats (x # sec' @ q) = sec' ! 16"
    "fat_size_32 (x # sec' @ q) = get32 sec' 36" if "91 \<le> length sec'" for sec' q
    using that by (simp_all add: reserved_sectors_def num_fats_def fat_size_32_def get16_def get32_def nth_append)
  have t: "get16 (take 91 sec) 14 = get16 sec 14" "take 91 sec ! 16 = sec ! 16" "get32 (take 91 sec) 36 = get32 sec 36"
    by (simp_all add: get16_def get32_def)
  have 1: "ablit ?d1 92 (bytes32 (ucast (reserved_sectors ?d1))) = ret ?d2"
    using len x(2) f(1) [of sec] by (simp add: ablit_ret rs_def numeral_eq_Suc take_Cons' drop_Cons')
  have 2: "ablit ?d2 96 (bytes32 (ucast (reserved_sectors ?d2) + ucast (num_fats ?d2) * fat_size_32 ?d2)) = ret ?d3"
    using len x(2) f [of "take 91 sec"] t by (simp add: ablit_ret rs_def ts_def)
  have "tl (mounted_image sec d) = tl ?d3"
    by (simp add: mounted_image_def Let_def rs_def ts_def x(1))
  then have "?d3 = x # tl (mounted_image sec d)" by simp
  then have "bnd (read_boot_sector B n s) (initialize_fat32 n) =
      ret (s\<lparr>dev := e, mounted_drives := (mounted_drives s)[n := x # tl (mounted_image sec d)]\<rparr>)"
    using n(1) r 1 2 by (simp add: read_boot_sector_def initialize_fat32_def aget_ret d_def [symmetric])
  then show ?thesis by blast
qed

subsection \<open>Writing a file\<close>

text \<open>A drive that always has data ready or takes it.\<close>

definition data_ready :: "'d bus \<Rightarrow> bool" where
  "data_ready B \<longleftrightarrow> (\<forall>d. fst (bus_inb B 7 d) AND 8 \<noteq> 0)"

lemma data_ready_after: "data_ready B \<Longrightarrow> ready_after B 0 d"
  by (simp add: data_ready_def ready_after_def)

lemma words_out_ret: "off + 2 * n \<le> length buffer \<Longrightarrow> \<exists>d. words_out B n off buffer s = ret (s\<lparr>dev := d\<rparr>)"
proof (induction n arbitrary: off s)
  case 0
  show ?case by (rule exI [of _ "dev s"]) simp
next
  case (Suc n)
  obtain d where "outw B 0 (get16 buffer off) s = s\<lparr>dev := d\<rparr>" by (auto simp: outw_def)
  then show ?case using Suc.IH [of "off + 2" "s\<lparr>dev := d\<rparr>"] Suc.prems by auto
qed

lemma write_block_ret:
  assumes "data_ready B" "off + 512 \<le> length buffer"
  shows "\<exists>d. write_block B n buffer off s = ret (s\<lparr>dev := d\<rparr>)"
proof -
  obtain e where e: "select_block B n 0x30 s = s\<lparr>dev := e\<rparr>"
    by (auto simp: select_block_def outb_def Let_def)
  have "inb_until B 7 (\<lambda>v. v AND 0x08 \<noteq> 0) (s\<lparr>dev := e\<rparr>) =
      ret (fst (bus_inb B 7 e), s\<lparr>dev := snd (bus_inb B 7 e)\<rparr>)"
    using assms(1) inb_until_returns [of 0 "\<lambda>v. v AND 0x08 \<noteq> 0" B 7 "s\<lparr>dev := e\<rparr>"] by (simp add: data_ready_def)
  then show ?thesis
    using e words_out_ret [of off 256 buffer B "s\<lparr>dev := snd (bus_inb B 7 e)\<rparr>"] assms(2)
    by (auto simp: write_block_def BLOCK_SIZE_def)
qed

text \<open>A table of one block fits in the local array; a volume of up to 128 clusters is then searched within it.\<close>

lemma one_block_table:
  assumes "data_ready B" "fat_size_32 d * ucast (num_fats d) = 1" "length stale = 512"
  shows "\<exists>e. read_fat_table B stale d s = ret (delivered B (fat_start d) 0 (dev s), s\<lparr>dev := e\<rparr>)"
  using read_block_delivers [OF data_ready_after [OF assms(1)], of 0 stale "fat_start d" s] assms(2,3)
  by (auto simp: read_fat_table_def)

lemma first_free_small:
  assumes "length tab = 512" "unat limit \<le> 128"
  shows "\<exists>c. first_free i limit tab = ret c \<and> (c = 0 \<or> c < limit \<and> get32 tab (4 * unat c) = 0)"
  using assms
proof (induction i limit tab rule: first_free.induct [case_names step])
  case (step i limit tab)
  have free: "is_cluster_free i tab = ret (get32 tab (4 * unat i) = 0)" if "i < limit"
    using that step.prems by (simp add: is_cluster_free_def word_less_nat_alt)
  show ?case
  proof (cases "i < limit \<and> get32 tab (4 * unat i) \<noteq> 0")
    case True
    then show ?thesis
      using step.IH [of False] step.prems free by (subst first_free.simps) simp
  next
    case False
    then show ?thesis using free by (subst first_free.simps) auto
  qed
qed

lemma find_free_small:
  assumes "data_ready B" "fat_size_32 d * ucast (num_fats d) = 1" "length stale = 512" "sectors_per_cluster d = 1"
    "unat (total_sectors_32 d) \<le> 128"
  shows "\<exists>c e. find_free_cluster B stale d s = ret (c, s\<lparr>dev := e\<rparr>) \<and> unat c < 128
    \<and> (c = 0 \<or> get32 (delivered B (fat_start d) 0 (dev s)) (4 * unat c) = 0)"
proof -
  define tab where "tab = delivered B (fat_start d) 0 (dev s)"
  obtain e where e: "read_fat_table B stale d s = ret (tab, s\<lparr>dev := e\<rparr>)"
    using one_block_table [OF assms(1-3)] unfolding tab_def by blast
  obtain c where c: "first_free 2 (total_sectors_32 d) tab = ret c" "c = 0 \<or> c < total_sectors_32 d \<and> get32 tab (4 * unat c) = 0"
    using first_free_small [of tab "total_sectors_32 d"] assms(5) by (auto simp: tab_def)
  have one: "total_sectors_32 d div ucast (1 :: u8) = total_sectors_32 d" by simp
  have "find_free_cluster B stale d s = ret (c, s\<lparr>dev := e\<rparr>)"
    unfolding find_free_cluster_def e bnd_ret prod.case assms(4) one c(1) by simp
  moreover have "unat c < 128" using c(2)
  proof
    assume "c < total_sectors_32 d \<and> get32 tab (4 * unat c) = 0"
    then show ?thesis using assms(5) by (simp add: word_less_nat_alt)
  qed simp
  ultimately show ?thesis using c(2) unfolding tab_def by blast
qed

lemma update_entry_ret:
  assumes "data_ready B" "fat_size_32 d * ucast (num_fats d) = 1" "length stale = 512" "unat c < 128"
  shows "\<exists>e. update_fat_entry B stale c v d s = ret (s\<lparr>dev := e\<rparr>)"
proof -
  obtain e where e: "read_fat_table B stale d s = ret (delivered B (fat_start d) 0 (dev s), s\<lparr>dev := e\<rparr>)" (is "_ = ret (?t, ?s)")
    using one_block_table [OF assms(1-3)] by blast
  obtain u where u: "ablit ?t (4 * unat c) (bytes32 v) = ret u" "length u = 512"
    using ablit_nth [of "4 * unat c" "bytes32 v" ?t] assms(4) by auto
  obtain f where "write_block B (fat_start d + c * 4 div 512) u 0 ?s = ret (s\<lparr>dev := f\<rparr>)"
    using write_block_ret [OF assms(1), of 0 u "fat_start d + c * 4 div 512" ?s] u(2) by auto
  then show ?thesis using e u(1) by (auto simp: update_fat_entry_def)
qed

lemma write_cluster_one:
  assumes "data_ready B" "sectors_per_cluster d = 1" "length buffer = 512"
  shows "\<exists>e. write_cluster B c buffer d s = ret (s\<lparr>dev := e\<rparr>)"
  using write_block_ret [OF assms(1), of 0 buffer "get_cluster_address c d" s] assms(2,3)
  by (auto simp: write_cluster_def)

text \<open>The entry that \<open>write_file\<close> builds: the name in 32 bytes, the length of the content and the cluster.\<close>

definition file_record :: "u8 list \<Rightarrow> u8 list \<Rightarrow> u32 \<Rightarrow> u8 list" where
  "file_record filename body c =
     take 32 (text_of filename @ replicate 32 0) @ bytes32 (of_nat (length (text_of body))) @ bytes32 c"

lemma file_record_built:
  assumes "terminated filename" "length stale = 40"
  shows "\<exists>a b. strncpy stale filename 32 = ret a \<and> ablit a 32 (bytes32 len) = ret b
    \<and> ablit b 36 (bytes32 c) = ret (take 32 (text_of filename @ replicate 32 0) @ bytes32 len @ bytes32 c)"
proof -
  obtain a where a: "strncpy stale filename 32 = ret a" "take 32 a = take 32 (text_of filename @ replicate 32 0)" "length a = 40"
  proof (cases "32 \<le> length (text_of filename)")
    case True
    have "take 32 (text_of filename) = take 32 filename"
      using True by (subst takeWhile_eq_take) (simp add: min_def)
    moreover have "32 \<le> length filename" using True length_takeWhile_le [of _ filename] by (rule order_trans)
    ultimately show ?thesis
      using that True strncpy_long [OF True, of stale] assms(2) by simp
  next
    case False
    then show ?thesis
      using that strncpy_short [OF assms(1), of 32 stale] assms(2) by (simp add: Suc_diff_le min_def)
  qed
  then show ?thesis by (auto simp: ablit_ret)
qed

lemma write_file_appends:
  fixes s :: "('d, 'z) drives_scheme"
  assumes B: "data_ready B" and n: "n < length (mounted_drives s)" "d = mounted_drives s ! n" "length d = 5224"
    and d: "free_entry d 0 MAX_FILES" "unat (file_count d) < 128" "sectors_per_cluster d = 1"
      "fat_size_32 d * ucast (num_fats d) = 1" "unat (total_sectors_32 d) \<le> 128"
    and str: "terminated filename" "terminated body" and loc: "length stale1 = 40" "length stale2 = 512" "length stale3 = 512"
    and frame: "frame \<noteq> []" "\<And>bs x. spill bs x = ret x"
  shows "\<exists>c e x. write_file B stale1 stale2 stale3 frame spill n filename body s =
      ret (s\<lparr>dev := e, mounted_drives := (mounted_drives s)[n := x]\<rparr>)
    \<and> bnd (ablit d 100 (bytes32 (file_count d + 1))) (\<lambda>y. ablit y (entry_offset (unat (file_count d))) (file_record filename body c)) = ret x"
proof -
  obtain c e where c: "find_free_cluster B stale2 d s = ret (c, s\<lparr>dev := e\<rparr>)" "unat c < 128"
    using find_free_small [OF B d(4) loc(2) d(3,5)] by blast
  let ?f = "file_record filename body c"
  obtain a b where f: "strncpy stale1 filename 32 = ret a" "ablit a 32 (bytes32 (of_nat (length (text_of body)))) = ret b"
    "ablit b 36 (bytes32 c) = ret ?f"
    using file_record_built [OF str(1) loc(1)] unfolding file_record_def by blast
  have "get32 (nm @ bytes32 l @ bytes32 c) 36 = c" if "length nm = 32" for nm l
    using that by (simp add: get32_def nth_append bytes32_def le32_bytes32)
  moreover have "length (take 32 (text_of filename @ replicate 32 0)) = 32" by simp
  ultimately have lf: "length ?f = 40" "get32 ?f 36 = c"
    unfolding file_record_def by (simp_all only: length_append) (simp add: bytes32_def)
  obtain buf where buf: "strncpy (replicate 512 0 @ frame) body 512 = ret buf" "length buf = 512 + length frame"
  proof (cases "512 \<le> length (text_of body)")
    case True
    have "length (text_of body) \<le> length body" by (rule length_takeWhile_le)
    then show ?thesis using that strncpy_long [OF True, of "replicate 512 0 @ frame"] True by simp
  next
    case False
    then show ?thesis using that strncpy_short [OF str(2), of 512 "replicate 512 0 @ frame"] frame(1) by (cases frame) simp_all
  qed
  obtain e2 where w: "write_cluster B c (take 512 buf) d (s\<lparr>dev := e\<rparr>) = ret (s\<lparr>dev := e2\<rparr>)"
    using write_cluster_one [OF B d(3), of "take 512 buf" c "s\<lparr>dev := e\<rparr>"] buf(2) by auto
  obtain e3 where u: "update_fat_entry B stale3 c 0xFFFFFFFF d (s\<lparr>dev := e2\<rparr>) = ret (s\<lparr>dev := e3\<rparr>)"
    using update_entry_ret [OF B d(4) loc(3) c(2), of "0xFFFFFFFF" "s\<lparr>dev := e2\<rparr>"] by auto
  obtain y where y: "ablit d 100 (bytes32 (file_count d + 1)) = ret y" "length y = 5224"
    using ablit_nth [of 100 "bytes32 (file_count d + 1)" d] n(3) by auto
  obtain x where x: "ablit y (entry_offset (unat (file_count d))) ?f = ret x"
    using ablit_nth [of "entry_offset (unat (file_count d))" ?f y] y(2) d(2) lf(1)
    by (auto simp: entry_offset_def sizeof_FileEntry_def MAX_FILENAME_LENGTH_def)
  have "strlen body = ret (length (text_of body))" using str(2) by (simp add: strlen_ret)
  then have "write_file B stale1 stale2 stale3 frame spill n filename body s =
      ret (s\<lparr>dev := e3, mounted_drives := (mounted_drives s)[n := x]\<rparr>)"
    using n(1) d(1,2) f c(1) lf(2) buf(1) w u x y(1) frame(2)
    by (simp add: write_file_def store_file_def aget_ret n(2) [symmetric] MAX_FILENAME_LENGTH_def BLOCK_SIZE_def
        add_file_def MAX_FILES_def Let_def)
  then show ?thesis using x y(1) by auto
qed

interpretation drive_table: client mounted_drives
proof unfold_locales
  show "tty.more s = tty.more t \<Longrightarrow> mounted_drives s = mounted_drives t" for s t :: "('a, 'b) drives_scheme"
    by (cases s; cases t) simp
qed

text \<open>The drive table at boot.\<close>

definition boot_drives :: "'d \<Rightarrow> 'd drives" where
  "boot_drives d = paging.extend (boot_paging d) (drives.fields (replicate 4 (replicate 5224 0)))"

lemma mounted_boot_drives [simp]: "mounted_drives (boot_drives d) = replicate 4 (replicate 5224 0)"
  by (simp add: boot_drives_def paging.extend_def drives.fields_def)

definition ready_bus :: "unit bus" where
  "ready_bus = idle_bus\<lparr>bus_inb := (\<lambda>p d. (8, d))\<rparr>"

lemma ready_bus_ready [simp]: "data_ready ready_bus"
  by (simp add: data_ready_def ready_bus_def)

subsection \<open>Properties\<close>

text \<open>C39: mounting a drive. The call is refused, without effect, for a number that is not in the table or a drive
  that is mounted. Otherwise, if the device shows data ready at some look at its status,
  \<open>mount_drive\<close> reads block 0 from it and returns with the drive marked as mounted and the starts of the
  allocation table and of the data area computed from the boot sector. But all 512 bytes of the block are stored into a
  structure of 90: they run over the members behind it, up to byte 512 of the drive record, and the
  number of files in the root directory is taken from bytes 99 to 102 of the block, which are boot code. Nothing else in
  the table of drives is changed.\<close>

theorem mount_drive_reads_boot_sector:
  assumes "length (mounted_drives s) = 4" "d = mounted_drives s ! unat n"
  shows "(4 \<le> n \<or> is_mounted d \<longrightarrow> mount_drive B n s = ret (False, s))
    \<and> (n < 4 \<and> \<not> is_mounted d \<and> length d = 5224 \<and> ready_after B k (asked_block B 0 (dev s)) \<longrightarrow>
        (\<exists>t. mount_drive B n s = ret (True, t)
          \<and> mounted_drives t = (mounted_drives s)[unat n := mounted_image (delivered B 0 k (dev s)) d]
          \<and> file_count (mounted_drives t ! unat n) = get32 (delivered B 0 k (dev s)) 99))"
proof (intro conjI impI)
  assume "4 \<le> n \<or> is_mounted d"
  then show "mount_drive B n s = ret (False, s)"
    using assms by (auto simp: mount_drive_def MAX_MOUNTED_DRIVES_def aget_ret word_le_nat_alt Let_def)
next
  let ?sec = "delivered B 0 k (dev s)"
  assume a: "n < 4 \<and> \<not> is_mounted d \<and> length d = 5224 \<and> ready_after B k (asked_block B 0 (dev s))"
  then have n: "unat n < 4" by (simp add: word_less_nat_alt)
  obtain e x where e: "bnd (read_boot_sector B (unat n) s) (initialize_fat32 (unat n)) =
      ret (s\<lparr>dev := e, mounted_drives := (mounted_drives s)[unat n := x # tl (mounted_image ?sec d)]\<rparr>)"
    using mount_boot_sector [of B k s "unat n"] a n assms by auto
  have img: "mounted_image ?sec d = 1 # tl (mounted_image ?sec d)" by (simp add: mounted_image_def Let_def)
  let ?t = "s\<lparr>dev := e, mounted_drives := (mounted_drives s)[unat n := mounted_image ?sec d]\<rparr>"
  let ?u = "terminal_writestring B (lit ''[  OK  ] Drive mounted successfully.'') (terminal_newline ?t)"
  have "mount_drive B n s = ret (True, ?u)"
    using e a n assms img
    by (simp add: mount_drive_def MAX_MOUNTED_DRIVES_def aget_ret aput_ret Let_def bnd_assoc [symmetric])
  moreover have "file_count (mounted_image ?sec d) = get32 ?sec 99"
    by (simp add: mounted_image_def file_count_def get32_def nth_append Let_def)
  ultimately show "\<exists>t. mount_drive B n s = ret (True, t)
      \<and> mounted_drives t = (mounted_drives s)[unat n := mounted_image ?sec d]
      \<and> file_count (mounted_drives t ! unat n) = get32 ?sec 99"
    using n assms(1) by (intro exI [of _ ?u]) simp
qed

text \<open>A device that is busy for two looks at the status and then delivers the word \<open>0x0201\<close> again and again.\<close>

definition slow_words :: "nat bus" where
  "slow_words = \<lparr>bus_inb = \<lambda>p d. (if 2 \<le> d then 8 else 0, d + 1), bus_outb = \<lambda>p v d. d,
     bus_inw = \<lambda>p d. (0x0201, d), bus_outw = \<lambda>p v d. d\<rparr>"

lemma slow_words_block: "i < 512 \<Longrightarrow> delivered slow_words 0 2 d ! i = (if even i then 1 else 2)"
proof -
  have "fst (port_bytes slow_words n d) ! i = (if even i then 1 else 2)" if "i < 2 * n" for n i d
    using that
  proof (induction n arbitrary: i)
    case (Suc n)
    then show ?case
      by (cases i rule: nat.exhaust; cases "i - 1") (auto simp: slow_words_def case_prod_beta Let_def bytes16_def)
  qed simp
  then show "i < 512 \<Longrightarrow> delivered slow_words 0 2 d ! i = (if even i then 1 else 2)"
    by (simp add: delivered_def)
qed

theorem mount_drive_reads_boot_sector_witness:
  "mount_drive slow_words 4 (boot_drives 0) = ret (False, boot_drives 0)
   \<and> (\<exists>t. mount_drive slow_words 1 (boot_drives 0) = ret (True, t) \<and> file_count (mounted_drives t ! 1) = 0x01020102)"
proof -
  have "dev (boot_drives 0) = (0 :: nat)"
    by (simp add: boot_drives_def paging.extend_def boot_paging_def net.extend_def rtc.extend_def boot_rtc_def
        tty.extend_def boot_tty_def)
  moreover have "polled slow_words 7 i d = d + i" for i d by (induction i arbitrary: d) (simp_all add: slow_words_def)
  ultimately have "ready_after slow_words 2 (asked_block slow_words 0 (dev (boot_drives 0)))"
    by (simp add: ready_after_def asked_block_def) (simp add: slow_words_def)
  moreover have "get32 (delivered slow_words 0 2 (dev (boot_drives 0))) 99 = 0x01020102"
    by (simp add: get32_def slow_words_block le32_def)
  ultimately show ?thesis
    using mount_drive_reads_boot_sector [of "boot_drives 0" _ 4 slow_words 2, OF _ refl]
      mount_drive_reads_boot_sector [of "boot_drives 0" _ 1 slow_words 2, OF _ refl]
    by (auto simp: is_mounted_def)
qed

end
