(* ===== verification/Console.thy ===== *)
theory Console
  imports Drive
begin

section \<open>Keyboard, panic and setup screens\<close>

text \<open>
  The rest of the machine in \<^verbatim>\<open>kernel/arch/i386/tty.c\<close> below the shell: the keyboard, the
  speaker, rebooting and shutting down, the panic screen and the screens of the setup. The kernel's
  globals complete the state. A loop that only burns time is left out; halting the processor is a
  loop without exit. The value of \<open>divisor >> 80\<close> in \<open>beep\<close>, which C leaves undefined, is a parameter.
\<close>

subsection \<open>State\<close>

text \<open>\<open>username\<close> points to a constant, into the input buffer, or nowhere.\<close>

datatype name_ptr = Static "u8 list" | InBuffer nat | NoName

record 'd kern = "'d drives" +
  input_buffer :: "u8 list"
  input_buffer_index :: u32
  strtok_last :: "nat option"
  username :: name_ptr
  exitHKIloop :: bool
  fsinit :: bool
  paniccolor :: u32

definition osname :: "u8 list" where "osname = lit ''PotatoOS''"
definition version :: "u8 list" where "version = lit ''0''"
definition subversion :: "u8 list" where "subversion = lit ''2.5.2''"
definition hostname :: "u8 list" where "hostname = lit ''live''"

subsection \<open>The keyboard\<close>

text \<open>The layout as the source gives it; the rest of its 128 entries are 0.\<close>

definition keyboard_layout :: "u8 list" where
  "keyboard_layout =
     [0, 0] @ lit ''1234567890-='' @ [8, 9] @ lit ''qwertyuiop[]'' @ [10, 0] @ lit ''asdfghjkl;'' @ [39, 96, 0, 92]
     @ lit ''zxcvbnm,./ !@ $%^&*()~QWERTYUIOPASDFGHJKLZXCVBNM<>/|'' @ replicate 32 0"

text \<open>The unused table of FAT.c: it has the number sign that the layout of tty.c lacks.\<close>

definition keyboard_layouta :: "u8 list" where
  "keyboard_layouta =
     [0, 0] @ lit ''1234567890-='' @ [8, 9] @ lit ''qwertyuiop[]'' @ [10, 0] @ lit ''asdfghjkl;'' @ [39, 96, 0, 92]
     @ lit ''zxcvbnm,./ !@#$%^&*()~QWERTYUIOPASDFGHJKLZXCVBNM<>/|'' @ replicate 32 0"

lemma keyboard_layouts_differ: "keyboard_layouta = keyboard_layout[57 := 35]"
  by (simp add: keyboard_layouta_def keyboard_layout_def lit_def)

definition read_keyboard :: "'d bus \<Rightarrow> ('d, 'z) hw_scheme \<Rightarrow> (u8 \<times> ('d, 'z) hw_scheme) comp" where
  "read_keyboard B s =
     bnd (inb_until B 0x64 (\<lambda>v. v AND 0x01 \<noteq> 0) s) (\<lambda>(_, s).
       let (data, s) = inb B 0x60 s in
       if data AND 0x80 \<noteq> 0 then ret (0, s)
       else if unat data < length keyboard_layout then ret (keyboard_layout ! unat data, s)
       else ret (0, s))"

subsection \<open>Speaker, reboot, panic\<close>

definition stop_beep :: "'d bus \<Rightarrow> ('d, 'z) hw_scheme \<Rightarrow> ('d, 'z) hw_scheme" where
  "stop_beep B s = (let (v, s) = inb B 0x61 s in outb B 0x61 (v AND 0xFC) s)"

definition beep :: "'d bus \<Rightarrow> (u32 \<Rightarrow> u32) \<Rightarrow> u32 \<Rightarrow> ('d, 'z) hw_scheme \<Rightarrow> ('d, 'z) hw_scheme comp" where
  "beep B shr frequency s =
     (let (v, s) = inb B 0x61 s;
          s = outb B 0x61 (v OR 0x03) s in
      if frequency = 0 then stuck DivByZero
      else
        let divisor = 1193180 div frequency;
            s = outb B 0x43 0x27 s;
            s = outb B 0x40 (ucast (divisor AND 0xFF)) s;
            s = outb B 0x40 (ucast (shr divisor AND 0xFF)) s
        in ret (stop_beep B s))"

text \<open>The state in which \<open>reboot\<close> halts, and the loop around \<open>hlt\<close>.\<close>

definition reboot_state :: "'d bus \<Rightarrow> ('d, 'z) tty_scheme \<Rightarrow> ('d, 'z) tty_scheme" where
  "reboot_state B s =
     (let s = task B ''Reboot computer...'' 0 s;
          s = outb B 0x64 0xFE s;
          s = task B ''Reboot computer...'' 2 s
      in task B ''Sending hlt...'' 0 s)"

definition reboot :: "'d bus \<Rightarrow> ('d, 'z) tty_scheme \<Rightarrow> 't comp" where
  "reboot B s = forever ret (reboot_state B s)"

text \<open>\<open>panic\<close> up to its call of \<open>reboot\<close>.\<close>

definition at_column :: "'d bus \<Rightarrow> u32 \<Rightarrow> u8 list \<Rightarrow> ('d, 'z) tty_scheme \<Rightarrow> ('d, 'z) tty_scheme" where
  "at_column B c cs s = terminal_writestring B cs (s\<lparr>terminal_column := c\<rparr>)"

definition blue_screen :: "('d, 'z) kern_scheme \<Rightarrow> ('d, 'z) kern_scheme" where
  "blue_screen s =
     (let s = s\<lparr>terminal_color := vga_entry_color (color_code VGA_COLOR_WHITE) (paniccolor s),
                terminal_buffer := 0xB8000, input_buffer_index := 0\<rparr>;
          s = fill_screen s
      in terminal_newline (s\<lparr>waitwrite := True, terminal_row := 6\<rparr>))"

definition panic_screen :: "'d bus \<Rightarrow> (u32 \<Rightarrow> u32) \<Rightarrow> u8 list \<Rightarrow> ('d, 'z) kern_scheme \<Rightarrow> ('d, 'z) kern_scheme comp" where
  "panic_screen B shr msg s =
     bnd (beep B shr 7040 s) (\<lambda>s.
       let s = outb B 0x3D5 0x20 (outb B 0x3D4 0x0A s);
           s = terminal_writestring B (lit ''PANIC!!!'') s;
           s = blue_screen s;
           s = terminal_newline (at_column B 6 (lit ''An error occurred and the system has been shutdown.'') s);
           s = terminal_newline (at_column B 6 (lit ''Contact me at ospotato3@gmail.com with the error message below.'') s);
           s = terminal_newline (at_column B 6 (lit ''Github: https://github.com/winvistalover/PotatoOS/tree/nightly'') s);
           s = at_column B 6 (lit ''Panic: '') (terminal_newline s);
           s = terminal_newline (terminal_writestring B msg s);
           s = at_column B 6 (lit ''Kernel: '') s;
           s = fold (terminal_writestring B) [osname, lit '' '', version, lit ''.'', subversion] s;
           s = terminal_newline (terminal_newline (terminal_newline s));
           s = terminal_newline (at_column B 6 (lit ''The system will automatically reboot'') s);
           s = s\<lparr>terminal_row := of_nat (VGA_HEIGHT - 3)\<rparr>;
           s = at_column B 0 (lit ''Timeout:'') s;
           s = s\<lparr>terminal_column := 0, terminal_row := of_nat (VGA_HEIGHT - 2),
                 terminal_color := attribute VGA_COLOR_WHITE VGA_COLOR_WHITE\<rparr>
       in ret (fold (\<lambda>_. terminal_writestring B (lit ''#'')) [0..<VGA_WIDTH] s))"

definition panic :: "'d bus \<Rightarrow> (u32 \<Rightarrow> u32) \<Rightarrow> u8 list \<Rightarrow> ('d, 'z) kern_scheme \<Rightarrow> 't comp" where
  "panic B shr msg s = bnd (panic_screen B shr msg s) (reboot B)"

definition shutdown :: "'d bus \<Rightarrow> (u32 \<Rightarrow> u32) \<Rightarrow> ('d, 'z) kern_scheme \<Rightarrow> 't comp" where
  "shutdown B shr s =
     (let s = task B ''Attempting to shutdown computer...'' 0 s;
          s = task B ''Shutdown computer using old QEMU...'' 0 s;
          s = outw B 0xB004 0x2000 s;
          s = task B ''Shutdown computer using new QEMU...'' 0 s;
          s = outw B 0x604 0x2000 s;
          s = task B ''Shutdown computer using Virtualbox...'' 0 s;
          s = outw B 0x4004 0x3400 s;
          s = task B ''Shutdown computer...'' 2 s;
          s = task B ''Sending panic...'' 0 s
      in panic B shr (lit ''Failed to shutdown computer. It is now safe to turn off your computer.'') s)"

subsection \<open>Pictures and setup\<close>

definition say :: "'d bus \<Rightarrow> u8 list \<Rightarrow> ('d, 'z) tty_scheme \<Rightarrow> ('d, 'z) tty_scheme comp" where
  "say B format s = bnd (printf B format [] s) (\<lambda>(_, s). ret s)"

text \<open>The lines of the picture; each is a format, the ninth with a \<open>%@\<close>.\<close>

definition nyan_lines :: "string list" where
  "nyan_lines =
     [''           @@@@@@@@@@@@@@@@@@@@@@@@           '',
      ''         @::::------------------::::@@        '',
      ''         @:::--------+---+-------:::@@        '',
      ''         @:----------------@@-++---:@@  @@@   '',
      ''         @:--------------@@==@@----:@@ @===@  '',
      ''         @:---------+----@@=====@@@@@======@  '',
      ''@@==@@   @:-----+--------@@================@  '',
      ''@@==@@@@@@:----------+--@====  @======= @@==@@'',
      ''   @@@==%@:-------------@====@@@====@@=@@@==@@'',
      ''      @@@@:-------++----@=---=============--@@'',
      ''        @@::::-----------@=====@@@@@@@@@===@  '',
      ''        @@@:::::::::::::::@@==============@   '',
      ''       @+==@@ @===@         @===@  @===@      '',
      ''       @@@@    @@@@          @@@@   @@@@      '']"

definition nyan :: "'d bus \<Rightarrow> ('d, 'z) tty_scheme \<Rightarrow> ('d, 'z) tty_scheme comp" where
  "nyan B s =
     for_loop 0 14 (\<lambda>i s. bnd (say B (lit (nyan_lines ! i)) s) (\<lambda>s. ret (terminal_newline s)))
       (terminal_newline (s\<lparr>terminal_row := 1\<rparr>))"

definition m_tty :: "'d bus \<Rightarrow> ('d, 'z) tty_scheme \<Rightarrow> ('d, 'z) tty_scheme" where
  "m_tty B s =
     (let s = terminal_initialize s;
          s = outb B 0x3C5 0x01 (outb B 0x3C4 0x01 s);
          s = outb B 0x3C5 0x99 (outb B 0x3C4 0x02 s);
          s = outb B 0x3C5 0x00 (outb B 0x3C4 0x03 s);
          s = outb B 0x3C5 0x80 (outb B 0x3C4 0x04 s)
      in terminal_initialize s)"

definition fixflash :: "'d bus \<Rightarrow> ('d, 'z) kern_scheme \<Rightarrow> ('d, 'z) kern_scheme comp" where
  "fixflash B s =
     bnd (read_keyboard B (at_column B 6 (lit ''Is this flashing? [Y/n]'') (blue_screen s))) (\<lambda>(data2, s).
       let s = terminal_putchar B data2 (s\<lparr>terminal_column := 6\<rparr>)
       in ret (if data2 = 121 \<or> data2 = 10 then s\<lparr>paniccolor := color_code VGA_COLOR_BLACK\<rparr> else s))"

definition displayscreen :: "'d bus \<Rightarrow> ('d, 'z) kern_scheme \<Rightarrow> ('d, 'z) kern_scheme comp" where
  "displayscreen B s =
     (let s = at_column B 6 (lit ''Do you have a black and white display? [y/N]'') (blue_screen s) in
      bnd (read_keyboard B (s\<lparr>terminal_column := 6\<rparr>)) (\<lambda>(_, s).
      bnd (read_keyboard B s) (\<lambda>(data, s).
        let s = terminal_putchar B data s in
        if data = 121 then bnd (fixflash B (m_tty B s)) (fixflash B) else ret s)))"

definition setup_tty :: "'d bus \<Rightarrow> ('d, 'z) kern_scheme \<Rightarrow> ('d, 'z) kern_scheme comp" where
  "setup_tty B s =
     bnd (fixflash B (task B ''Running setup...'' 0 (terminal_initialize s))) (\<lambda>s.
     bnd (displayscreen B s) (\<lambda>s.
       ret (task B ''Running setup...'' 1 (terminal_newline s))))"

definition set_vga_mode :: "'d bus \<Rightarrow> ('d, 'z) tty_scheme \<Rightarrow> ('d, 'z) tty_scheme" where
  "set_vga_mode B s =
     (let s = task B ''Stop for 6000000...'' 0 s;
          s = task B ''Set VESA mode number...'' 0 s;
          s = task B ''Set VESA mode number...'' 2 s;
          s = task B ''Switch to 800x600x16 mode...'' 0 s;
          s = task B ''Switch to 800x600x16 mode...'' 2 s;
          s = task B ''Change cursor'' 0 s;
          s = outb B 0x3D5 0x02 (outb B 0x3D4 0x0A s);
          s = task B ''Change cursor'' 1 s;
          s = task B ''Stop for 6000000...'' 0 s
      in task B ''Stop for 6000000...'' 1 s)"

definition mainfat :: "'d bus \<Rightarrow> ('d, 'z) tty_scheme \<Rightarrow> int \<times> ('d, 'z) tty_scheme" where
  "mainfat B s = (1, task B ''No FAT FS support yet.'' 2 s)"

subsection \<open>Halting\<close>

lemma forever_ret: "(forever ret (s :: 's) :: 't comp) = None"
proof (cases "forever ret s :: 't comp")
  case (Some r)
  then have "(ret :: 's \<Rightarrow> 's comp) = ret \<longrightarrow> False"
    by (rule forever.raw_induct [rotated, where P = "\<lambda>f _ _. f = ret \<longrightarrow> False"]) (fastforce simp: ret_def bnd_def)
  then show ?thesis by simp
qed

lemma reboot_halts [simp]: "reboot B s = None"
  by (simp add: reboot_def forever_ret)

lemma beep_returns: "f \<noteq> 0 \<Longrightarrow> \<exists>d. beep B shr f s = ret (s\<lparr>dev := d\<rparr>)"
  by (auto simp: beep_def stop_beep_def inb_def outb_def Let_def case_prod_beta)

lemma panic_screen_returns: "\<exists>t. panic_screen B shr msg s = ret t"
  using beep_returns [of 7040 B shr s] by (auto simp: panic_screen_def Let_def)

lemma panic_halts [simp]: "panic B shr msg s = None"
  using panic_screen_returns [of B shr msg s] by (auto simp: panic_def)

lemma shutdown_halts [simp]: "shutdown B shr s = None"
  by (simp add: shutdown_def Let_def)

end
