(* ===== verification/Shell.thy ===== *)
theory Shell
  imports Console
begin

section \<open>The recovery shell\<close>

text \<open>
  \<open>handle_keyboard_input\<close> and \<open>shell\<close> of \<^verbatim>\<open>kernel/arch/i386/tty.c\<close>: one key at a time is edited
  into the input buffer or, for the return key, the line is run as a command. Each command of the
  source is a definition. Pointers into the input buffer are positions in it.
\<close>

subsection \<open>Commands\<close>

definition name_text :: "('d, 'z) kern_scheme \<Rightarrow> u8 list comp" where
  "name_text s =
     (case username s of Static cs \<Rightarrow> ret cs | InBuffer i \<Rightarrow> contents (drop i (input_buffer s)) | NoName \<Rightarrow> stuck NullDeref)"

definition prompt :: "'d bus \<Rightarrow> ('d, 'z) kern_scheme \<Rightarrow> ('d, 'z) kern_scheme comp" where
  "prompt B s =
     (let s = terminal_newline s in
      bnd (name_text s) (\<lambda>name.
        ret (fold (terminal_writestring B) [name, lit ''@'', hostname, lit '' /> ''] s)))"

primrec each :: "('x \<Rightarrow> 's \<Rightarrow> 's comp) \<Rightarrow> 'x list \<Rightarrow> 's \<Rightarrow> 's comp" where
  "each f [] s = ret s"
| "each f (x # xs) s = bnd (f x s) (each f xs)"

definition fakeroot :: "string list" where
  "fakeroot = [''/usr'', ''/root'', ''/var'', ''/sys'', ''/boot'', ''/dev'', ''/dev/console'', ''/dev/random'',
     ''/dev/stdout'', ''/dev/stdin'', ''/dev/stderr'']"

definition cmd_ls :: "'d bus \<Rightarrow> (u32 \<Rightarrow> u32) \<Rightarrow> ('d, 'z) kern_scheme \<Rightarrow> ('d, 'z) kern_scheme comp" where
  "cmd_ls B shr s =
     (let s = terminal_newline s in
      if \<not> fsinit s then panic B shr (lit ''FS NOT INIT!'') s
      else each (\<lambda>name s. bnd (printf B (lit ''%s '') [VStr (cstr name)] s) (\<lambda>(_, s). ret s)) fakeroot s)"

text \<open>An entry of the event log that \<open>task\<close> has stored as a number is printed as a string too.\<close>

definition event_arg :: "event \<Rightarrow> vararg" where
  "event_arg e = (case e of EventText cs \<Rightarrow> VStr (cs @ [0]) | EventInt n \<Rightarrow> VInt (of_int n))"

definition cmd_le :: "'d bus \<Rightarrow> ('d, 'z) kern_scheme \<Rightarrow> ('d, 'z) kern_scheme comp" where
  "cmd_le B s =
     bnd (say B (lit ''%n'') s) (\<lambda>s.
       each (\<lambda>e s. bnd (printf B (lit ''%s | '') [event_arg e] s) (\<lambda>(_, s). ret s)) (eventlog s) s)"

text \<open>\<open>strtok(input_buffer + i, " ")\<close>\<close>

definition token_at :: "nat \<Rightarrow> ('d, 'z) kern_scheme \<Rightarrow> (nat option \<times> ('d, 'z) kern_scheme) comp" where
  "token_at i s =
     bnd (strtok (input_buffer s) (Some i) (strtok_last s) (cstr '' '')) (\<lambda>(tok, lst, buf).
       ret (tok, s\<lparr>input_buffer := buf, strtok_last := lst\<rparr>))"

definition cmd_echo :: "'d bus \<Rightarrow> ('d, 'z) kern_scheme \<Rightarrow> ('d, 'z) kern_scheme comp" where
  "cmd_echo B s =
     bnd (token_at 5 s) (\<lambda>(tok, s).
       let s = terminal_newline s in
       case tok of None \<Rightarrow> stuck NullDeref
       | Some i \<Rightarrow> bnd (contents (drop i (input_buffer s))) (\<lambda>cs. ret (terminal_writestring B cs s)))"

definition cmd_ppm :: "'d bus \<Rightarrow> ('d, 'z) kern_scheme \<Rightarrow> ('d, 'z) kern_scheme" where
  "cmd_ppm B s =
     fold (\<lambda>line s. terminal_writestring B (lit line) (terminal_newline s))
       [''PotatoOS Package Manager'', ''Usage ppm [install][remove][update] [package name]'', ''This is a placeholder.''] s"

definition help_lines :: "string list" where
  "help_lines =
     [''fatinit         - Initialize the FAT.'',
      ''shutdown        - Shut down the computer.'',
      ''color           - Show the color test screen.'',
      ''ls              - List all the contents of the currently open directory.'',
      ''echo            - Output text onto the terminal.'',
      ''cat             - View the contents of a file.'',
      ''waitwrite       - Wait a duration of time before outputting a character onto the terminal, an example of this is in the kernel panic screen.'',
      ''ld              - Link object files and libraries.'']"

definition cmd_help :: "'d bus \<Rightarrow> ('d, 'z) kern_scheme \<Rightarrow> ('d, 'z) kern_scheme comp" where
  "cmd_help B s =
     bnd (each (say B) [lit ''PotatoOS '', version, lit ''.'', subversion] (terminal_newline s)) (\<lambda>s.
       each (\<lambda>line s. say B (lit line) (terminal_newline s)) help_lines (terminal_newline s))"

definition cmd_fatinit :: "'d bus \<Rightarrow> ('d, 'z) kern_scheme \<Rightarrow> ('d, 'z) kern_scheme" where
  "cmd_fatinit B s =
     (let s = terminal_writestring B (lit ''[      ] Attempting to initialize FAT...'') (terminal_newline s);
          (r, s) = mainfat B s
      in if r = 0 then s\<lparr>fsinit := True\<rparr> else s\<lparr>fsinit := False\<rparr>)"

text \<open>\<open>new_buffer\<close> is a \<open>char**\<close>, so that \<open>new_buffer + 2\<close> is eight bytes into the buffer.\<close>

definition cmd_un :: "'d bus \<Rightarrow> ('d, 'z) kern_scheme \<Rightarrow> ('d, 'z) kern_scheme comp" where
  "cmd_un B s =
     bnd (token_at 8 s) (\<lambda>(tok, s).
       let s = s\<lparr>username := (case tok of None \<Rightarrow> NoName | Some i \<Rightarrow> InBuffer i)\<rparr>;
           s = terminal_writestring B (lit ''Username is now: '') (terminal_newline s)
       in bnd (name_text s) (\<lambda>name. ret (terminal_writestring B name s)))"

text \<open>The colour test. The bound of its outer loop, \<open>VGA_HEIGHT - wait\<close>, wraps: \<open>wait\<close> is the 16-bit
  value of \<open>25 - 80\<close>.\<close>

definition color_cell :: "'d bus \<Rightarrow> nat \<Rightarrow> nat \<Rightarrow> ('d, 'z) kern_scheme \<Rightarrow> ('d, 'z) kern_scheme comp" where
  "color_cell B y x s =
     (let s = put_cell (of_nat (y * VGA_WIDTH + x)) (vga_entry 0x20 (terminal_color s)) s;
          s = s\<lparr>terminal_color := vga_entry_color (of_nat y) (of_nat x)\<rparr> in
      bnd (read_keyboard B s) (\<lambda>(_, s).
        nyan B (s\<lparr>terminal_column := terminal_column s + 1, waitwrite := True\<rparr>)))"

definition color_round :: "'d bus \<Rightarrow> nat \<Rightarrow> ('d, 'z) kern_scheme \<Rightarrow> ('d, 'z) kern_scheme comp" where
  "color_round B y0 s =
     (let s = s\<lparr>terminal_buffer := 0xB8000 + 2 * of_nat y0\<rparr>;
          s = outb B 0x3D5 0x20 (outb B 0x3D4 0x0A s) in
      bnd (for_loop 0 VGA_HEIGHT (\<lambda>y. for_loop 0 VGA_WIDTH (color_cell B y)) s) (\<lambda>s.
        ret (outb B 0x3D5 0x02 (outb B 0x3D4 0x0A (s\<lparr>terminal_color := attribute VGA_COLOR_WHITE VGA_COLOR_BLACK\<rparr>)))))"

definition cmd_color :: "'d bus \<Rightarrow> ('d, 'z) kern_scheme \<Rightarrow> 't comp" where
  "cmd_color B s =
     (let wait = of_nat VGA_HEIGHT - of_nat VGA_WIDTH :: u16
      in forever (for_loop 0 (unat (of_nat VGA_HEIGHT - ucast wait :: u32)) (color_round B)) s)"

definition cmd_unknown :: "'d bus \<Rightarrow> ('d, 'z) kern_scheme \<Rightarrow> ('d, 'z) kern_scheme comp" where
  "cmd_unknown B s =
     bnd (say B [39] (terminal_newline s)) (\<lambda>s.
     bnd (contents (input_buffer s)) (\<lambda>cs.
     bnd (say B cs s) (\<lambda>s.
     bnd (say B [39] s)
         (say B (lit '' unknown command or file name.'')))))"

subsection \<open>The command interpreter\<close>

definition is_cmd :: "('d, 'z) kern_scheme \<Rightarrow> string \<Rightarrow> bool comp" where
  "is_cmd s name = bnd (strcmp (input_buffer s) (cstr name)) (\<lambda>r. ret (r = 0))"

definition has_prefix :: "('d, 'z) kern_scheme \<Rightarrow> string \<Rightarrow> nat \<Rightarrow> bool comp" where
  "has_prefix s name n = bnd (strncmp_tty (input_buffer s) (cstr name) n) (\<lambda>r. ret (r = 0))"

text \<open>The first case of a chain of \<open>if\<close>s whose condition holds.\<close>

primrec select :: "(bool comp \<times> 'a comp) list \<Rightarrow> 'a comp \<Rightarrow> 'a comp" where
  "select [] e = e"
| "select (c # cs) e = bnd (fst c) (\<lambda>b. if b then snd c else select cs e)"

definition run_command :: "'d bus \<Rightarrow> (u32 \<Rightarrow> u32) \<Rightarrow> ('d, 'z) kern_scheme \<Rightarrow> ('d, 'z) kern_scheme comp" where
  "run_command B shr s =
     select
       [(is_cmd s ''ls'', cmd_ls B shr s),
        (is_cmd s ''le'', cmd_le B s),
        (has_prefix s ''echo '' 5, cmd_echo B s),
        (is_cmd s ''m'', ret (m_tty B s)),
        (is_cmd s ''ppm'', ret (cmd_ppm B s)),
        (is_cmd s ''help'', cmd_help B s),
        (is_cmd s ''clear'', ret (terminal_initialize s)),
        (is_cmd s ''exit'', ret (s\<lparr>exitHKIloop := True\<rparr>)),
        (is_cmd s ''panic'', ret (s\<lparr>fsinit := False\<rparr>)),
        (is_cmd s ''reboot'', reboot B s),
        (is_cmd s ''g'', ret (outb B 0x3D5 0x02 (outb B 0x3D4 0x0A s))),
        (is_cmd s ''fatinit'', ret (cmd_fatinit B s)),
        (is_cmd s ''waitwrite'', ret (s\<lparr>waitwrite := True\<rparr>)),
        (is_cmd s ''shutdown'', shutdown B shr s),
        (has_prefix s ''un '' 2, cmd_un B s),
        (is_cmd s ''color'', cmd_color B s)]
       (if input_buffer_index s \<noteq> 0 then cmd_unknown B s else ret s)"

definition handle_return :: "'d bus \<Rightarrow> (u32 \<Rightarrow> u32) \<Rightarrow> ('d, 'z) kern_scheme \<Rightarrow> ('d, 'z) kern_scheme comp" where
  "handle_return B shr s =
     bnd (run_command B shr s) (\<lambda>s. bnd (prompt B s) (\<lambda>s. ret (s\<lparr>input_buffer_index := 0\<rparr>)))"

definition handle_backspace :: "'d bus \<Rightarrow> ('d, 'z) kern_scheme \<Rightarrow> ('d, 'z) kern_scheme comp" where
  "handle_backspace B s =
     bnd (name_text s) (\<lambda>name.
       if terminal_column s > of_nat (length name + length hostname + 5) then
         let s = s\<lparr>terminal_column := terminal_column s - 1, input_buffer_index := input_buffer_index s - 1\<rparr>;
             s = terminal_putentryat B 0x20 (terminal_color s) (terminal_column s) (terminal_row s) s
         in ret (update_cursor B (terminal_column s) (terminal_row s) s)
       else ret s)"

definition select_color :: "'d bus \<Rightarrow> ('d, 'z) kern_scheme \<Rightarrow> ('d, 'z) kern_scheme" where
  "select_color B s =
     (let s = s\<lparr>terminal_color := vga_entry_color (terminal_row s * input_buffer_index s) (input_buffer_index s),
                terminal_buffer := 0xB8000, terminal_row := 0\<rparr>;
          s = fill_screen s
      in terminal_writestring B (lit ''Select a color'') (s\<lparr>terminal_row := 6, terminal_column := 6\<rparr>))"

definition insert_key :: "'d bus \<Rightarrow> u8 \<Rightarrow> ('d, 'z) kern_scheme \<Rightarrow> ('d, 'z) kern_scheme comp" where
  "insert_key B data s =
     (if input_buffer_index s < 255 then
        bnd (aput (input_buffer s) (unat (input_buffer_index s)) data) (\<lambda>buf.
          ret (terminal_putchar B data
            (s\<lparr>input_buffer := buf, input_buffer_index := input_buffer_index s + 1\<rparr>)))
      else ret s)"

definition handle_keyboard_input :: "'d bus \<Rightarrow> (u32 \<Rightarrow> u32) \<Rightarrow> ('d, 'z) kern_scheme \<Rightarrow> ('d, 'z) kern_scheme comp" where
  "handle_keyboard_input B shr s =
     bnd (read_keyboard B s) (\<lambda>(data, s).
       if data = 0 then ret s
       else
         bnd (aput (input_buffer s) (unat (input_buffer_index s)) 0) (\<lambda>buf.
         let s = s\<lparr>input_buffer := buf\<rparr> in
         if data = 8 then handle_backspace B s
         else
           let (data, s) = (if data = 85 then (data - 85, select_color B s) else (data, s)) in
           if data = 10 then handle_return B shr s else insert_key B data s))"

subsection \<open>The shell\<close>

partial_function (option) shell_loop :: "'d bus \<Rightarrow> (u32 \<Rightarrow> u32) \<Rightarrow> ('d, 'z) kern_scheme \<Rightarrow> ('d, 'z) kern_scheme comp" where
  "shell_loop B shr s =
     (if exitHKIloop s then ret s else bnd (handle_keyboard_input B shr s) (shell_loop B shr))"

definition shell :: "'d bus \<Rightarrow> (u32 \<Rightarrow> u32) \<Rightarrow> ('d, 'z) kern_scheme \<Rightarrow> ('d, 'z) kern_scheme comp" where
  "shell B shr s = bnd (prompt B (task B ''Entering recovery shell...'' 1 s)) (shell_loop B shr)"

subsection \<open>Output keeps the globals\<close>

lemma kern_more:
  assumes "tty.more s = tty.more t"
  shows "input_buffer s = input_buffer t"
    "input_buffer_index s = input_buffer_index t"
    "username s = username t"
    "exitHKIloop s = exitHKIloop t"
    "fsinit s = fsinit t"
    "strtok_last s = strtok_last t"
    "paniccolor s = paniccolor t"
  using assms by (cases s; cases t; simp)+

interpretation in_buffer: client input_buffer
  by unfold_locales (rule kern_more)

interpretation in_index: client input_buffer_index
  by unfold_locales (rule kern_more)

interpretation user: client username
  by unfold_locales (rule kern_more)

interpretation leaving: client exitHKIloop
  by unfold_locales (rule kern_more)

interpretation fs_flag: client fsinit
  by unfold_locales (rule kern_more)

interpretation tokens: client strtok_last
  by unfold_locales (rule kern_more)

interpretation panic_bg: client paniccolor
  by unfold_locales (rule kern_more)

subsection \<open>The line editor\<close>

text \<open>
  What editing does, on the line typed so far and the column of the cursor; \<open>w\<close> is the width of the
  prompt. A key 0 is no key; other keys than backspace are appended while the line is shorter
  than 255.
\<close>

definition edit :: "nat \<Rightarrow> u8 \<Rightarrow> u8 list \<times> nat \<Rightarrow> u8 list \<times> nat" where
  "edit w k = (\<lambda>(line, col).
     if k = 0 then (line, col)
     else if k = 8 then (if w < col then (butlast line, col - 1) else (line, col))
     else if length line < 255 then (line @ [k], (col + 1) mod 80)
     else (line, col))"

definition editor_of :: "('d, 'z) kern_scheme \<Rightarrow> u8 list \<times> nat" where
  "editor_of s = (take (unat (input_buffer_index s)) (input_buffer s), unat (terminal_column s))"

text \<open>
  The invariant of editing: the prompt fits a line, the index is in the buffer, and the cursor has not
  moved further right than there are characters typed.
\<close>

definition editor_ok :: "nat \<Rightarrow> ('d, 'z) kern_scheme \<Rightarrow> bool" where
  "editor_ok w s \<longleftrightarrow> (\<exists>name. username s = Static name \<and> w = length name + length hostname + 5) \<and> w < 80
     \<and> length (input_buffer s) = 256 \<and> input_buffer_index s \<le> 255 \<and> terminal_column s < 80
     \<and> unat (terminal_column s) \<le> unat (input_buffer_index s) + w"

lemma putchar_column:
  assumes "terminal_column s < 80"
  shows "unat (terminal_column (terminal_putchar B c s)) = (unat (terminal_column s) + 1) mod 80"
    "terminal_column (terminal_putchar B c s) < 80"
proof -
  let ?c = "terminal_column s"
  have c: "unat ?c < 80" using assms by (simp add: word_less_nat_alt)
  have u: "unat (?c + 1) = unat ?c + 1" using c by (simp add: unat_word_ariths)
  have "?c + 1 = 80 \<longleftrightarrow> unat ?c = 79" using u by (auto simp: word_unat_eq_iff)
  moreover have "terminal_column (terminal_putchar B c s) = (if ?c + 1 = 80 then 0 else ?c + 1)"
    by (simp add: terminal_putchar_def terminal_putentryat_def terminal_scroll_def VGA_WIDTH_def VGA_HEIGHT_def Let_def)
  ultimately show "unat (terminal_column (terminal_putchar B c s)) = (unat ?c + 1) mod 80"
    "terminal_column (terminal_putchar B c s) < 80"
    using c u by (auto simp: word_less_nat_alt mod_Suc)
qed

lemma read_keyboard_frame:
  assumes "read_keyboard B s = ret (k, u)"
  shows "\<exists>d. u = s\<lparr>dev := d\<rparr>"
proof -
  obtain v t where t: "inb_until B 0x64 (\<lambda>v. v AND 0x01 \<noteq> 0) s = ret (v, t)"
    and u: "(let (data, s) = inb B 0x60 t in if data AND 0x80 \<noteq> 0 then ret (0, s)
       else if unat data < length keyboard_layout then ret (keyboard_layout ! unat data, s) else ret (0, s)) = ret (k, u)"
    using assms by (auto simp: read_keyboard_def bnd_eq_ret)
  obtain d where "t = s\<lparr>dev := d\<rparr>" using inb_until_ready [OF t] by blast
  then show ?thesis
    using u by (auto simp: inb_def Let_def case_prod_beta split: if_splits)
qed

lemma handle_insert:
  assumes ok: "editor_ok w u" and k: "k \<noteq> 0" "k \<noteq> 8"
    and b: "take (unat (input_buffer_index u)) (input_buffer u) = line"
  shows "\<exists>t. insert_key B k u = ret t \<and> editor_ok w t \<and> editor_of t = edit w k (line, unat (terminal_column u))"
proof -
  let ?i = "input_buffer_index u"
  have i: "unat ?i \<le> 255" using ok by (simp add: editor_ok_def word_le_nat_alt)
  then have l: "length line = unat ?i" using ok b by (auto simp: editor_ok_def)
  show ?thesis
  proof (cases "?i < 255")
    case True
    then have t: "unat ?i < 255" by (simp add: word_less_nat_alt)
    then have u1: "unat (?i + 1) = unat ?i + 1" by (simp add: unat_word_ariths)
    let ?u = "u\<lparr>input_buffer := (input_buffer u)[unat ?i := k], input_buffer_index := ?i + 1\<rparr>"
    have "insert_key B k u = ret (terminal_putchar B k ?u)"
      using True t ok by (simp add: insert_key_def aput_ret editor_ok_def)
    moreover have "editor_ok w (terminal_putchar B k ?u)"
      using ok t u1 putchar_column [of ?u B k] by (auto simp: editor_ok_def word_le_nat_alt)
    moreover have "editor_of (terminal_putchar B k ?u) = (line @ [k], (unat (terminal_column u) + 1) mod 80)"
      using ok t u1 b putchar_column [of ?u B k] by (simp add: editor_of_def editor_ok_def take_Suc_conv_app_nth)
    ultimately show ?thesis using k l t by (simp add: edit_def)
  next
    case False
    then have "unat ?i = 255" using i by (simp add: word_less_nat_alt)
    then show ?thesis using ok k l b False by (simp add: insert_key_def editor_of_def edit_def)
  qed
qed

lemma handle_backspace_edit:
  assumes ok: "editor_ok w u" and b: "take (unat (input_buffer_index u)) (input_buffer u) = line"
  shows "\<exists>t. handle_backspace B u = ret t \<and> editor_ok w t \<and> editor_of t = edit w 8 (line, unat (terminal_column u))"
proof -
  let ?i = "input_buffer_index u" and ?c = "terminal_column u"
  obtain name where n: "username u = Static name" "w = length name + length hostname + 5" "w < 80"
    using ok by (auto simp: editor_ok_def)
  have w: "?c > of_nat w \<longleftrightarrow> w < unat ?c" using n(3) by (simp add: word_less_nat_alt)
  show ?thesis
  proof (cases "w < unat ?c")
    case True
    then have i: "0 < unat ?i" using ok by (auto simp: editor_ok_def)
    have m: "unat (?i - 1) = unat ?i - 1" "unat (?c - 1) = unat ?c - 1"
    proof -
      have "?i \<noteq> 0" "?c \<noteq> 0" using i True by auto
      then show "unat (?i - 1) = unat ?i - 1" "unat (?c - 1) = unat ?c - 1" by (simp_all add: unat_minus_one)
    qed
    let ?u = "u\<lparr>terminal_column := ?c - 1, input_buffer_index := ?i - 1\<rparr>"
    let ?t = "terminal_putentryat B 0x20 (terminal_color ?u) (terminal_column ?u) (terminal_row ?u) ?u"
    have "handle_backspace B u = ret (update_cursor B (terminal_column ?t) (terminal_row ?t) ?t)"
      using True w n by (simp add: handle_backspace_def name_text_def Let_def)
    moreover have "terminal_column ?t = ?c - 1" by (simp add: terminal_putentryat_def)
    moreover have "take (unat ?i - 1) (input_buffer u) = butlast line"
      using b ok by (auto simp: editor_ok_def butlast_take word_le_nat_alt)
    ultimately show ?thesis
      using ok True m i w by (auto simp: editor_ok_def editor_of_def edit_def word_le_nat_alt word_less_nat_alt)
  next
    case False
    then show ?thesis
      using w n ok b by (simp add: handle_backspace_def name_text_def editor_of_def edit_def)
  qed
qed

lemma handle_edit:
  assumes ok: "editor_ok w s" and r: "read_keyboard B s = ret (k, u)" and k: "k \<noteq> 10" "k \<noteq> 85"
  shows "\<exists>t. handle_keyboard_input B shr s = ret t \<and> editor_ok w t \<and> editor_of t = edit w k (editor_of s)"
proof -
  obtain d where u: "u = s\<lparr>dev := d\<rparr>" using read_keyboard_frame [OF r] by blast
  have i: "unat (input_buffer_index s) \<le> 255" using ok by (simp add: editor_ok_def word_le_nat_alt)
  let ?u = "s\<lparr>dev := d, input_buffer := (input_buffer s)[unat (input_buffer_index s) := 0]\<rparr>"
  have put: "aput (input_buffer s) (unat (input_buffer_index s)) 0 = ret ((input_buffer s)[unat (input_buffer_index s) := 0])"
    using ok i by (simp add: aput_ret editor_ok_def)
  have ok': "editor_ok w ?u" using ok by (simp add: editor_ok_def)
  have line: "take (unat (input_buffer_index ?u)) (input_buffer ?u) = fst (editor_of s)"
    by (simp add: editor_of_def)
  have h: "k \<noteq> 0 \<Longrightarrow> handle_keyboard_input B shr s = (if k = 8 then handle_backspace B ?u else insert_key B k ?u)"
    using r put k by (simp add: handle_keyboard_input_def u Let_def)
  have h0: "k = 0 \<Longrightarrow> handle_keyboard_input B shr s = ret (s\<lparr>dev := d\<rparr>)"
    using r by (simp add: handle_keyboard_input_def u)
  have e: "editor_of s = (fst (editor_of s), unat (terminal_column ?u))" by (simp add: editor_of_def)
  consider "k = 0" | "k = 8" | "k \<noteq> 0" "k \<noteq> 8" by blast
  then show ?thesis
  proof cases
    case 1
    then show ?thesis using h0 ok by (simp add: edit_def editor_ok_def editor_of_def)
  next
    case 2
    then show ?thesis using h handle_backspace_edit [OF ok' line, of B] e by simp
  next
    case 3
    then show ?thesis using h handle_insert [OF ok' 3 line, of B] e by simp
  qed
qed

text \<open>Editing sessions: keys other than return and the colour key, one after the other.\<close>

inductive edits :: "'d bus \<Rightarrow> (u32 \<Rightarrow> u32) \<Rightarrow> ('d, 'z) kern_scheme \<Rightarrow> u8 list \<Rightarrow> ('d, 'z) kern_scheme \<Rightarrow> bool"
  for B :: "'d bus" and shr :: "u32 \<Rightarrow> u32" and s :: "('d, 'z) kern_scheme" where
  edits_none: "edits B shr s [] s"
| edits_key: "edits B shr s ks t \<Longrightarrow> read_keyboard B t = ret (k, u) \<Longrightarrow> k \<noteq> 10 \<Longrightarrow> k \<noteq> 85
    \<Longrightarrow> handle_keyboard_input B shr t = ret v \<Longrightarrow> edits B shr s (ks @ [k]) v"

inductive_cases edits_snocE: "edits B shr s (ks @ [k]) v"

lemma edits_refine:
  assumes "edits B shr s ks t" "editor_ok w s"
  shows "editor_ok w t \<and> editor_of t = fold (edit w) ks (editor_of s)"
  using assms
proof induction
  case (edits_key ks t k u v)
  then show ?case using handle_edit [of w t B k u shr] by auto
qed simp

subsection \<open>Running commands\<close>

lemma each_more:
  assumes "\<And>x u v. f x u = ret v \<Longrightarrow> tty.more v = tty.more u" "each f xs s = ret t"
  shows "tty.more t = tty.more s"
  using assms(2) by (induction xs arbitrary: s) (auto simp: bnd_eq_ret dest!: assms(1))

lemma say_more: "say B cs s = ret t \<Longrightarrow> tty.more t = tty.more s"
  by (auto simp: say_def bnd_eq_ret dest: printf_more)

lemma select_ret:
  "select cs e = ret t \<Longrightarrow> (\<exists>c \<in> set cs. snd c = ret t) \<or> e = ret t"
  by (induction cs) (auto simp: bnd_eq_ret split: if_splits)

lemma cmd_color_runs [simp]: "cmd_color B s \<noteq> ret t"
  by (simp add: cmd_color_def Let_def forever_never_returns)

lemma token_at_fsinit: "token_at i s = ret (tok, t) \<Longrightarrow> fsinit t = fsinit s"
  by (auto simp: token_at_def bnd_eq_ret)

lemma fsinit_m_tty [simp]: "fsinit (m_tty B s) = fsinit s"
  by (simp add: m_tty_def Let_def)

lemma cmd_le_fsinit: "cmd_le B s = ret t \<Longrightarrow> fsinit t = fsinit s"
proof -
  assume "cmd_le B s = ret t"
  then obtain u where u: "say B (lit ''%n'') s = ret u"
    "each (\<lambda>e s. bnd (printf B (lit ''%s | '') [event_arg e] s) (\<lambda>(_, s). ret s)) (eventlog u) u = ret t"
    by (auto simp: cmd_le_def bnd_eq_ret)
  have "tty.more t = tty.more u"
    by (rule each_more [OF _ u(2)]) (auto simp: bnd_eq_ret dest: printf_more)
  then show ?thesis using say_more [OF u(1)] fs_flag.extension [of t s] by simp
qed

lemma cmd_help_fsinit: "cmd_help B s = ret t \<Longrightarrow> fsinit t = fsinit s"
proof -
  assume "cmd_help B s = ret t"
  then obtain u where u: "each (say B) [lit ''PotatoOS '', version, lit ''.'', subversion] (terminal_newline s) = ret u"
    "each (\<lambda>line s. say B (lit line) (terminal_newline s)) help_lines (terminal_newline u) = ret t"
    by (auto simp: cmd_help_def bnd_eq_ret simp del: each.simps)
  have "tty.more u = tty.more (terminal_newline s)"
    by (rule each_more [OF _ u(1)]) (rule say_more)
  moreover have "tty.more t = tty.more (terminal_newline u)"
    by (rule each_more [OF _ u(2)]) (auto dest: say_more)
  ultimately show ?thesis using fs_flag.extension [of t s] by simp
qed

lemma cmd_unknown_fsinit: "cmd_unknown B s = ret t \<Longrightarrow> fsinit t = fsinit s"
  by (rule fs_flag.extension) (auto simp: cmd_unknown_def bnd_eq_ret dest!: say_more)

lemma cmd_echo_fsinit: "cmd_echo B s = ret t \<Longrightarrow> fsinit t = fsinit s"
  by (auto simp: cmd_echo_def bnd_eq_ret Let_def split: option.splits dest!: token_at_fsinit)

lemma cmd_un_fsinit: "cmd_un B s = ret t \<Longrightarrow> fsinit t = fsinit s"
  by (auto simp: cmd_un_def bnd_eq_ret Let_def dest!: token_at_fsinit)

lemma cmd_ppm_fsinit [simp]: "fsinit (cmd_ppm B s) = fsinit s"
  by (simp add: cmd_ppm_def)

lemma cmd_fatinit_fsinit [simp]: "\<not> fsinit (cmd_fatinit B s)"
  by (simp add: cmd_fatinit_def mainfat_def Let_def)

lemma cmd_ls_panics: "\<not> fsinit s \<Longrightarrow> cmd_ls B shr s = None"
  by (simp add: cmd_ls_def Let_def)

lemma run_command_fsinit:
  assumes "run_command B shr s = ret t" "\<not> fsinit s"
  shows "\<not> fsinit t"
  using select_ret [OF assms(1) [unfolded run_command_def]] assms(2) cmd_ls_panics [OF assms(2), of B shr]
  by (auto dest: cmd_le_fsinit cmd_help_fsinit cmd_unknown_fsinit cmd_echo_fsinit cmd_un_fsinit split: if_splits)

lemma handle_fsinit:
  assumes "handle_keyboard_input B shr s = ret t" "\<not> fsinit s"
  shows "\<not> fsinit t"
proof -
  obtain k u where r: "read_keyboard B s = ret (k, u)"
    using assms(1) by (auto simp: handle_keyboard_input_def bnd_eq_ret)
  obtain d where u: "u = s\<lparr>dev := d\<rparr>" using read_keyboard_frame [OF r] by blast
  have ret: "\<not> fsinit t" if "handle_return B shr v = ret t" "\<not> fsinit v" for v
    using that run_command_fsinit [of B shr v] by (auto simp: handle_return_def prompt_def bnd_eq_ret Let_def)
  have ins: "\<not> fsinit t" if "insert_key B j v = ret t" "\<not> fsinit v" for j v
    using that by (auto simp: insert_key_def bnd_eq_ret split: if_splits)
  have bs: "\<not> fsinit t" if "handle_backspace B v = ret t" "\<not> fsinit v" for v
    using that by (auto simp: handle_backspace_def bnd_eq_ret Let_def split: if_splits)
  have col: "fsinit (select_color B v) = fsinit v" for v
    by (simp add: select_color_def Let_def)
  show ?thesis
    using assms r u
    by (auto simp: handle_keyboard_input_def bnd_eq_ret Let_def col split: if_splits dest: ret ins bs)
qed

text \<open>The states the shell goes through, one key after the other.\<close>

inductive shell_reach :: "'d bus \<Rightarrow> (u32 \<Rightarrow> u32) \<Rightarrow> ('d, 'z) kern_scheme \<Rightarrow> ('d, 'z) kern_scheme \<Rightarrow> bool"
  for B :: "'d bus" and shr :: "u32 \<Rightarrow> u32" and s :: "('d, 'z) kern_scheme" where
  reach_start: "shell_reach B shr s s"
| reach_key: "shell_reach B shr s t \<Longrightarrow> \<not> exitHKIloop t \<Longrightarrow> handle_keyboard_input B shr t = ret u
    \<Longrightarrow> shell_reach B shr s u"

lemma reach_fsinit:
  assumes "shell_reach B shr s t" "\<not> fsinit s"
  shows "\<not> fsinit t"
  using assms by induction (auto dest: handle_fsinit)

text \<open>The two first characters of the line decide these lines.\<close>

lemma two_characters:
  assumes "take 2 buf = [a, b]" "length buf = 256"
  shows "\<exists>r. buf[2 := 0] = a # b # 0 # r"
proof -
  obtain c r where "buf = a # b # c # r"
    using assms by (cases buf; cases "tl buf"; cases "tl (tl buf)") (auto simp: numeral_2_eq_2)
  then show ?thesis by simp
qed

lemma handle_line:
  assumes r: "read_keyboard B s = ret (10, u)" and b: "take 2 (input_buffer s) = [a, b]"
    "length (input_buffer s) = 256" "input_buffer_index s = 2"
  obtains v rest where "handle_keyboard_input B shr s = handle_return B shr v" "input_buffer v = a # b # 0 # rest"
    "input_buffer_index v = 2" "fsinit v = fsinit s"
proof -
  obtain d where u: "u = s\<lparr>dev := d\<rparr>" using read_keyboard_frame [OF r] by blast
  obtain rest where rest: "(input_buffer s)[2 := 0] = a # b # 0 # rest" using two_characters [OF b(1,2)] by blast
  have "handle_keyboard_input B shr s = handle_return B shr (s\<lparr>dev := d, input_buffer := a # b # 0 # rest\<rparr>)"
    using r b rest by (simp add: handle_keyboard_input_def u aput_ret Let_def)
  then show thesis using that b(3) by simp
qed

lemma run_ls:
  assumes "input_buffer v = 108 # 115 # 0 # rest" "\<not> fsinit v"
  shows "run_command B shr v = None"
  using assms by (simp add: run_command_def is_cmd_def cstr_def lit_def cmd_ls_panics)

lemma run_percent_s:
  assumes "input_buffer v = 37 # 115 # 0 # rest" "input_buffer_index v = 2"
  shows "run_command B shr v = stuck BadVararg"
proof -
  have q: "say B [39] t = ret (terminal_putchar B 39 t)" for t
    by (simp add: say_def printf_plain INT_MAX_def terminal_write_def)
  have p: "say B [37, 115] t = stuck BadVararg" for t
    by (simp add: say_def printf_def printf_loop.simps [of B "[37, 115]"])
  have n: "a \<noteq> b \<Longrightarrow> 0 < n \<Longrightarrow> strncmp_tty (a # x) (b # y) n = ret (uint a - uint b)" for a b x y n
    by (cases n) auto
  have "cmd_unknown B v = stuck BadVararg"
    using assms(1) by (simp add: cmd_unknown_def q p)
  then show ?thesis
    using assms by (simp add: run_command_def is_cmd_def has_prefix_def cstr_def lit_def n)
qed

subsection \<open>A keyboard with keys waiting\<close>

definition keys_bus :: "u8 list bus" where
  "keys_bus = \<lparr>bus_inb = (\<lambda>p d. if p = 0x64 then (if d = [] then 0 else 1, d)
       else if p = 0x60 \<and> d \<noteq> [] then (hd d, tl d) else (0, d)),
     bus_outb = (\<lambda>p v d. d), bus_inw = (\<lambda>p d. (0, d)), bus_outw = (\<lambda>p v d. d)\<rparr>"

lemma length_keyboard_layout [simp]: "length keyboard_layout = 128"
  by (simp add: keyboard_layout_def)

lemma read_keyboard_keys:
  assumes "dev s = k # ks" "k < 128"
  shows "read_keyboard keys_bus s = ret (keyboard_layout ! unat k, s\<lparr>dev := ks\<rparr>)"
proof -
  have "inb_until keys_bus 0x64 (\<lambda>v. v AND 0x01 \<noteq> 0) s = ret (1, s)"
    using assms(1) by (subst inb_until.simps) (simp add: inb_def keys_bus_def)
  moreover have "unat k < 128" using assms(2) by (simp add: word_less_nat_alt)
  moreover have "k AND 0x80 = 0"
  proof (rule bit_word_eqI)
    fix n
    have "drop_bit 7 k = 0"
      using assms(2) by (simp add: drop_bit_eq_div word_unat_eq_iff unat_div word_less_nat_alt)
    then have "\<not> bit (drop_bit 7 k) 0" by simp
    then have "\<not> bit k 7" by (simp add: bit_drop_bit_eq)
    then show "bit (k AND 0x80) n = bit 0 n"
      using bit_exp_iff [of 7 n, where 'a = int] by (auto simp: bit_and_iff)
  qed
  ultimately show ?thesis
    using assms(1) by (simp add: read_keyboard_def inb_def keys_bus_def)
qed

lemma writestring_column:
  "unat (terminal_column s) + length cs < 80 \<Longrightarrow>
     unat (terminal_column (terminal_writestring B cs s)) = unat (terminal_column s) + length cs"
proof (induction cs arbitrary: s)
  case (Cons c cs)
  have "terminal_column s < 80" using Cons.prems by (simp add: word_less_nat_alt)
  then have "unat (terminal_column (terminal_putchar B c s)) = unat (terminal_column s) + 1"
    using putchar_column(1) [of s B c] Cons.prems by simp
  then show ?case
    using Cons.IH [of "terminal_putchar B c s"] Cons.prems by (simp add: terminal_writestring_def terminal_write_def)
qed (simp add: terminal_writestring_def terminal_write_def)

lemma keys_bus_off_video: "off_video keys_bus (\<lambda>d. d)"
  by (simp add: off_video_def keys_bus_def)

lemma keys_dev [simp]:
  "dev (terminal_putchar keys_bus c s) = dev s" "dev (terminal_writestring keys_bus cs s) = dev s"
  "dev (outb keys_bus p v s) = dev s" "dev (update_cursor keys_bus x y s) = dev s"
  "dev (terminal_putentryat keys_bus c k x y s) = dev s"
  using off_video_putchar [OF keys_bus_off_video, of c s] off_video_writestring [OF keys_bus_off_video, of cs s]
  by (simp_all add: outb_def keys_bus_def update_cursor_def terminal_putentryat_def Let_def)

lemma color_key:
  assumes "dev s = 72 # ks" "length (input_buffer s) = 256" "input_buffer_index s = 0"
  shows "\<exists>t. handle_keyboard_input keys_bus shr s = ret t \<and> dev t = ks \<and> length (input_buffer t) = 256
    \<and> input_buffer_index t = 1 \<and> unat (terminal_column t) = 21 \<and> username t = username s"
proof -
  let ?u = "s\<lparr>dev := ks, input_buffer := (input_buffer s)[0 := 0]\<rparr>"
  have k: "read_keyboard keys_bus s = ret (85, s\<lparr>dev := ks\<rparr>)"
    using read_keyboard_keys [of s 72 ks] assms(1) by (simp add: keyboard_layout_def lit_def)
  define v where "v = select_color keys_bus ?u"
  have v: "unat (terminal_column v) = 20" "dev v = ks" "input_buffer v = (input_buffer s)[0 := 0]"
    "input_buffer_index v = 0" "username v = username s"
    using writestring_column [of "(fill_screen (?u\<lparr>terminal_color := vga_entry_color (terminal_row ?u * input_buffer_index ?u) (input_buffer_index ?u),
      terminal_buffer := 0xB8000, terminal_row := 0\<rparr>))\<lparr>terminal_row := 6, terminal_column := 6\<rparr>" "lit ''Select a color''" keys_bus]
    using assms(3) by (simp_all add: v_def select_color_def Let_def)
  have c: "terminal_column v < 80" using v(1) by (simp add: word_less_nat_alt)
  let ?t = "terminal_putchar keys_bus 0 (v\<lparr>input_buffer := (input_buffer v)[0 := 0], input_buffer_index := 1\<rparr>)"
  have "handle_keyboard_input keys_bus shr s = ret ?t"
    using k assms v(3,4) by (simp add: handle_keyboard_input_def aput_ret insert_key_def Let_def v_def)
  moreover have "unat (terminal_column ?t) = 21"
    using putchar_column(1) [of "v\<lparr>input_buffer := (input_buffer v)[0 := 0], input_buffer_index := 1\<rparr>" keys_bus 0] c v(1)
    by simp
  ultimately show ?thesis using v assms(2) by simp
qed

lemma backspace_key:
  assumes "dev s = 14 # ks" "length (input_buffer s) = 256" "unat (input_buffer_index s) < 256" "username s = Static name"
    "length name = 6" "15 < unat (terminal_column s)"
  shows "\<exists>t. handle_keyboard_input keys_bus shr s = ret t \<and> dev t = ks \<and> length (input_buffer t) = 256
    \<and> input_buffer_index t = input_buffer_index s - 1 \<and> unat (terminal_column t) = unat (terminal_column s) - 1
    \<and> username t = username s"
proof -
  have k: "read_keyboard keys_bus s = ret (8, s\<lparr>dev := ks\<rparr>)"
    using read_keyboard_keys [of s 14 ks] assms(1) by (simp add: keyboard_layout_def lit_def)
  have c: "terminal_column s > 15" using assms(6) by (simp add: word_less_nat_alt)
  then have "terminal_column s \<noteq> 0" by auto
  then have "unat (terminal_column s - 1) = unat (terminal_column s) - 1" by (simp add: unat_minus_one)
  then show ?thesis
    using k assms c by (simp add: handle_keyboard_input_def handle_backspace_def name_text_def hostname_def aput_ret
        terminal_putentryat_def Let_def)
qed

text \<open>The state at the first prompt, with keys waiting.\<close>

definition prompt_state :: "'d \<Rightarrow> 'd kern" where
  "prompt_state d = (drives.extend (boot_drives d)
     (kern.fields (replicate 256 0) 0 None (Static (lit ''potato'')) False False 8))\<lparr>terminal_column := 15\<rparr>"

lemma prompt_state_simps [simp]:
  "input_buffer (prompt_state d) = replicate 256 0" "input_buffer_index (prompt_state d) = 0"
  "username (prompt_state d) = Static (lit ''potato'')" "\<not> fsinit (prompt_state d)" "\<not> exitHKIloop (prompt_state d)"
  "terminal_column (prompt_state d) = 15"
  by (simp_all add: prompt_state_def drives.extend_def kern.fields_def)

lemma dev_prompt_state [simp]: "dev (prompt_state d) = d"
  by (simp add: prompt_state_def boot_drives_def boot_paging_def boot_rtc_def boot_tty_def drives.extend_def
      paging.extend_def net.extend_def rtc.extend_def tty.extend_def)

lemma prompt_state_ok: "editor_ok 15 (prompt_state d)"
  by (simp add: editor_ok_def hostname_def)

subsection \<open>Properties\<close>

text \<open>The input line is edited as by the abstract line editor, and editing never faults. After
  any sequence of keys without return and without the colour key, every further such key is
  handled, the buffer holds the line of the abstract editor, and the index stays in the buffer.\<close>

lemma editing_refines_line_editor:
  assumes "editor_ok w s" "edits B shr s ks t" "read_keyboard B t = ret (k, u)" "k \<noteq> 10" "k \<noteq> 85"
  shows "\<exists>v. handle_keyboard_input B shr t = ret v \<and> editor_of v = fold (edit w) (ks @ [k]) (editor_of s)
    \<and> input_buffer_index v \<le> 255"
  using edits_refine [OF assms(2,1)] handle_edit [of w t B k u shr] assms(3-5) by (auto simp: editor_ok_def)

text \<open>C37: the colour key breaks the editor. It moves the cursor without typing as many characters, so
  that two backspaces take the index of an empty line below 0; the key after that writes outside
  the input buffer.\<close>

theorem color_key_underflows_index:
  assumes "dev s = [72, 14, 14, k]" "k < 128" "keyboard_layout ! unat k \<noteq> 0" "length (input_buffer s) = 256"
    "input_buffer_index s = 0" "username s = Static (lit ''potato'')"
  shows "bnd (handle_keyboard_input keys_bus shr s) (\<lambda>s. bnd (handle_keyboard_input keys_bus shr s) (\<lambda>s.
    bnd (handle_keyboard_input keys_bus shr s) (handle_keyboard_input keys_bus shr))) = stuck OutOfBounds"
proof -
  obtain a where a: "handle_keyboard_input keys_bus shr s = ret a" "dev a = [14, 14, k]" "length (input_buffer a) = 256"
    "input_buffer_index a = 1" "unat (terminal_column a) = 21" "username a = Static (lit ''potato'')"
    using color_key [OF assms(1,4,5), of shr] assms(6) by auto
  obtain b where b: "handle_keyboard_input keys_bus shr a = ret b" "dev b = [14, k]" "length (input_buffer b) = 256"
    "input_buffer_index b = 0" "unat (terminal_column b) = 20" "username b = Static (lit ''potato'')"
    using backspace_key [of a "[14, k]" "lit ''potato''" shr] a by auto
  obtain c where c: "handle_keyboard_input keys_bus shr b = ret c" "dev c = [k]" "length (input_buffer c) = 256"
    "input_buffer_index c = - 1"
    using backspace_key [of b "[k]" "lit ''potato''" shr] b by auto
  have "unat (- 1 :: u32) = 4294967295" by (simp add: unsigned_minus_1_eq_mask mask_numeral)
  then have "handle_keyboard_input keys_bus shr c = stuck OutOfBounds"
    using read_keyboard_keys [OF c(2) assms(2)] assms(3) c(3,4) by (simp add: handle_keyboard_input_def aput_def)
  then show ?thesis using a(1) b(1) c(1) by simp
qed

theorem color_key_underflows_index_witness:
  "bnd (handle_keyboard_input keys_bus id (prompt_state [72, 14, 14, 30])) (\<lambda>s.
    bnd (handle_keyboard_input keys_bus id s) (\<lambda>s.
    bnd (handle_keyboard_input keys_bus id s) (handle_keyboard_input keys_bus id))) = stuck OutOfBounds"
  by (rule color_key_underflows_index [of _ 30]) (simp_all add: keyboard_layout_def lit_def)

text \<open>C20: no file system is ever marked as initialised. In every state the shell reaches from a state
  without a file system, whatever the keys and commands were, it still has none, and the command
  \<open>ls\<close> panics: it never returns.\<close>

theorem ls_always_panics:
  assumes "shell_reach B shr s t" "\<not> fsinit s"
    "take 2 (input_buffer t) = lit ''ls''" "length (input_buffer t) = 256" "input_buffer_index t = 2"
    "read_keyboard B t = ret (10, u)"
  shows "\<not> fsinit t \<and> handle_keyboard_input B shr t = None"
proof -
  have f: "\<not> fsinit t" by (rule reach_fsinit [OF assms(1,2)])
  have "take 2 (input_buffer t) = [108, 115]" using assms(3) by (simp add: lit_def)
  then obtain v rest where "handle_keyboard_input B shr t = handle_return B shr v"
    "input_buffer v = 108 # 115 # 0 # rest" "fsinit v = fsinit t"
    using handle_line [OF assms(6) _ assms(4,5), of 108 115 shr] by blast
  then show ?thesis using f run_ls [of v rest B shr] by (simp add: handle_return_def)
qed

theorem ls_always_panics_witness:
  "\<not> fsinit ((prompt_state [28])\<lparr>input_buffer := 108 # 115 # replicate 254 0, input_buffer_index := 2\<rparr>)
   \<and> handle_keyboard_input keys_bus id
       ((prompt_state [28])\<lparr>input_buffer := 108 # 115 # replicate 254 0, input_buffer_index := 2\<rparr>) = None"
proof -
  let ?s = "(prompt_state [28])\<lparr>input_buffer := 108 # 115 # replicate 254 0, input_buffer_index := 2\<rparr>"
  have "read_keyboard keys_bus ?s = ret (10, ?s\<lparr>dev := []\<rparr>)"
    using read_keyboard_keys [of ?s 28 "[]"] by (simp add: keyboard_layout_def lit_def)
  from ls_always_panics [OF reach_start _ _ _ _ this, of id] show ?thesis
    by (simp add: lit_def numeral_2_eq_2)
qed

text \<open>C38: an unknown command is printed as a format. For the line \<open>%s\<close> the output routine takes an
  argument that was not passed.\<close>

theorem unknown_command_is_format:
  assumes "read_keyboard B s = ret (10, u)" "take 2 (input_buffer s) = lit ''%s''"
    "length (input_buffer s) = 256" "input_buffer_index s = 2"
  shows "handle_keyboard_input B shr s = stuck BadVararg"
proof -
  have "take 2 (input_buffer s) = [37, 115]" using assms(2) by (simp add: lit_def)
  then obtain v rest where "handle_keyboard_input B shr s = handle_return B shr v"
    "input_buffer v = 37 # 115 # 0 # rest" "input_buffer_index v = 2"
    using handle_line [OF assms(1) _ assms(3,4), of 37 115 shr] by blast
  then show ?thesis using run_percent_s [of v rest B shr] by (simp add: handle_return_def)
qed

theorem unknown_command_is_format_witness:
  "handle_keyboard_input keys_bus id
     ((prompt_state [28])\<lparr>input_buffer := 37 # 115 # replicate 254 0, input_buffer_index := 2\<rparr>) = stuck BadVararg"
proof -
  let ?s = "(prompt_state [28])\<lparr>input_buffer := 37 # 115 # replicate 254 0, input_buffer_index := 2\<rparr>"
  have "read_keyboard keys_bus ?s = ret (10, ?s\<lparr>dev := []\<rparr>)"
    using read_keyboard_keys [of ?s 28 "[]"] by (simp add: keyboard_layout_def lit_def)
  from unknown_command_is_format [OF this, of id] show ?thesis
    by (simp add: lit_def numeral_2_eq_2)
qed

end
