(* ===== verification/Session.thy ===== *)
theory Session
  imports Shell
begin

section \<open>Sessions with the shell\<close>

text \<open>
  The shell of \<^verbatim>\<open>kernel/arch/i386/tty.c\<close> as its user sees it: an interpreter on the line typed so far
  and the console. A key edits the line and shows on the console; the return key lets the
  command of the line answer, and a new prompt appears. The interpreter has no step for the
  commands that use a device or leave the shell, and for those that fault; wherever it has one, the
  shell does the same step.
\<close>

subsection \<open>The interpreter\<close>

definition console_text :: "u8 list \<Rightarrow> console \<Rightarrow> console" where
  "console_text = fold console_put"

text \<open>A text on a line of its own.\<close>

definition console_line :: "u8 list \<Rightarrow> console \<Rightarrow> console" where
  "console_line cs c = console_text cs (console_newline c)"

text \<open>A backspace: the cell before the cursor becomes blank.\<close>

definition console_erase :: "console \<Rightarrow> console" where
  "console_erase c = c\<lparr>cursor := cursor c - 1, cells := (cells c)[cursor c - 1 := vga_entry 0x20 (attr c)]\<rparr>"

definition prompt_text :: "u8 list \<Rightarrow> u8 list" where
  "prompt_text name = name @ lit ''@'' @ hostname @ lit '' /> ''"

text \<open>The first word of the text behind \<open>echo\<close>.\<close>

definition first_word :: "u8 list \<Rightarrow> u8 list" where
  "first_word cs = takeWhile (\<lambda>c. c \<noteq> 0x20) (dropWhile (\<lambda>c. c = 0x20) cs)"

definition help_text :: "console \<Rightarrow> console" where
  "help_text c = fold (\<lambda>line. console_line (lit line)) help_lines
     (console_newline (console_line (lit ''PotatoOS '' @ version @ lit ''.'' @ subversion) c))"

definition ppm_lines :: "string list" where
  "ppm_lines = [''PotatoOS Package Manager'', ''Usage ppm [install][remove][update] [package name]'', ''This is a placeholder.'']"

definition outside :: "u8 list \<Rightarrow> bool" where
  "outside line \<longleftrightarrow> line \<in> lit ` {''ls'', ''le'', ''m'', ''exit'', ''reboot'', ''fatinit'', ''shutdown'', ''color''}
     \<or> take 2 line = lit ''un''"

definition respond :: "u8 list \<Rightarrow> console \<Rightarrow> console option" where
  "respond line c =
     (if outside line then None
      else if take 5 line = lit ''echo '' then
        (if first_word (drop 5 line) = [] then None else Some (console_line (first_word (drop 5 line)) c))
      else if line = lit ''ppm'' then Some (fold (\<lambda>line. console_line (lit line)) ppm_lines c)
      else if line = lit ''help'' then Some (help_text c)
      else if line = lit ''clear'' then Some (console_scroll c)
      else if line = [] \<or> line = lit ''panic'' \<or> line = lit ''g'' \<or> line = lit ''waitwrite'' then Some c
      else if 37 \<in> set line then None
      else Some (console_line ([39] @ line @ [39] @ lit '' unknown command or file name.'') c))"

definition key_step :: "u8 list \<Rightarrow> u8 \<Rightarrow> u8 list \<times> console \<Rightarrow> (u8 list \<times> console) option" where
  "key_step name k = (\<lambda>(line, c).
     if k = 0 then Some (line, c)
     else if k = 8 then
       Some (if length (prompt_text name) < cursor c mod 80 then (butlast line, console_erase c) else (line, c))
     else if k = 85 then None
     else if k = 10 then map_option (\<lambda>c. ([], console_line (prompt_text name) c)) (respond line c)
     else Some (if length line < 255 then (line @ [k], console_put k c) else (line, c)))"

primrec key_steps :: "u8 list \<Rightarrow> u8 list \<Rightarrow> u8 list \<times> console \<Rightarrow> (u8 list \<times> console) option" where
  "key_steps name [] x = Some x"
| "key_steps name (k # ks) x = Option.bind (key_step name k x) (key_steps name ks)"

text \<open>What the state of the kernel is in the interpreter, and the invariant of a session.\<close>

definition session_of :: "('d, 'z) kern_scheme \<Rightarrow> u8 list \<times> console" where
  "session_of s = (take (unat (input_buffer_index s)) (input_buffer s), console_of s)"

definition session_ok :: "u8 list \<Rightarrow> ('d, 'z) kern_scheme \<Rightarrow> bool" where
  "session_ok name s \<longleftrightarrow> tty_ok s \<and> editor_ok (length (prompt_text name)) s \<and> username s = Static name
     \<and> 0 \<notin> set (fst (session_of s)) \<and> \<not> exitHKIloop s"

subsection \<open>Output of the commands\<close>

text \<open>
  A command answers with \<open>c\<close>: the console is \<open>c\<close> then, and what the shell itself needs is kept.
\<close>

definition answers :: "('d, 'z) kern_scheme \<Rightarrow> ('d, 'z) kern_scheme \<Rightarrow> console \<Rightarrow> bool" where
  "answers s t c \<longleftrightarrow> tty_ok t \<and> console_of t = c \<and> username t = username s \<and> exitHKIloop t = exitHKIloop s
     \<and> length (input_buffer t) = length (input_buffer s)"

lemma answers_more:
  "tty_ok t \<Longrightarrow> console_of t = c \<Longrightarrow> tty.more t = tty.more s \<Longrightarrow> answers s t c"
  using kern_more [of t s] by (simp add: answers_def)

lemma answers_ret:
  "m = ret t \<Longrightarrow> tty_ok t \<Longrightarrow> console_of t = c \<Longrightarrow> tty.more t = tty.more s \<Longrightarrow> \<exists>t. m = ret t \<and> answers s t c"
  using answers_more by blast

lemma console_of_dev [simp]: "console_of (s\<lparr>dev := d\<rparr>) = console_of s" "console_of (outb B p v s) = console_of s"
  by (simp_all add: console_of_def cell_def outb_def)

lemma console_of_kern [simp]:
  "console_of (s\<lparr>input_buffer := b\<rparr>) = console_of s" "console_of (s\<lparr>input_buffer_index := i\<rparr>) = console_of s"
  "console_of (s\<lparr>strtok_last := l\<rparr>) = console_of s" "console_of (s\<lparr>fsinit := f\<rparr>) = console_of s"
  "console_of (s\<lparr>waitwrite := w\<rparr>) = console_of s"
  by (simp_all add: console_of_def cell_def)

lemma tty_ok_kern [simp]:
  "tty_ok (s\<lparr>input_buffer := b\<rparr>) = tty_ok s" "tty_ok (s\<lparr>input_buffer_index := i\<rparr>) = tty_ok s"
  "tty_ok (s\<lparr>strtok_last := l\<rparr>) = tty_ok s" "tty_ok (s\<lparr>fsinit := f\<rparr>) = tty_ok s"
  "tty_ok (s\<lparr>waitwrite := w\<rparr>) = tty_ok s" "tty_ok (s\<lparr>dev := d\<rparr>) = tty_ok s"
  by (simp_all add: tty_ok_def)

lemma tty_ok_outb [simp]: "tty_ok (outb B p v s) = tty_ok s"
  by (simp add: tty_ok_def)

lemma line_shown:
  assumes "tty_ok s"
  shows "tty_ok (terminal_writestring B cs (terminal_newline s))"
    "console_of (terminal_writestring B cs (terminal_newline s)) = console_line cs (console_of s)"
  using terminal_newline_refines [OF assms] terminal_write_ok [of "terminal_newline s" B cs]
  by (simp_all add: terminal_writestring_def console_line_def console_text_def)

lemma say_plain:
  assumes "37 \<notin> set cs" "length cs < 1000"
  shows "say B cs s = ret (terminal_writestring B cs s)"
proof -
  have "int (length cs) \<le> INT_MAX" using assms(2) by (simp add: INT_MAX_def)
  then show ?thesis using assms(1) by (simp add: say_def printf_plain terminal_writestring_def)
qed

lemma writestrings: "terminal_writestring B ds (terminal_writestring B cs s) = terminal_writestring B (cs @ ds) s"
  by (simp add: terminal_writestring_def terminal_write_def)

lemma lines_shown:
  "tty_ok s \<Longrightarrow> tty_ok (fold (\<lambda>line s. terminal_writestring B (lit line) (terminal_newline s)) ls s)
    \<and> console_of (fold (\<lambda>line s. terminal_writestring B (lit line) (terminal_newline s)) ls s) =
        fold (\<lambda>line. console_line (lit line)) ls (console_of s)
    \<and> tty.more (fold (\<lambda>line s. terminal_writestring B (lit line) (terminal_newline s)) ls s) = tty.more s"
  by (induction ls arbitrary: s) (simp_all add: line_shown)

lemma each_line:
  "list_all (\<lambda>line. 37 \<notin> set (lit line) \<and> length line < 1000) ls \<Longrightarrow>
    each (\<lambda>line s. say B (lit line) (terminal_newline s)) ls s =
      ret (fold (\<lambda>line s. terminal_writestring B (lit line) (terminal_newline s)) ls s)"
  by (induction ls arbitrary: s) (simp_all add: say_plain lit_def)

subsection \<open>Running a line\<close>

text \<open>The tests of the command chain are tests of the line.\<close>

lemma is_cmd_line:
  assumes "terminated (input_buffer s)" "0 \<notin> set (lit name)"
  shows "is_cmd s name = ret (text_of (input_buffer s) = lit name)"
proof -
  have "terminated (cstr name)" "text_of (cstr name) = lit name"
    using assms(2) by (simp_all add: cstr_def terminated_def)
  then show ?thesis using strcmp_ret [OF assms(1), of "cstr name"] by (auto simp: is_cmd_def)
qed

lemma has_prefix_line:
  assumes "terminated (input_buffer s)" "0 \<notin> set (lit name)"
  shows "has_prefix s name n = ret (take n (text_of (input_buffer s)) = take n (lit name))"
proof -
  have "terminated (cstr name)" "text_of (cstr name) = lit name"
    using assms(2) by (simp_all add: cstr_def terminated_def)
  then obtain r where r: "strncmp (input_buffer s) (cstr name) n = ret r"
    "r = 0 \<longleftrightarrow> take n (text_of (input_buffer s)) = take n (lit name)"
    using strncmp_ret [OF assms(1), of "cstr name" n] by auto
  then obtain q where "strncmp_tty (input_buffer s) (cstr name) n = ret q" "r = sgn q"
    by (auto simp: strncmp_tty_sgn bnd_eq_ret)
  then show ?thesis using r(2) by (simp add: has_prefix_def sgn_eq_0_iff)
qed

lemma run_line:
  assumes "terminated (input_buffer s)" "text_of (input_buffer s) = line"
  shows "run_command B shr s =
    (if line = lit ''ls'' then cmd_ls B shr s else if line = lit ''le'' then cmd_le B s
     else if take 5 line = lit ''echo '' then cmd_echo B s
     else if line = lit ''m'' then ret (m_tty B s) else if line = lit ''ppm'' then ret (cmd_ppm B s)
     else if line = lit ''help'' then cmd_help B s else if line = lit ''clear'' then ret (terminal_initialize s)
     else if line = lit ''exit'' then ret (s\<lparr>exitHKIloop := True\<rparr>)
     else if line = lit ''panic'' then ret (s\<lparr>fsinit := False\<rparr>)
     else if line = lit ''reboot'' then reboot B s
     else if line = lit ''g'' then ret (outb B 0x3D5 0x02 (outb B 0x3D4 0x0A s))
     else if line = lit ''fatinit'' then ret (cmd_fatinit B s)
     else if line = lit ''waitwrite'' then ret (s\<lparr>waitwrite := True\<rparr>)
     else if line = lit ''shutdown'' then shutdown B shr s else if take 2 line = lit ''un'' then cmd_un B s
     else if line = lit ''color'' then cmd_color B s
     else if input_buffer_index s \<noteq> 0 then cmd_unknown B s else ret s)"
proof -
  have c: "is_cmd s name = ret (line = lit name)" "has_prefix s name n = ret (take n line = take n (lit name))"
    if "0 \<notin> set (lit name)" for name n
    using is_cmd_line [OF assms(1) that] has_prefix_line [OF assms(1) that] assms(2) by simp_all
  have p: "take 5 (lit ''echo '') = lit ''echo ''" "take 2 (lit ''un '') = lit ''un''" by (simp_all add: lit_def)
  have z: "0 \<notin> set (lit ''ls'')" "0 \<notin> set (lit ''le'')" "0 \<notin> set (lit ''echo '')" "0 \<notin> set (lit ''m'')"
    "0 \<notin> set (lit ''ppm'')" "0 \<notin> set (lit ''help'')" "0 \<notin> set (lit ''clear'')" "0 \<notin> set (lit ''exit'')"
    "0 \<notin> set (lit ''panic'')" "0 \<notin> set (lit ''reboot'')" "0 \<notin> set (lit ''g'')" "0 \<notin> set (lit ''fatinit'')"
    "0 \<notin> set (lit ''waitwrite'')" "0 \<notin> set (lit ''shutdown'')" "0 \<notin> set (lit ''un '')" "0 \<notin> set (lit ''color'')"
    by (simp_all add: lit_def)
  show ?thesis
    unfolding run_command_def select.simps fst_conv snd_conv c(1) [OF z(1)] c(1) [OF z(2)] c(2) [OF z(3)] c(1) [OF z(4)]
      c(1) [OF z(5)] c(1) [OF z(6)] c(1) [OF z(7)] c(1) [OF z(8)] c(1) [OF z(9)] c(1) [OF z(10)] c(1) [OF z(11)]
      c(1) [OF z(12)] c(1) [OF z(13)] c(1) [OF z(14)] c(2) [OF z(15)] c(1) [OF z(16)] bnd_ret p ..
qed

text \<open>The token that \<open>echo\<close> prints.\<close>

lemma space_text [simp]: "text_of (cstr '' '') = [0x20]" "terminated (cstr '' '')"
  by (simp_all add: cstr_def lit_def terminated_def)

lemma after_spaces:
  "terminated xs \<Longrightarrow> terminated (drop (length (delimiters (cstr '' '') xs)) xs)
    \<and> text_of (drop (length (delimiters (cstr '' '') xs)) xs) = dropWhile (\<lambda>c. c = 0x20) (text_of xs)"
  by (induction xs) (auto simp: terminated_Cons)

lemma token_text: "token (cstr '' '') xs = takeWhile (\<lambda>c. c \<noteq> 0x20) (text_of xs)"
  by (induction xs) auto

lemma echo_token:
  assumes buf: "terminated (input_buffer s)" "take 5 (text_of (input_buffer s)) = lit ''echo ''"
    and w: "first_word (drop 5 (text_of (input_buffer s))) = w" "w \<noteq> []"
  obtains k l b where "token_at 5 s = ret (Some k, s\<lparr>input_buffer := b, strtok_last := l\<rparr>)"
    "length b = length (input_buffer s)" "contents (drop k b) = ret w"
proof -
  let ?buf = "input_buffer s" and ?d = "cstr '' ''"
  obtain r where r: "?buf = text_of ?buf @ 0 # r"
    using split_list_first [of 0 ?buf] buf(1) by (auto simp: terminated_def)
  have five: "5 \<le> length (text_of ?buf)" using arg_cong [OF buf(2), of length] by (simp add: lit_def)
  have d5: "drop 5 ?buf = drop 5 (text_of ?buf) @ 0 # r" by (subst r) (simp add: five)
  have nz: "0 \<notin> set (text_of ?buf)" by (auto dest: set_takeWhileD)
  then have "0 \<notin> set (drop 5 (text_of ?buf))" by (meson in_set_dropD)
  then have t5: "terminated (drop 5 ?buf)" "text_of (drop 5 ?buf) = drop 5 (text_of ?buf)"
    by (simp_all add: d5 terminated_def)
  define k where "k = 5 + length (delimiters ?d (drop 5 ?buf))"
  have k: "terminated (drop k ?buf)" "text_of (drop k ?buf) = dropWhile (\<lambda>c. c = 0x20) (drop 5 (text_of ?buf))"
    using after_spaces [OF t5(1)] t5(2) by (simp_all add: k_def add.commute)
  have tok: "token ?d (drop k ?buf) = w" using w(1) unfolding first_word_def token_text k(2) .
  define ys where "ys = dropWhile (\<lambda>c. c \<noteq> 0 \<and> c \<notin> set (text_of ?d)) (drop k ?buf)"
  have split: "drop k ?buf = w @ ys" 
    using takeWhile_dropWhile_id [of "\<lambda>c. c \<noteq> 0 \<and> c \<notin> set (text_of ?d)" "drop k ?buf"] unfolding tok ys_def [symmetric]
    by (rule sym)
  have "0 \<notin> set w" unfolding tok [symmetric] by (auto dest: set_takeWhileD)
  then obtain y zs where y: "ys = y # zs"
    using k(1) split by (cases ys) (auto simp: terminated_def)
  have kw: "k + length w < length ?buf" using arg_cong [OF split, of length] y by simp
  have nth: "?buf ! (k + i) = (w @ ys) ! i" for i
    unfolding split [symmetric] using kw by (intro nth_drop [symmetric]) simp
  have at: "?buf ! k = hd w" "?buf ! (k + length w) = y"
    using nth [of 0] nth [of "length w"] y w(2) by (simp_all add: hd_conv_nth nth_append)
  have "hd w \<noteq> 0" using \<open>0 \<notin> set w\<close> w(2) hd_in_set by metis
  then have str: "strtok ?buf (Some 5) (strtok_last s) ?d =
      (if y = 0 then ret (Some k, None, ?buf) else ret (Some k, Some (k + length w + 1), ?buf[k + length w := 0]))"
    using strtok_ret [OF space_text(2) t5(1), of "strtok_last s"] at
    unfolding Let_def k_def [symmetric] tok by simp
  have c: "contents (w @ 0 # zs) = ret w"
    using contents_ret [of "w @ 0 # zs"] \<open>0 \<notin> set w\<close> by (simp add: terminated_def)
  have cut: "drop k (?buf[k + length w := 0]) = w @ 0 # zs"
    unfolding drop_update_swap [OF le_add1] split y by simp
  show thesis
  proof (cases "y = 0")
    case True
    show ?thesis
      by (rule that [of k None ?buf]) (simp_all add: token_at_def str True split y c)
  next
    case False
    show ?thesis
      by (rule that [of k "Some (k + length w + 1)" "?buf[k + length w := 0]"])
        (simp_all add: token_at_def str False cut c)
  qed
qed

text \<open>What each command of the interpreter answers.\<close>

lemma echo_answers:
  assumes "tty_ok s" "terminated (input_buffer s)" "take 5 (text_of (input_buffer s)) = lit ''echo ''"
    and "first_word (drop 5 (text_of (input_buffer s))) = w" "w \<noteq> []"
  shows "\<exists>t. cmd_echo B s = ret t \<and> answers s t (console_line w (console_of s))"
proof -
  obtain k l b where t: "token_at 5 s = ret (Some k, s\<lparr>input_buffer := b, strtok_last := l\<rparr>)"
    "length b = length (input_buffer s)" "contents (drop k b) = ret w"
    using echo_token [OF assms(2-5)] .
  let ?u = "s\<lparr>input_buffer := b, strtok_last := l\<rparr>"
  have "cmd_echo B s = ret (terminal_writestring B w (terminal_newline ?u))"
    using t(1,3) by (simp add: cmd_echo_def)
  moreover have "answers s (terminal_writestring B w (terminal_newline ?u)) (console_line w (console_of s))"
    using line_shown [of ?u B w] assms(1) t(2) by (simp add: answers_def)
  ultimately show ?thesis by blast
qed

lemma help_answers:
  assumes "tty_ok s"
  shows "\<exists>t. cmd_help B s = ret t \<and> answers s t (help_text (console_of s))"
proof -
  let ?v = "lit ''PotatoOS '' @ version @ lit ''.'' @ subversion"
  let ?u = "terminal_newline (terminal_writestring B ?v (terminal_newline s))"
  have say: "each (say B) [lit ''PotatoOS '', version, lit ''.'', subversion] u = ret (terminal_writestring B ?v u)" for u
    by (simp add: say_plain writestrings version_def subversion_def lit_def)
  have lines: "list_all (\<lambda>line. 37 \<notin> set (lit line) \<and> length line < 1000) help_lines"
    by (simp add: help_lines_def lit_def)
  have u: "tty_ok ?u" "console_of ?u = console_newline (console_line ?v (console_of s))"
    using line_shown [OF assms, of B ?v] terminal_newline_refines(1,2) [of "terminal_writestring B ?v (terminal_newline s)"]
    by simp_all
  have eq: "cmd_help B s = ret (fold (\<lambda>line s. terminal_writestring B (lit line) (terminal_newline s)) help_lines ?u)"
    unfolding cmd_help_def say bnd_ret each_line [OF lines] ..
  show ?thesis
    by (rule answers_ret [OF eq]) (use lines_shown [OF u(1), of B help_lines] u(2) in \<open>simp_all add: help_text_def\<close>)
qed

lemma ppm_answers:
  "tty_ok s \<Longrightarrow> answers s (cmd_ppm B s) (fold (\<lambda>line. console_line (lit line)) ppm_lines (console_of s))"
  using lines_shown [of s B ppm_lines] unfolding cmd_ppm_def ppm_lines_def by (intro answers_more) simp_all

lemma unknown_answers:
  assumes "tty_ok s" "terminated (input_buffer s)" "text_of (input_buffer s) = line" "37 \<notin> set line" "length line < 900"
  shows "\<exists>t. cmd_unknown B s = ret t
    \<and> answers s t (console_line ([39] @ line @ [39] @ lit '' unknown command or file name.'') (console_of s))"
proof -
  let ?m = "lit '' unknown command or file name.''"
  have buf: "input_buffer (terminal_writestring B [39] (terminal_newline s)) = input_buffer s" by simp
  have "37 \<notin> set ?m" by (simp add: lit_def)
  then have eq: "cmd_unknown B s = ret (terminal_writestring B ([39] @ line @ [39] @ ?m) (terminal_newline s))"
    using assms(3-5) contents_ret [OF assms(2)]
    by (simp add: cmd_unknown_def say_plain writestrings)
  show ?thesis
    by (rule answers_ret [OF eq]) (use line_shown [OF assms(1), of B "[39] @ line @ [39] @ ?m"] in simp_all)
qed

lemma clear_answers: "tty_ok s \<Longrightarrow> answers s (terminal_initialize s) (console_scroll (console_of s))"
  using console_scroll_refines [of s] by (intro answers_more) (simp_all add: terminal_scroll_def)

lemma run_answers:
  assumes s: "tty_ok s" "terminated (input_buffer s)" "text_of (input_buffer s) = line" "length line < 256"
    and i: "unat (input_buffer_index s) = length line" and c: "respond line (console_of s) = Some c"
  shows "\<exists>t. run_command B shr s = ret t \<and> answers s t c"
proof -
  note run = run_line [OF s(2,3), of B shr]
  have out: "\<not> outside line" using c by (auto simp: respond_def split: if_splits)
  then have other: "line \<noteq> lit ''ls''" "line \<noteq> lit ''le''" "line \<noteq> lit ''m''" "line \<noteq> lit ''exit''"
    "line \<noteq> lit ''reboot''" "line \<noteq> lit ''fatinit''" "line \<noteq> lit ''shutdown''" "line \<noteq> lit ''color''"
    "take 2 line \<noteq> lit ''un''"
    by (auto simp: outside_def)
  note c' = c [unfolded respond_def, simplified out if_False]
  show ?thesis
  proof (cases "take 5 line = lit ''echo ''")
    case True
    then have "first_word (drop 5 line) \<noteq> []" "c = console_line (first_word (drop 5 line)) (console_of s)"
      using c' by (auto split: if_splits)
    then show ?thesis
      using run True other echo_answers [OF s(1,2), of "first_word (drop 5 line)" B] s(3) by simp
  next
    case False
    consider (ppm) "line = lit ''ppm''" | (usage) "line = lit ''help''" | (clear) "line = lit ''clear''"
      | (quiet) "line = [] \<or> line = lit ''panic'' \<or> line = lit ''g'' \<or> line = lit ''waitwrite''"
      | (unknown) "line \<noteq> lit ''ppm''" "line \<noteq> lit ''help''" "line \<noteq> lit ''clear''" "line \<noteq> []"
          "line \<noteq> lit ''panic''" "line \<noteq> lit ''g''" "line \<noteq> lit ''waitwrite''" by blast
    then show ?thesis
    proof cases
      case ppm
      then show ?thesis using run c' ppm_answers [OF s(1)] by (auto simp: lit_def)
    next
      case usage
      then show ?thesis using run c' help_answers [OF s(1), of B] by (auto simp: lit_def)
    next
      case clear
      then show ?thesis using run c' clear_answers [OF s(1)] by (auto simp: lit_def)
    next
      case quiet
      then have "c = console_of s" using c' by (auto simp: lit_def)
      moreover have "line = [] \<Longrightarrow> input_buffer_index s = 0" using i by (simp add: unat_eq_zero)
      ultimately show ?thesis using quiet run s(1) by (auto simp: lit_def answers_def)
    next
      case unknown
      then have u: "37 \<notin> set line" "c = console_line ([39] @ line @ [39] @ lit '' unknown command or file name.'') (console_of s)"
        using c' False by (auto split: if_splits)
      have "input_buffer_index s \<noteq> 0" using i unknown(4) by auto
      then show ?thesis
        using run unknown other False unknown_answers [OF s(1-3) u(1), of B] s(4) u(2) by simp
    qed
  qed
qed

lemma prompt_shown:
  assumes "tty_ok s" "username s = Static name"
  shows "prompt B s = ret (terminal_writestring B (prompt_text name) (terminal_newline s))"
  using assms by (simp add: prompt_def name_text_def writestrings prompt_text_def)

subsection \<open>One key\<close>

lemma length_prompt_text: "length (prompt_text name) = length name + length hostname + 5"
  by (simp add: prompt_text_def lit_def)

lemma cursor_column: "tty_ok s \<Longrightarrow> cursor (console_of s) mod 80 = unat (terminal_column s)"
  using tty_okD(2) [of s] by (simp add: console_of_def)

lemma backspace_erases:
  fixes s :: "('d, 'z) kern_scheme" and B :: "'d bus"
  assumes ok: "tty_ok s" and c: "0 < unat (terminal_column s)"
  defines "u \<equiv> s\<lparr>terminal_column := terminal_column s - 1, input_buffer_index := input_buffer_index s - 1\<rparr>"
  defines "t \<equiv> update_cursor B (terminal_column u) (terminal_row u)
     (terminal_putentryat B 0x20 (terminal_color u) (terminal_column u) (terminal_row u) u)"
  shows "tty_ok t" "console_of t = console_erase (console_of s)"
proof -
  note d = tty_okD [OF ok]
  let ?p = "unat (terminal_row s) * 80 + unat (terminal_column s) - 1"
  have "terminal_column s \<noteq> 0" using c by auto
  then have m: "unat (terminal_column s - 1) = unat (terminal_column s) - 1" by (simp add: unat_minus_one)
  have p: "?p < 2000" "terminal_buffer s = VGA_MEMORY" using d(1,2) ok by (auto simp: tty_ok_def)
  have u: "tty_ok u" using ok m d(2) by (simp add: u_def tty_ok_def word_less_nat_alt)
  have at: "terminal_row u * of_nat VGA_WIDTH + terminal_column u = of_nat ?p"
    using tty_okD(3) [OF u] m c by (simp add: u_def)
  have t: "t = update_cursor B (terminal_column u) (terminal_row u) (update_cursor B (terminal_column u + 1) (terminal_row u)
      (put_cell (of_nat ?p) (vga_entry 0x20 (terminal_color u)) u))"
    by (simp add: t_def terminal_putentryat_def at)
  have "cell u = cell s" by (simp add: u_def cell_def fun_eq_iff)
  then have "map (cell t) [0..<2000] = (map (cell s) [0..<2000])[?p := vga_entry 0x20 (terminal_color s)]"
    using p unfolding t by (auto simp: list_eq_iff_nth_eq nth_list_update put_cell_cell u_def)
  then show "console_of t = console_erase (console_of s)"
    using m c by (simp add: console_of_def console_erase_def t u_def)
  show "tty_ok t" using u by (simp add: t tty_ok_def)
qed

lemma session_line:
  assumes "session_ok name s"
  obtains r where "(input_buffer s)[unat (input_buffer_index s) := 0] = fst (session_of s) @ 0 # r"
    "length (fst (session_of s)) = unat (input_buffer_index s)" "unat (input_buffer_index s) \<le> 255" "0 \<notin> set (fst (session_of s))"
proof -
  have i: "unat (input_buffer_index s) \<le> 255" "length (input_buffer s) = 256" "0 \<notin> set (fst (session_of s))"
    using assms by (simp_all add: session_ok_def editor_ok_def word_le_nat_alt)
  then have "(input_buffer s)[unat (input_buffer_index s) := 0] =
      take (unat (input_buffer_index s)) (input_buffer s) @ 0 # drop (Suc (unat (input_buffer_index s))) (input_buffer s)"
    by (intro upd_conv_take_nth_drop) simp
  then show ?thesis using that i by (simp add: session_of_def)
qed

lemma return_key:
  fixes s :: "('d, 'z) kern_scheme"
  assumes ok: "session_ok name s" and r: "read_keyboard B s = ret (10, u)"
    and c: "respond (fst (session_of s)) (console_of s) = Some c"
  shows "\<exists>t. handle_keyboard_input B shr s = ret t \<and> session_ok name t
    \<and> session_of t = ([], console_line (prompt_text name) c)"
proof -
  obtain d where u: "u = s\<lparr>dev := d\<rparr>" using read_keyboard_frame [OF r] by blast
  let ?line = "fst (session_of s)"
  obtain rest where line: "(input_buffer s)[unat (input_buffer_index s) := 0] = ?line @ 0 # rest"
    "length ?line = unat (input_buffer_index s)" "unat (input_buffer_index s) \<le> 255" "0 \<notin> set ?line"
    using session_line [OF ok] .
  have s: "tty_ok s" "username s = Static name" "\<not> exitHKIloop s" "length (input_buffer s) = 256" "length (prompt_text name) < 80"
    using ok by (simp_all add: session_ok_def editor_ok_def)
  let ?v = "s\<lparr>dev := d, input_buffer := ?line @ 0 # rest\<rparr>"
  have h: "handle_keyboard_input B shr s = handle_return B shr ?v"
    using r line(1,3) s(4) by (simp add: handle_keyboard_input_def u aput_ret Let_def)
  obtain t where t: "run_command B shr ?v = ret t" "answers ?v t c"
    using run_answers [of ?v ?line c B shr] s(1) line c by (auto simp: terminated_def)
  have len: "length (?line @ 0 # rest) = 256" using s(4) unfolding line(1) [symmetric] by simp
  have tt: "tty_ok t" "console_of t = c" "username t = Static name" "\<not> exitHKIloop t" "length (input_buffer t) = 256"
    using t(2) s len by (simp_all add: answers_def)
  let ?p = "terminal_writestring B (prompt_text name) (terminal_newline t)"
  have p: "tty_ok ?p" "console_of ?p = console_line (prompt_text name) c" using line_shown [OF tt(1)] tt(2) by simp_all
  have "terminal_column (terminal_newline t) = 0" by (simp add: terminal_newline_def Let_def)
  then have col: "unat (terminal_column ?p) = length (prompt_text name)"
    using writestring_column [of "terminal_newline t" "prompt_text name" B] s(5) by simp
  have "handle_return B shr ?v = ret (?p\<lparr>input_buffer_index := 0\<rparr>)"
    using t(1) prompt_shown [OF tt(1,3)] by (simp add: handle_return_def)
  moreover have "session_ok name (?p\<lparr>input_buffer_index := 0\<rparr>)"
    using p tt col s(5) length_prompt_text [of name] by (simp add: session_ok_def editor_ok_def session_of_def tty_ok_def)
  ultimately show ?thesis using h p(2) by (auto simp: session_of_def)
qed

text \<open>The other keys: what editing does is known from the line editor; this is what it shows.\<close>

lemma insert_shows:
  assumes "tty_ok s" "insert_key B k s = ret t"
  shows "tty_ok t" "username t = username s" "exitHKIloop t = exitHKIloop s"
    "console_of t = (if unat (input_buffer_index s) < 255 then console_put k (console_of s) else console_of s)"
  using assms terminal_putchar_refines(1,2) [of "s\<lparr>input_buffer := b, input_buffer_index := i\<rparr>" B k for b i]
  by (auto simp: insert_key_def bnd_eq_ret word_less_nat_alt split: if_splits)

lemma backspace_shows:
  assumes ok: "tty_ok s" "username s = Static name" "length (prompt_text name) < 80" and t: "handle_backspace B s = ret t"
  shows "tty_ok t" "username t = username s" "exitHKIloop t = exitHKIloop s"
    "console_of t = (if length (prompt_text name) < unat (terminal_column s) then console_erase (console_of s) else console_of s)"
proof -
  have w: "of_nat (length name + length hostname + 5) < terminal_column s \<longleftrightarrow> length (prompt_text name) < unat (terminal_column s)"
    using ok(3) unfolding length_prompt_text [symmetric] by (simp add: word_less_nat_alt)
  let ?u = "s\<lparr>terminal_column := terminal_column s - 1, input_buffer_index := input_buffer_index s - 1\<rparr>"
  let ?e = "update_cursor B (terminal_column ?u) (terminal_row ?u)
     (terminal_putentryat B 0x20 (terminal_color ?u) (terminal_column ?u) (terminal_row ?u) ?u)"
  have name: "name_text s = ret name" using ok(2) by (simp add: name_text_def)
  have "t = (if length (prompt_text name) < unat (terminal_column s) then ?e else s)"
    using t unfolding handle_backspace_def name bnd_ret w
    by (auto simp: Let_def terminal_putentryat_def split: if_splits)
  moreover have "username ?e = username s" "exitHKIloop ?e = exitHKIloop s"
    by (simp_all add: terminal_putentryat_def)
  moreover have "length (prompt_text name) < unat (terminal_column s) \<Longrightarrow> 0 < unat (terminal_column s)" by simp
  ultimately show "tty_ok t" "username t = username s" "exitHKIloop t = exitHKIloop s"
    "console_of t = (if length (prompt_text name) < unat (terminal_column s) then console_erase (console_of s) else console_of s)"
    using ok(1) backspace_erases [OF ok(1), of B] by presburger+
qed

lemma edit_key:
  fixes s :: "('d, 'z) kern_scheme"
  assumes ok: "session_ok name s" and r: "read_keyboard B s = ret (k, u)" and k: "k \<noteq> 10" "k \<noteq> 85"
    and x: "key_step name k (session_of s) = Some x"
  shows "\<exists>t. handle_keyboard_input B shr s = ret t \<and> session_ok name t \<and> session_of t = x"
proof -
  let ?w = "length (prompt_text name)" and ?i = "unat (input_buffer_index s)"
  obtain d where u: "u = s\<lparr>dev := d\<rparr>" using read_keyboard_frame [OF r] by blast
  obtain rest where line: "(input_buffer s)[?i := 0] = fst (session_of s) @ 0 # rest"
    "length (fst (session_of s)) = ?i" "?i \<le> 255" "0 \<notin> set (fst (session_of s))"
    using session_line [OF ok] .
  have s: "tty_ok s" "username s = Static name" "\<not> exitHKIloop s" "editor_ok ?w s" "?w < 80" "length (input_buffer s) = 256"
    using ok by (simp_all add: session_ok_def, simp_all add: editor_ok_def)
  let ?v = "s\<lparr>dev := d, input_buffer := (input_buffer s)[?i := 0]\<rparr>"
  have h: "handle_keyboard_input B shr s =
      (if k = 0 then ret u else if k = 8 then handle_backspace B ?v else insert_key B k ?v)"
    using r k line(3) s(6) by (simp add: handle_keyboard_input_def u aput_ret Let_def)
  obtain t where t: "handle_keyboard_input B shr s = ret t" "editor_ok ?w t" "editor_of t = edit ?w k (editor_of s)"
    using handle_edit [OF s(4) r k, of shr] by blast
  have shown: "tty_ok t \<and> username t = Static name \<and> \<not> exitHKIloop t \<and> console_of t = snd x"
    using t(1) x s(1-3,5) line(2,3) k backspace_shows [of ?v name B t] insert_shows [of ?v B k t] cursor_column [OF s(1)]
    unfolding h u by (auto simp: key_step_def session_of_def split: if_splits)
  have "fst (session_of t) = fst x" "0 \<notin> set (fst x)"
    using t(3) x k line(2,4) cursor_column [OF s(1)]
    by (auto simp: key_step_def session_of_def editor_of_def edit_def dest: in_set_butlastD split: if_splits)
  then have "session_of t = x" "session_ok name t"
    using shown t(2) by (auto simp: session_of_def session_ok_def prod_eq_iff)
  then show ?thesis using t(1) by blast
qed

text \<open>The simulation of one key.\<close>

lemma session_key:
  assumes "session_ok name s" "read_keyboard B s = ret (k, u)" "key_step name k (session_of s) = Some x"
  shows "\<exists>t. handle_keyboard_input B shr s = ret t \<and> session_ok name t \<and> session_of t = x"
proof (cases "k = 10")
  case True
  then obtain c where "respond (fst (session_of s)) (console_of s) = Some c" "x = ([], console_line (prompt_text name) c)"
    using assms(3) by (auto simp: key_step_def session_of_def)
  then show ?thesis using return_key assms(1,2) True by blast
next
  case False
  moreover have "k \<noteq> 85" using assms(3) by (auto simp: key_step_def split: prod.splits)
  ultimately show ?thesis using edit_key [OF assms(1,2)] assms(3) by blast
qed

subsection \<open>Sessions\<close>

text \<open>The keys that were handled from one state to another, in their order.\<close>

inductive typing :: "'d bus \<Rightarrow> (u32 \<Rightarrow> u32) \<Rightarrow> ('d, 'z) kern_scheme \<Rightarrow> u8 list \<Rightarrow> ('d, 'z) kern_scheme \<Rightarrow> bool"
  for B :: "'d bus" and shr :: "u32 \<Rightarrow> u32" where
  typing_none: "typing B shr s [] s"
| typing_key: "read_keyboard B s = ret (k, u) \<Longrightarrow> handle_keyboard_input B shr s = ret t \<Longrightarrow> typing B shr t ks v
    \<Longrightarrow> typing B shr s (k # ks) v"

lemma session_keys:
  assumes "typing B shr s ks t" "session_ok name s" "key_steps name ks (session_of s) = Some x"
  shows "session_ok name t \<and> session_of t = x \<and> shell_loop B shr s = shell_loop B shr t"
  using assms
proof induction
  case (typing_key s k u t ks v)
  obtain y where y: "key_step name k (session_of s) = Some y" "key_steps name ks y = Some x"
    using typing_key.prems(2) by (auto simp: bind_eq_Some_conv)
  have "session_ok name t" "session_of t = y"
    using session_key [OF typing_key.prems(1) typing_key.hyps(1) y(1), of shr] typing_key.hyps(2) by auto
  moreover have "shell_loop B shr s = shell_loop B shr t"
    using typing_key.prems(1) typing_key.hyps(2) by (subst shell_loop.simps) (simp add: session_ok_def)
  ultimately show ?case using typing_key.IH y(2) by simp
qed simp

subsection \<open>Properties\<close>

text \<open>C2: the shell is an interpreter of lines. Whatever keys other than the colour key were typed since a state of a
  session, as long as the interpreter has a step for each of them, the kernel is in the state
  of the interpreter: the same line, the same console, still in the loop of the shell. The next key
  the interpreter has a step for is handled without a fault and with the same result; so a key is
  edited and shown, and the return key prints the answer of the command and a new prompt.\<close>

theorem shell_refines_interpreter:
  assumes "session_ok name s" "typing B shr s ks t" "key_steps name ks (session_of s) = Some x"
    and "read_keyboard B t = ret (k, u)" "key_step name k x = Some y"
  shows "session_of t = x \<and> shell_loop B shr s = shell_loop B shr t
    \<and> (\<exists>v. handle_keyboard_input B shr t = ret v \<and> session_ok name v \<and> session_of v = y)"
  using session_keys [OF assms(2,1,3)] session_key [OF _ assms(4), of name y shr] assms(5) by auto

text \<open>A state in which a line has been typed, with the return key waiting.\<close>

definition typed_state :: "u8 list \<Rightarrow> u8 list kern" where
  "typed_state line = (prompt_state [0x1C])\<lparr>input_buffer := line @ replicate (256 - length line) 0,
     input_buffer_index := of_nat (length line), terminal_column := of_nat (15 + length line)\<rparr>"

lemma prompt_state_tty: "tty_ok (prompt_state d)"
proof -
  have "terminal_row (prompt_state d) = terminal_row (boot_tty d)" "terminal_buffer (prompt_state d) = terminal_buffer (boot_tty d)"
    by (simp_all add: prompt_state_def boot_drives_def boot_paging_def boot_rtc_def drives.extend_def
      paging.extend_def net.extend_def rtc.extend_def tty.extend_def)
  then show ?thesis using boot_tty_ok [of d] by (simp add: tty_ok_def)
qed

theorem shell_refines_interpreter_witness:
  "\<exists>v. handle_keyboard_input keys_bus id (typed_state (lit ''echo hi you'')) = ret v
    \<and> session_of v = ([], console_line (prompt_text (lit ''potato''))
        (console_line (lit ''hi'') (console_of (typed_state (lit ''echo hi you'')))))"
proof -
  let ?s = "typed_state (lit ''echo hi you'')"
  have line: "fst (session_of ?s) = lit ''echo hi you''"
    by (simp add: session_of_def typed_state_def lit_def)
  have "editor_ok 15 ?s" "tty_ok ?s" "username ?s = Static (lit ''potato'')" "\<not> exitHKIloop ?s"
    using prompt_state_tty [of "[0x1C]"] by (simp_all add: editor_ok_def typed_state_def hostname_def lit_def tty_ok_def)
  moreover have "length (prompt_text (lit ''potato'')) = 15" by (simp add: prompt_text_def hostname_def lit_def)
  moreover have "0 \<notin> set (lit ''echo hi you'')" by (simp add: lit_def)
  ultimately have ok: "session_ok (lit ''potato'') ?s" by (simp add: session_ok_def line)
  have k: "read_keyboard keys_bus ?s = ret (10, ?s\<lparr>dev := []\<rparr>)"
    using read_keyboard_keys [of ?s "0x1C" "[]"] by (simp add: typed_state_def keyboard_layout_def lit_def)
  have "respond (lit ''echo hi you'') (console_of ?s) = Some (console_line (lit ''hi'') (console_of ?s))"
    by (simp add: respond_def outside_def first_word_def lit_def)
  then have "key_step (lit ''potato'') 10 (session_of ?s) =
      Some ([], console_line (prompt_text (lit ''potato'')) (console_line (lit ''hi'') (console_of ?s)))"
    using line by (simp add: key_step_def session_of_def)
  then show ?thesis
    using shell_refines_interpreter [OF ok typing_none _ k, of "session_of ?s" _ id] by auto
qed

end
