(* ===== verification/Kernel.thy ===== *)
theory Kernel
  imports Session
begin

section \<open>Booting\<close>

text \<open>
  \<open>kernel_main\<close> of \<^verbatim>\<open>kernel/arch/i386/tty.c\<close>, which composes the components: the setup screens, the
  terminal, paging, the framebuffer, the clock and the shell. \<open>pd\<close> and \<open>pt\<close> are the
  addresses of the page directory and the page table.
\<close>

subsection \<open>Definitions\<close>

definition findconfig :: "u8 list \<Rightarrow> int" where
  "findconfig path = -1"

definition banner :: "'d bus \<Rightarrow> ('d, 'z) tty_scheme \<Rightarrow> ('d, 'z) tty_scheme" where
  "banner B s =
     (let s = terminal_initialize s;
          s = s\<lparr>terminal_color := attribute VGA_COLOR_LIGHT_GREEN VGA_COLOR_BLACK, terminal_row := 1\<rparr>;
          s = fold (terminal_writestring B)
                [lit ''Welcome to '', osname, lit '' '', version, lit ''.'', subversion, lit ''!''] (terminal_newline s)
      in (terminal_newline s)\<lparr>terminal_color := attribute VGA_COLOR_WHITE VGA_COLOR_BLACK\<rparr>)"

text \<open>The initialisation up to the decision for the recovery shell.\<close>

definition boot :: "'d bus \<Rightarrow> u32 \<Rightarrow> u32 \<Rightarrow> ('d, 'z) kern_scheme \<Rightarrow> ('d, 'z) kern_scheme comp" where
  "boot B pd pt s =
     bnd (setup_tty B (outb B 0x3D5 0x20 (outb B 0x3D4 0x0A (s\<lparr>waitwrite := True\<rparr>)))) (\<lambda>s.
     bnd (setup_paging B pd pt (task B ''Setup paging...'' 0 (banner B s))) (\<lambda>s.
       let s = task B ''Setup paging...'' 1 s;
           s = setup_framebuffer (task B ''Setup framebuffer...'' 0 s);
           s = task B ''Setup framebuffer...'' 1 s;
           s = set_vga_mode B (task B ''Set video mode...'' 0 s) in
       bnd (read_rtc B s) (\<lambda>s.
         let (r, s) = mainfat B (task B ''Attempting to initialize FAT...'' 0 s);
             s = (if r = 0 then task B ''Attempting to initialize FAT...'' 1 (s\<lparr>fsinit := True\<rparr>) else s)
         in ret (s\<lparr>waitwrite := False\<rparr>))))"

definition kernel_main :: "'d bus \<Rightarrow> (u32 \<Rightarrow> u32) \<Rightarrow> u32 \<Rightarrow> u32 \<Rightarrow> ('d, 'z) kern_scheme \<Rightarrow> ('d, 'z) kern_scheme comp" where
  "kernel_main B shr pd pt s =
     bnd (boot B pd pt s) (\<lambda>s.
     bnd (if \<not> networkinit s \<and> \<not> fsinit s then
            bnd (shell B shr (task B ''Entering recovery shell...'' 0 s)) (panic B shr [])
          else ret s) (\<lambda>s.
     let s = terminal_writestring B (lit ''Press 's' to enter builtin shell or enter to continue boot process: '')
               (terminal_newline s) in
     bnd (read_keyboard B s) (\<lambda>(data, s).
       let s = terminal_putchar B data s in
       bnd (if data = 115 then shell B shr s else ret s) (\<lambda>s.
         if findconfig (lit ''/sys/config'') = 0 then ret s
         else panic B shr (lit ''Config file invalid or not found.'') s))))"

lemma kernel_main_no_return: "kernel_main B shr pd pt s \<noteq> ret t"
  by (auto simp: kernel_main_def findconfig_def bnd_eq_ret Let_def split: if_splits)


subsection \<open>What booting keeps\<close>

definition globals :: "('d, 'z) kern_scheme \<Rightarrow> u8 list \<times> name_ptr \<times> bool \<times> bool" where
  "globals s = (input_buffer s, username s, exitHKIloop s, fsinit s)"

definition mapping :: "('d, 'z) kern_scheme \<Rightarrow> bool \<times> u32 list \<times> u32 list \<times> u32 \<times> u32" where
  "mapping s = (networkinit s, page_directory s, page_table s, cr0 s, cr3 s)"

interpretation kernel_globals: client globals
proof unfold_locales
  show "tty.more s = tty.more t \<Longrightarrow> globals s = globals t" for s t :: "('a, 'b) kern_scheme"
    using kern_more [of s t] by (simp add: globals_def)
qed

interpretation kernel_mapping: client mapping
proof unfold_locales
  show "tty.more s = tty.more t \<Longrightarrow> mapping s = mapping t" for s t :: "('a, 'b) kern_scheme"
    using paging_more [of s t] by (simp add: mapping_def)
qed

lemma setup_keeps [simp]:
  "globals (s\<lparr>paniccolor := a\<rparr>) = globals s" "globals (s\<lparr>input_buffer_index := i\<rparr>) = globals s"
  "mapping (s\<lparr>paniccolor := a\<rparr>) = mapping s" "mapping (s\<lparr>input_buffer_index := i\<rparr>) = mapping s"
  by (simp_all add: globals_def mapping_def)

text \<open>A keyboard that always has a key.\<close>

definition key_ready :: "'d bus \<Rightarrow> bool" where
  "key_ready B \<longleftrightarrow> (\<forall>d. fst (bus_inb B 0x64 d) AND 1 \<noteq> 0)"

lemma read_keyboard_ready:
  assumes "key_ready B"
  shows "\<exists>k d. read_keyboard B s = ret (k, s\<lparr>dev := d\<rparr>)"
proof -
  obtain v d where v: "inb_until B 0x64 (\<lambda>v. v AND 0x01 \<noteq> 0) s = ret (v, s\<lparr>dev := d\<rparr>)"
    using assms inb_until_returns [of 0 "\<lambda>v. v AND 0x01 \<noteq> 0" B "0x64" s] by (auto simp: key_ready_def)
  then show ?thesis by (auto simp: read_keyboard_def inb_def Let_def case_prod_beta)
qed

text \<open>\<open>booted s t\<close>: the globals and the mapping are kept and the input line is empty.\<close>

definition booted :: "('d, 'z) kern_scheme \<Rightarrow> ('d, 'z) kern_scheme \<Rightarrow> bool" where
  "booted s t \<longleftrightarrow> globals t = globals s \<and> mapping t = mapping s \<and> input_buffer_index t = 0"

lemma blue_screen_booted: "booted s (blue_screen s)"
  by (simp add: booted_def blue_screen_def Let_def)

lemma fixflash_returns:
  assumes "key_ready B"
  shows "\<exists>t. fixflash B s = ret t \<and> booted s t"
proof -
  obtain k d where "read_keyboard B (at_column B 6 (lit ''Is this flashing? [Y/n]'') (blue_screen s)) =
      ret (k, (at_column B 6 (lit ''Is this flashing? [Y/n]'') (blue_screen s))\<lparr>dev := d\<rparr>)"
    using read_keyboard_ready [OF assms] by blast
  then show ?thesis
    using blue_screen_booted [of s] by (simp add: fixflash_def booted_def at_column_def Let_def)
qed

lemma displayscreen_returns:
  assumes "key_ready B"
  shows "\<exists>t. displayscreen B s = ret t \<and> booted s t"
proof -
  let ?s = "(at_column B 6 (lit ''Do you have a black and white display? [y/N]'') (blue_screen s))\<lparr>terminal_column := 6\<rparr>"
  obtain k d where k: "read_keyboard B ?s = ret (k, ?s\<lparr>dev := d\<rparr>)"
    using read_keyboard_ready [OF assms] by blast
  obtain l e where l: "read_keyboard B (?s\<lparr>dev := d\<rparr>) = ret (l, ?s\<lparr>dev := e\<rparr>)"
    using read_keyboard_ready [OF assms, of "?s\<lparr>dev := d\<rparr>"] by auto
  let ?t = "terminal_putchar B l (?s\<lparr>dev := e\<rparr>)"
  have t: "booted s ?t" using blue_screen_booted [of s] by (simp add: booted_def at_column_def)
  have m: "booted u (m_tty B u)" if "input_buffer_index u = 0" for u :: "('a, 'b) kern_scheme"
    using that by (simp add: booted_def m_tty_def Let_def)
  obtain u where u: "fixflash B (m_tty B ?t) = ret u" "booted (m_tty B ?t) u" using fixflash_returns [OF assms] by blast
  obtain v where v: "fixflash B u = ret v" "booted u v" using fixflash_returns [OF assms] by blast
  show ?thesis
  proof (cases "l = 121")
    case True
    then show ?thesis
      using k l u(1) v(1) t m [of ?t] u(2) v(2) by (simp add: displayscreen_def booted_def Let_def)
  qed (use k l t in \<open>simp add: displayscreen_def Let_def\<close>)
qed

lemma setup_returns:
  assumes "key_ready B"
  shows "\<exists>t. setup_tty B s = ret t \<and> booted s t"
proof -
  let ?s = "task B ''Running setup...'' 0 (terminal_initialize s)"
  obtain t where t: "fixflash B ?s = ret t" "booted ?s t" using fixflash_returns [OF assms] by blast
  obtain u where u: "displayscreen B t = ret u" "booted t u" using displayscreen_returns [OF assms] by blast
  show ?thesis using t u by (simp add: setup_tty_def booted_def)
qed

lemma idx_keeps [simp]: "input_buffer_index (set_vga_mode B s) = input_buffer_index s"
  "globals (set_vga_mode B s) = globals s" "mapping (set_vga_mode B s) = mapping s"
  by (simp_all add: set_vga_mode_def Let_def)

lemma banner_keeps [simp]: "input_buffer_index (banner B s) = input_buffer_index s"
  "globals (banner B s) = globals s" "mapping (banner B s) = mapping s"
  by (simp_all add: banner_def Let_def)

text \<open>The banner starts a fresh screen, whatever the setup screens left.\<close>

lemma banner_tty: "tty_ok (banner B s)"
proof -
  let ?s = "(terminal_initialize s)\<lparr>terminal_color := attribute VGA_COLOR_LIGHT_GREEN VGA_COLOR_BLACK, terminal_row := 1\<rparr>"
  have "tty_ok (terminal_newline ?s)" by (simp add: terminal_newline_def tty_ok_def VGA_HEIGHT_def Let_def)
  then have "tty_ok (fold (terminal_writestring B) ws (terminal_newline ?s))" for ws
    by (induction ws rule: rev_induct) (simp_all add: terminal_writestring_def terminal_write_ok(1))
  then have "tty_ok (terminal_newline (fold (terminal_writestring B) ws (terminal_newline ?s)))" for ws
    by (rule terminal_newline_refines(2))
  moreover have "tty_ok (t\<lparr>terminal_color := c\<rparr>) = tty_ok t" for t :: "('a, 'b) tty_scheme" and c
    by (simp add: tty_ok_def)
  ultimately show ?thesis unfolding banner_def Let_def by blast
qed

lemma set_vga_mode_tty: "tty_ok s \<Longrightarrow> tty_ok (set_vga_mode B s)"
  by (simp add: set_vga_mode_def Let_def tty_ok_task)

lemma setup_framebuffer_ram: "\<exists>x. setup_framebuffer s = s\<lparr>ram := x\<rparr>"
proof -
  have "\<exists>x. fold (\<lambda>i s. s\<lparr>ram := (ram s)(of_nat FRAMEBUFFER_ADDRESS + of_nat i := 0x03)\<rparr>) is t = t\<lparr>ram := x\<rparr>"
    for "is" and t :: "('a, 'b) hw_scheme"
  proof (induction "is" arbitrary: t)
    case Nil
    show ?case by (rule exI [of _ "ram t"]) simp
  next
    case (Cons i js)
    from Cons [of "t\<lparr>ram := (ram t)(of_nat FRAMEBUFFER_ADDRESS + of_nat i := 0x03)\<rparr>"] show ?case by (simp add: fun_upd_def)
  qed
  then show ?thesis unfolding setup_framebuffer_def by blast
qed

lemma globals_paging:
  assumes "paging.more s = paging.more t"
  shows "globals s = globals t" "input_buffer_index s = input_buffer_index t"
  using assms by (cases s; cases t; simp add: globals_def)+

lemma globals_rtc:
  assumes "rtc.more s = rtc.more t"
  shows "globals s = globals t" "mapping s = mapping t" "input_buffer_index s = input_buffer_index t"
  using assms by (cases s; cases t; simp add: globals_def mapping_def)+

lemma translate_mapping: "mapping s = mapping t \<Longrightarrow> translate pd pt s = translate pd pt t"
  by (auto simp: fun_eq_iff translate_def mapping_def Let_def)

lemma boot_returns:
  fixes s :: "('d, 'z) kern_scheme"
  assumes k: "key_ready B" and c: "cmos B sel reg" "\<And>d. reg d 0x0A AND 0x80 = 0" and p: "tables_ok s" "pt AND 0xFFF = 0"
  shows "\<exists>t. boot B pd pt s = ret t \<and> globals t = globals s \<and> input_buffer_index t = 0 \<and> networkinit t = networkinit s
    \<and> tty_ok t \<and> (\<forall>a. translate pd pt t a = (if a < 0x400000 then Some a else None))"
proof -
  let ?s = "outb B 0x3D5 0x20 (outb B 0x3D4 0x0A (s\<lparr>waitwrite := True\<rparr>))"
  obtain a where a: "setup_tty B ?s = ret a" "booted ?s a" using setup_returns [OF k] by blast
  let ?a = "task B ''Setup paging...'' 0 (banner B a)"
  have ga: "globals ?a = globals s" "mapping ?a = mapping s" "input_buffer_index ?a = 0"
    using a(2) by (simp_all add: booted_def)
  have "tables_ok ?a" using p(1) ga(2) by (simp add: tables_ok_def mapping_def)
  then obtain b where b: "setup_paging B pd pt ?a = ret b" "untouched ?a b"
    "\<forall>a. translate pd pt b a = (if a < 0x400000 then Some a else None)"
    using setup_paging_maps [OF _ p(2), of ?a B pd] by blast
  have gb: "globals b = globals s" "input_buffer_index b = 0" "networkinit b = networkinit s"
    using b(2) ga globals_paging [of b ?a] by (simp_all add: untouched_def mapping_def)
  obtain x where x: "setup_framebuffer (task B ''Setup framebuffer...'' 0 (task B ''Setup paging...'' 1 b)) =
      (task B ''Setup framebuffer...'' 0 (task B ''Setup paging...'' 1 b))\<lparr>ram := x\<rparr>" (is "_ = ?b")
    using setup_framebuffer_ram by blast
  let ?c = "set_vga_mode B (task B ''Set video mode...'' 0 (task B ''Setup framebuffer...'' 1 ?b))"
  have "tty_ok b" using b(2) banner_tty [of B a] by (simp add: untouched_def tty_ok_task)
  then have "tty_ok ?c" by (intro set_vga_mode_tty tty_ok_task) (simp add: tty_ok_def tty_ok_task [unfolded tty_ok_def])
  obtain e where e: "read_rtc B ?c = ret e" "rtc.more e = rtc.more ?c" "tty_ok ?c \<longrightarrow> tty_ok e"
    using read_rtc_cmos [OF c(1) refl c(2), of ?c] by blast
  have ge: "globals e = globals s" "mapping e = mapping b" "input_buffer_index e = 0"
    using globals_rtc [OF e(2)] gb by simp_all
  let ?t = "(task B ''No FAT FS support yet.'' 2 (task B ''Attempting to initialize FAT...'' 0 e))\<lparr>waitwrite := False\<rparr>"
  have "boot B pd pt s = ret ?t"
    using a(1) b(1) x e(1) by (simp add: boot_def mainfat_def Let_def)
  moreover have "tty_ok ?t" using e(3) \<open>tty_ok ?c\<close> by (simp add: tty_ok_task)
  moreover have "globals ?t = globals s" "input_buffer_index ?t = 0" "mapping ?t = mapping b"
    using ge by simp_all
  moreover from this(3) have "networkinit ?t = networkinit s" "translate pd pt ?t = translate pd pt b"
    using gb(3) translate_mapping [of ?t b] by (simp_all add: mapping_def)
  ultimately show ?thesis using b(3) by metis
qed

lemma prompt_column:
  assumes "username s = Static (lit ''potato'')"
  shows "\<exists>p. prompt B s = ret p \<and> globals p = globals s \<and> input_buffer_index p = input_buffer_index s
    \<and> unat (terminal_column p) = 15 \<and> (tty_ok s \<longrightarrow> tty_ok p)"
proof -
  let ?s = "terminal_newline s"
  have n: "terminal_column ?s = 0" by (simp add: terminal_newline_def Let_def)
  define p1 where "p1 = terminal_writestring B (lit ''potato'') ?s"
  define p2 where "p2 = terminal_writestring B (lit ''@'') p1"
  define p3 where "p3 = terminal_writestring B hostname p2"
  define p4 where "p4 = terminal_writestring B (lit '' /> '') p3"
  have "unat (terminal_column p1) = 6"
    using writestring_column [of ?s "lit ''potato''" B] n by (simp add: p1_def)
  then have "unat (terminal_column p2) = 7"
    using writestring_column [of p1 "lit ''@''" B] by (simp add: p2_def)
  then have "unat (terminal_column p3) = 11"
    using writestring_column [of p2 hostname B] by (simp add: p3_def hostname_def)
  then have "unat (terminal_column p4) = 15"
    using writestring_column [of p3 "lit '' /> ''" B] by (simp add: p4_def)
  moreover have "prompt B s = ret p4"
    using assms by (simp add: prompt_def name_text_def p1_def p2_def p3_def p4_def Let_def)
  moreover have "tty_ok p4" if "tty_ok s"
    using terminal_newline_refines(2) [OF that]
    by (simp add: p1_def p2_def p3_def p4_def terminal_writestring_def terminal_write_ok(1))
  ultimately show ?thesis by (simp add: p1_def p2_def p3_def p4_def)
qed


lemma kernel_main_prompt:
  fixes s :: "('d, 'z) kern_scheme"
  assumes k: "key_ready B" and c: "cmos B sel reg" "\<And>d. reg d 0x0A AND 0x80 = 0" and p: "tables_ok s" "pt AND 0xFFF = 0"
    and g: "length (input_buffer s) = 256" "username s = Static (lit ''potato'')" "\<not> networkinit s" "\<not> fsinit s"
      "\<not> exitHKIloop s"
  shows "\<exists>t p. boot B pd pt s = ret t \<and> (\<forall>a. translate pd pt t a = (if a < 0x400000 then Some a else None))
    \<and> prompt B (task B ''Entering recovery shell...'' 1 (task B ''Entering recovery shell...'' 0 t)) = ret p
    \<and> session_ok (lit ''potato'') p \<and> editor_of p = ([], 15) \<and> \<not> fsinit p
    \<and> kernel_main B shr pd pt s = bnd (shell_loop B shr p) (panic B shr [])"
proof -
  obtain t where t: "boot B pd pt s = ret t" "globals t = globals s" "input_buffer_index t = 0" "networkinit t = networkinit s"
    "\<forall>a. translate pd pt t a = (if a < 0x400000 then Some a else None)" "tty_ok t"
    using boot_returns [OF k c p, of pd] by blast
  let ?t = "task B ''Entering recovery shell...'' 1 (task B ''Entering recovery shell...'' 0 t)"
  obtain p where p: "prompt B ?t = ret p" "globals p = globals ?t" "input_buffer_index p = input_buffer_index ?t"
    "unat (terminal_column p) = 15" "tty_ok ?t \<longrightarrow> tty_ok p"
    using prompt_column [of ?t B] t(2) g(2) by (auto simp: globals_def)
  have tty: "tty_ok p" using p(5) t(6) by (simp add: tty_ok_task)
  have f: "\<not> fsinit t" using t(2) g(4) by (simp add: globals_def)
  have "kernel_main B shr pd pt s = bnd (shell_loop B shr p) (panic B shr [])"
  proof -
    have "panic B shr [] = (\<lambda>_ :: ('d, 'z) kern_scheme. None :: ('d, 'z) kern_scheme comp)" by (rule ext) simp
    then show ?thesis using t(1,4) g(3) f p(1) by (simp add: kernel_main_def shell_def bnd_assoc)
  qed
  moreover have "length (input_buffer p) = 256" "username p = Static (lit ''potato'')" "\<not> fsinit p" "input_buffer_index p = 0"
    "\<not> exitHKIloop p"
    using p t g by (simp_all add: globals_def)
  moreover have "terminal_column p < 80" using p(4) by (simp add: word_less_nat_alt)
  moreover have "length (prompt_text (lit ''potato'')) = 15" by (simp add: prompt_text_def hostname_def lit_def)
  ultimately show ?thesis
    using p(1,4) t(1,5) tty
    by (intro exI [of _ t] exI [of _ p]) (simp add: session_ok_def session_of_def editor_ok_def editor_of_def hostname_def)
qed

lemma prompt_state_tables [simp]:
  "page_directory (prompt_state d) = replicate 1024 0" "page_table (prompt_state d) = replicate 1024 0"
  "\<not> networkinit (prompt_state d)"
  by (simp_all add: prompt_state_def boot_drives_def boot_paging_def drives.extend_def paging.extend_def net.extend_def
      rtc.extend_def drives.fields_def paging.fields_def net.fields_def kern.fields_def)

text \<open>A machine whose keyboard always has a key and whose clock never updates.\<close>

definition boot_bus :: "(u8 \<times> (u8 \<Rightarrow> u8)) bus" where
  "boot_bus = cmos_bus\<lparr>bus_inb := (\<lambda>p d. (if p = 0x64 then 1 else if p = 0x71 then ((snd d)(0x0A := 0)) (fst d) else 0, d))\<rparr>"

lemma boot_bus_cmos: "cmos boot_bus fst (\<lambda>d. (snd d)(0x0A := 0))"
  by (auto simp: cmos_def boot_bus_def cmos_bus_def off_video_def)

subsection \<open>Properties\<close>

text \<open>C36: the kernel never returns to the boot code. Whatever the devices, the memory and the keys are,
  \<open>kernel_main\<close> either runs for ever, ends in the halt of a panic or faults.\<close>

theorem kernel_main_never_returns: "kernel_main B shr pd pt s \<noteq> ret t"
  by (rule kernel_main_no_return)

end
