(* ===== verification/Cpu.thy ===== *)
theory Cpu
  imports Prelude
begin

unbundle bit_operations_syntax

section \<open>The processor under the assembly files\<close>

text \<open>
  The assembly files of \<^verbatim>\<open>kernel/arch/i386\<close> are sequences of i386 instructions in AT&T order
  (source first). This theory gives the instructions they use: the eight general registers,
  EFLAGS, CR3, the address control is at when it leaves a sequence, and the memory. An
  access goes through the address translation of the current CR3, which is a parameter
  \<open>M\<close> (the processor walks the tables of the address space); an address without a
  translation is a page fault. The processor runs at privilege level 0, as the whole
  kernel does. No line of the program is modelled here.
\<close>

datatype reg = EAX | ECX | EDX | EBX | ESP | EBP | ESI | EDI

record cpu =
  regs :: "reg \<Rightarrow> u32"
  eip :: u32
  eflags :: u32
  ctrl3 :: u32
  store :: mem

type_synonym mmu = "u32 \<Rightarrow> u32 \<Rightarrow> u32 option"

text \<open>Loads and stores of a double word through the address translation, byte by byte.\<close>

definition load32 :: "mmu \<Rightarrow> u32 \<Rightarrow> cpu \<Rightarrow> u32 comp" where
  "load32 M a s =
     (case (M (ctrl3 s) a, M (ctrl3 s) (a + 1), M (ctrl3 s) (a + 2), M (ctrl3 s) (a + 3)) of
        (Some p0, Some p1, Some p2, Some p3) \<Rightarrow>
          ret (le32 (store s p0) (store s p1) (store s p2) (store s p3))
      | _ \<Rightarrow> stuck PageFault)"

definition store32 :: "mmu \<Rightarrow> u32 \<Rightarrow> u32 \<Rightarrow> cpu \<Rightarrow> cpu comp" where
  "store32 M a v s =
     (case (M (ctrl3 s) a, M (ctrl3 s) (a + 1), M (ctrl3 s) (a + 2), M (ctrl3 s) (a + 3)) of
        (Some p0, Some p1, Some p2, Some p3) \<Rightarrow>
          ret (s\<lparr>store := (store s)(p0 := ucast v, p1 := ucast (drop_bit 8 v),
            p2 := ucast (drop_bit 16 v), p3 := ucast (drop_bit 24 v))\<rparr>)
      | _ \<Rightarrow> stuck PageFault)"

subsection \<open>Instructions\<close>

text \<open>
  Operands are a register, an immediate or a displacement from a register. \<open>PUSHF\<close>
  stores EFLAGS without the VM and RF bits; \<open>POPF\<close> at privilege level 0 loads every
  flag except VM, VIF and VIP, keeps the reserved bits and clears RF.
\<close>

datatype operand = Reg reg | Imm u32 | Mem u32 reg

datatype instr =
    Pusha | Pushf | Popf | Push reg | Pop reg | Mov operand operand
  | Mov_from_cr3 reg | Mov_to_cr3 reg | Add u32 reg | Xchg operand reg | Ret

definition set_reg :: "reg \<Rightarrow> u32 \<Rightarrow> cpu \<Rightarrow> cpu" where
  "set_reg r v s = s\<lparr>regs := (regs s)(r := v)\<rparr>"

definition flags_image :: "u32 \<Rightarrow> u32" where
  "flags_image f = f AND 0x00FCFFFF"

definition flags_loaded :: "u32 \<Rightarrow> u32 \<Rightarrow> u32" where
  "flags_loaded old v = (old AND NOT 0x00257FD5) OR (v AND 0x00247FD5)"

text \<open>\<open>ADD\<close> sets the status flags CF, PF, AF, ZF, SF and OF from its operands.\<close>

definition flag :: "nat \<Rightarrow> bool \<Rightarrow> u32" where
  "flag k P = (if P then push_bit k 1 else 0)"

definition add_flags :: "u32 \<Rightarrow> u32 \<Rightarrow> u32 \<Rightarrow> u32" where
  "add_flags old a b =
     (old AND NOT 0x8D5) OR
     flag 0 (2 ^ 32 \<le> unat a + unat b) OR
     flag 2 (even (length (filter (bit (a + b)) [0..<8]))) OR
     flag 4 (16 \<le> unat (a AND 0xF) + unat (b AND 0xF)) OR
     flag 6 (a + b = 0) OR
     flag 7 (bit (a + b) 31) OR
     flag 11 (bit a 31 = bit b 31 \<and> bit (a + b) 31 \<noteq> bit a 31)"

fun value_of :: "mmu \<Rightarrow> operand \<Rightarrow> cpu \<Rightarrow> u32 comp" where
  "value_of M (Reg r) s = ret (regs s r)"
| "value_of M (Imm v) s = ret v"
| "value_of M (Mem d r) s = load32 M (regs s r + d) s"

fun put_operand :: "mmu \<Rightarrow> operand \<Rightarrow> u32 \<Rightarrow> cpu \<Rightarrow> cpu comp" where
  "put_operand M (Reg r) v s = ret (set_reg r v s)"
| "put_operand M (Imm w) v s = stuck OutOfBounds"
| "put_operand M (Mem d r) v s = store32 M (regs s r + d) v s"

definition push32 :: "mmu \<Rightarrow> u32 \<Rightarrow> cpu \<Rightarrow> cpu comp" where
  "push32 M v s = bnd (store32 M (regs s ESP - 4) v s) (\<lambda>s. ret (set_reg ESP (regs s ESP - 4) s))"

definition pop32 :: "mmu \<Rightarrow> cpu \<Rightarrow> (u32 \<times> cpu) comp" where
  "pop32 M s = bnd (load32 M (regs s ESP) s) (\<lambda>v. ret (v, set_reg ESP (regs s ESP + 4) s))"

fun push_all :: "mmu \<Rightarrow> u32 list \<Rightarrow> cpu \<Rightarrow> cpu comp" where
  "push_all M [] s = ret s"
| "push_all M (v # vs) s = bnd (push32 M v s) (push_all M vs)"

fun exec :: "mmu \<Rightarrow> instr \<Rightarrow> cpu \<Rightarrow> cpu comp" where
  "exec M Pusha s = push_all M (map (regs s) [EAX, ECX, EDX, EBX, ESP, EBP, ESI, EDI]) s"
| "exec M Pushf s = push32 M (flags_image (eflags s)) s"
| "exec M Popf s = bnd (pop32 M s) (\<lambda>(v, s). ret (s\<lparr>eflags := flags_loaded (eflags s) v\<rparr>))"
| "exec M (Push r) s = push32 M (regs s r) s"
| "exec M (Pop r) s = bnd (pop32 M s) (\<lambda>(v, s). ret (set_reg r v s))"
| "exec M (Mov a b) s = bnd (value_of M a s) (\<lambda>v. put_operand M b v s)"
| "exec M (Mov_from_cr3 r) s = ret (set_reg r (ctrl3 s) s)"
| "exec M (Mov_to_cr3 r) s = ret (s\<lparr>ctrl3 := regs s r\<rparr>)"
| "exec M (Add v r) s = ret ((set_reg r (regs s r + v) s)\<lparr>eflags := add_flags (eflags s) (regs s r) v\<rparr>)"
| "exec M (Xchg a r) s =
     bnd (value_of M a s) (\<lambda>v. bnd (put_operand M a (regs s r) s) (\<lambda>s. ret (set_reg r v s)))"
| "exec M Ret s = bnd (pop32 M s) (\<lambda>(v, s). ret (s\<lparr>eip := v\<rparr>))"

text \<open>A sequence of instructions without jumps.\<close>

fun run :: "mmu \<Rightarrow> instr list \<Rightarrow> cpu \<Rightarrow> cpu comp" where
  "run M [] s = ret s"
| "run M (i # is) s = bnd (exec M i s) (run M is)"

subsection \<open>Accesses that are mapped to themselves\<close>

text \<open>
  \<open>mapped M c a n\<close>: under the page tables \<open>c\<close> each of the \<open>n\<close> addresses from \<open>a\<close> on
  stands for itself, as the kernel's tables have it for the memory it uses.
\<close>

definition mapped :: "mmu \<Rightarrow> u32 \<Rightarrow> u32 \<Rightarrow> nat \<Rightarrow> bool" where
  "mapped M c a n \<longleftrightarrow> (\<forall>i < n. M c (a + of_nat i) = Some (a + of_nat i))"

lemma mapped_byte:
  assumes "mapped M c a n" "unat i < n"
  shows "M c (a + i) = Some (a + i)"
  using assms by (auto simp: mapped_def dest!: spec [of _ "unat i"])

lemma mapped_word:
  assumes "mapped M c a n" "unat i + 4 \<le> n" "n \<le> 2 ^ 32"
  shows "mapped M c (a + i) 4"
  unfolding mapped_def
proof (intro allI impI)
  fix k :: nat
  assume "k < 4"
  then have "unat (i + of_nat k) < n"
    using assms(2,3) by (simp add: unat_word_ariths)
  from mapped_byte [OF assms(1) this] show "M c (a + i + of_nat k) = Some (a + i + of_nat k)"
    by (simp add: add.assoc)
qed

lemma load32_mapped:
  assumes "mapped M (ctrl3 s) a 4"
  shows "load32 M a s = ret (peek32 (store s) a)"
  using mapped_byte [OF assms, of 0] mapped_byte [OF assms, of 1] mapped_byte [OF assms, of 2]
    mapped_byte [OF assms, of 3]
  by (simp add: load32_def peek32_def)

lemma store32_mapped:
  assumes "mapped M (ctrl3 s) a 4"
  shows "store32 M a v s = ret (s\<lparr>store := poke32 a v (store s)\<rparr>)"
  using mapped_byte [OF assms, of 0] mapped_byte [OF assms, of 1] mapped_byte [OF assms, of 2]
    mapped_byte [OF assms, of 3]
  by (simp add: store32_def poke32_bytes)

subsection \<open>Reads through writes\<close>

lemma apart_words:
  assumes "apart a n b k" "unat i + 4 \<le> n" "unat j + 4 \<le> k" "n \<le> 2 ^ 32" "k \<le> 2 ^ 32"
  shows "apart (a + i) 4 (b + j) 4"
  using assms in_block_shift [of a i 4 _ n] in_block_shift [of b j 4 _ k]
  by (auto simp: apart_def)

lemma apart_sym: "apart a n b k \<longleftrightarrow> apart b k a n"
  by (auto simp: apart_def)

lemma near_diff:
  assumes "unat u < 4" "unat v < 4" "v \<le> (u :: u32)"
  shows "unat (u - v) < 4"
  using assms by (simp add: unat_sub)

lemma apart_offsets:
  assumes "4 \<le> unat (i - j)" "4 \<le> unat (j - i)"
  shows "apart (a + i) 4 (a + j) 4"
proof -
  have "\<not> (unat (x - (a + i)) < 4 \<and> unat (x - (a + j)) < 4)" for x
  proof
    define u v where "u = x - (a + i)" "v = x - (a + j)"
    have "u - v = j - i" "v - u = i - j" by (simp_all add: u_v_def)
    moreover assume "unat (x - (a + i)) < 4 \<and> unat (x - (a + j)) < 4"
    ultimately show False
      using assms near_diff [of u v] near_diff [of v u] linear [of u v] by (auto simp: u_v_def)
  qed
  then show ?thesis by (simp add: apart_def in_block_def)
qed

lemma peek32_poke32_offsets:
  assumes "i = j \<or> 4 \<le> unat (i - j) \<and> 4 \<le> unat (j - i)"
  shows "peek32 (poke32 (a + i) v m) (a + j) = (if i = j then v else peek32 m (a + j))"
  using assms apart_offsets [of i j a] by (auto simp: peek32_poke32_apart)

lemma offset_arith:
  "(a :: u32) + numeral i + numeral j = a + numeral (i + j)"
  "(a :: u32) + numeral i - numeral j = a + (numeral i - numeral j)"
  by (simp_all add: add.assoc)

end
