(* ===== verification/Boot.thy ===== *)
theory Boot
  imports Kernel Cpu
begin

unbundle bit_operations_syntax

section \<open>The entry of the kernel\<close>

text \<open>
  \<^verbatim>\<open>kernel/arch/i386/boot.S\<close>: the multiboot header, the stack, and \<open>_start\<close>, where the boot
  loader jumps to. It sets the stack pointer, calls \<open>kernel_main\<close> and, should that return,
  halts for ever. The address of the stack and of the instruction after the call are chosen
  by the linker and are parameters.
\<close>

definition ALIGN :: u32 where "ALIGN = push_bit 0 1"
definition MEMINFO :: u32 where "MEMINFO = push_bit 1 1"
definition FLAGS :: u32 where "FLAGS = ALIGN OR MEMINFO"
definition MAGIC :: u32 where "MAGIC = 0x1BADB002"
definition CHECKSUM :: u32 where "CHECKSUM = - (MAGIC + FLAGS)"

definition multiboot_header :: "u32 list" where
  "multiboot_header = [MAGIC, FLAGS, CHECKSUM]"

definition stack_top :: "u32 \<Rightarrow> u32" where
  "stack_top stack_bottom = stack_bottom + 16384"

definition enter :: "mmu \<Rightarrow> u32 \<Rightarrow> u32 \<Rightarrow> cpu \<Rightarrow> cpu comp" where
  "enter M stack_bottom next_ip c =
     bnd (exec M (Mov (Imm (stack_top stack_bottom)) (Reg ESP)) c) (push32 M next_ip)"

definition start :: "'d bus \<Rightarrow> (u32 \<Rightarrow> u32) \<Rightarrow> u32 \<Rightarrow> u32 \<Rightarrow> mmu \<Rightarrow> u32 \<Rightarrow> u32 \<Rightarrow> cpu \<Rightarrow>
    ('d, 'z) kern_scheme \<Rightarrow> ('d, 'z) kern_scheme comp" where
  "start B shr pd pt M stack_bottom next_ip c s =
     bnd (enter M stack_bottom next_ip (c\<lparr>store := ram s\<rparr>)) (\<lambda>c.
     bnd (kernel_main B shr pd pt (s\<lparr>ram := store c\<rparr>)) (forever ret))"

text \<open>A multiboot loader accepts the header: its three words add up to zero.\<close>

lemma multiboot_checksum: "MAGIC + FLAGS + CHECKSUM = 0" "FLAGS = 3"
  by (simp_all add: CHECKSUM_def FLAGS_def ALIGN_def MEMINFO_def)

lemma bnd_no_return: "(\<And>x. m \<noteq> ret x) \<Longrightarrow> bnd m f = m"
  by (cases m rule: comp_cases) auto

lemma enter_runs:
  assumes "mapped M (ctrl3 c) (stack_bottom + 16380) 4"
  shows "enter M stack_bottom next_ip c =
    ret (c\<lparr>regs := (regs c)(ESP := stack_bottom + 16380), store := poke32 (stack_bottom + 16380) next_ip (store c)\<rparr>)"
  using assms
  by (simp add: enter_def stack_top_def push32_def set_reg_def store32_mapped offset_arith)

lemma start_is_kernel_main:
  assumes "mapped M (ctrl3 c) (stack_bottom + 16380) 4"
  shows "start B shr pd pt M stack_bottom next_ip c s =
    kernel_main B shr pd pt (s\<lparr>ram := poke32 (stack_bottom + 16380) next_ip (ram s)\<rparr>)"
  using assms
  by (simp add: start_def enter_runs bnd_no_return kernel_main_no_return)

lemma stack_aligned:
  fixes stack_bottom :: u32
  assumes "unat stack_bottom mod 16 = 0"
  shows "unat (stack_bottom + 16380 + 4) mod 16 = 0"
proof -
  have "unat (stack_bottom + 16384) mod 16 = (unat stack_bottom + 16384) mod 16"
    by (simp add: unat_word_ariths mod_mod_cancel)
  then show ?thesis using assms by (simp add: offset_arith mod_add_left_eq [symmetric])
qed

lemma start_prompt:
  fixes s :: "('d, 'z) kern_scheme"
  assumes "unat stack_bottom mod 16 = 0" "mapped M (ctrl3 c) (stack_bottom + 16380) 4"
    and "key_ready B" "cmos B sel reg" "\<And>d. reg d 0x0A AND 0x80 = 0" "tables_ok s" "pt AND 0xFFF = 0"
    "length (input_buffer s) = 256" "username s = Static (lit ''potato'')" "\<not> networkinit s" "\<not> fsinit s" "\<not> exitHKIloop s"
  shows "\<exists>c' (p :: ('d, 'z) kern_scheme). enter M stack_bottom next_ip (c\<lparr>store := ram s\<rparr>) = ret c'
    \<and> unat (regs c' ESP + 4) mod 16 = 0 \<and> in_block stack_bottom 16384 (regs c' ESP)
    \<and> peek32 (store c') (regs c' ESP) = next_ip
    \<and> session_ok (lit ''potato'') p \<and> editor_of p = ([], 15)
    \<and> start B shr pd pt M stack_bottom next_ip c s = bnd (shell_loop B shr p) (panic B shr [])"
proof -
  let ?s = "s\<lparr>ram := poke32 (stack_bottom + 16380) next_ip (ram s)\<rparr>"
  have "tables_ok ?s" using assms(6) by (simp add: tables_ok_def)
  then have "\<exists>t p. boot B pd pt ?s = ret t \<and> (\<forall>a. translate pd pt t a = (if a < 0x400000 then Some a else None))
      \<and> prompt B (task B ''Entering recovery shell...'' 1 (task B ''Entering recovery shell...'' 0 t)) = ret p
      \<and> session_ok (lit ''potato'') p \<and> editor_of p = ([], 15) \<and> \<not> fsinit p
      \<and> kernel_main B shr pd pt ?s = bnd (shell_loop B shr p) (panic B shr [])"
    using assms(7-) by (intro kernel_main_prompt [OF assms(3-5)]) simp_all
  then obtain p :: "('d, 'z) kern_scheme" where p: "session_ok (lit ''potato'') p" "editor_of p = ([], 15)"
    "kernel_main B shr pd pt ?s = bnd (shell_loop B shr p) (panic B shr [])"
    by blast
  moreover have "in_block stack_bottom 16384 (stack_bottom + 16380)"
    using in_block_offset [of 16380 stack_bottom 16384] by simp
  ultimately show ?thesis
    using assms(2) stack_aligned [OF assms(1)]
    by (intro exI [of _ "c\<lparr>regs := (regs c)(ESP := stack_bottom + 16380), store := ram ?s\<rparr>"] exI [of _ p])
      (simp add: enter_runs start_is_kernel_main)
qed

text \<open>
  C9: From the jump of the boot loader to the prompt. With the stack where the linker aligns it,
  \<open>_start\<close> calls \<open>kernel_main\<close> on a stack pointer inside the 16 KiB of the stack and 16-byte
  aligned before the call, with the address after the call on top; on a machine with a clock and
  a keyboard the boot then arrives at the prompt of the recovery shell with an empty line, in a state
  from which a session can go on, and all that follows is the shell and the panic after it.
\<close>

theorem start_reaches_prompt:
  fixes s :: "('d, 'z) kern_scheme"
  assumes "unat stack_bottom mod 16 = 0" "mapped M (ctrl3 c) (stack_bottom + 16380) 4"
    and "key_ready B" "cmos B sel reg" "\<And>d. reg d 0x0A AND 0x80 = 0" "tables_ok s" "pt AND 0xFFF = 0"
    "length (input_buffer s) = 256" "username s = Static (lit ''potato'')" "\<not> networkinit s" "\<not> fsinit s" "\<not> exitHKIloop s"
  shows "\<exists>c' (p :: ('d, 'z) kern_scheme). enter M stack_bottom next_ip (c\<lparr>store := ram s\<rparr>) = ret c'
    \<and> unat (regs c' ESP + 4) mod 16 = 0 \<and> in_block stack_bottom 16384 (regs c' ESP)
    \<and> peek32 (store c') (regs c' ESP) = next_ip
    \<and> session_ok (lit ''potato'') p \<and> editor_of p = ([], 15)
    \<and> start B shr pd pt M stack_bottom next_ip c s = bnd (shell_loop B shr p) (panic B shr [])"
  by (rule start_prompt [OF assms])

definition loader_cpu :: cpu where
  "loader_cpu = \<lparr>regs = (\<lambda>_. 0), eip = 0x100000, eflags = 2, ctrl3 = 0, store = (\<lambda>_. 0)\<rparr>"

theorem start_reaches_prompt_witness:
  "\<exists>p :: (u8 \<times> (u8 \<Rightarrow> u8)) kern. editor_of p = ([], 15) \<and> start boot_bus id 0x1000 0x2000 (\<lambda>_ a. Some a) 0x110000 0x10000A loader_cpu
     (prompt_state (0, \<lambda>_. 0)) = bnd (shell_loop boot_bus id p) (panic boot_bus id [])"
proof -
  let ?s = "prompt_state (0 :: u8, \<lambda>_ :: u8. 0 :: u8)"
  have "tables_ok ?s" "\<not> networkinit ?s" by (simp_all add: tables_ok_def)
  moreover have "key_ready boot_bus" by (simp add: key_ready_def boot_bus_def)
  moreover have "mapped (\<lambda>_ a. Some a) c a n" for c a n by (simp add: mapped_def)
  ultimately show ?thesis
    using start_reaches_prompt [OF _ _ _ boot_bus_cmos, where s = ?s and pt = "0x2000" and pd = "0x1000"
      and shr = id and stack_bottom = "0x110000" and M = "\<lambda>_ a. Some a" and next_ip = "0x10000A" and c = loader_cpu]
    by auto
qed

end
