(* ===== verification/Build.thy ===== *)
theory Build
  imports Boot
begin

unbundle bit_operations_syntax

section \<open>Linking and configuration\<close>

text \<open>
  The linker script \<^verbatim>\<open>kernel/arch/i386/linker.ld\<close> as a function from the sizes and alignments of the input
  sections to the addresses in the image, and the parts of the build scripts that compute
  something: the architecture of a target triplet and the command of the compiler. The linker and
  the tools that the scripts call are not modelled.
\<close>

subsection \<open>The image of the kernel\<close>

text \<open>An input section has an alignment and a size.\<close>

type_synonym input = "nat \<times> nat"

record objects =
  o_multiboot :: "input list"
  o_text :: "input list"
  o_rodata :: "input list"
  o_data :: "input list"
  o_common :: "input list"
  o_bss :: "input list"

definition align_up :: "nat \<Rightarrow> nat \<Rightarrow> nat" where
  "align_up a n = (n + (a - 1)) div a * a"

text \<open>The addresses of the input sections of an output section, and the location counter after them.\<close>

fun put_inputs :: "nat \<Rightarrow> input list \<Rightarrow> nat list \<times> nat" where
  "put_inputs loc [] = ([], loc)"
| "put_inputs loc ((a, n) # ins) =
     (let d = align_up a loc; (addrs, e) = put_inputs (d + n) ins in (d # addrs, e))"

text \<open>
  An output section: the addresses of its inputs, its start and its end. Input sections that the
  script does not name, such as the unwind tables of the compiler, are orphans: the linker puts each
  behind an output section of its choice, before it places the next one. \<open>orphans k\<close> are the ones it
  puts behind output section \<open>k\<close>.
\<close>

fun place :: "nat \<Rightarrow> (input list \<times> input list) list \<Rightarrow> (nat list \<times> nat \<times> nat) list" where
  "place loc [] = []"
| "place loc ((ins, orphaned) # secs) =
     (let d = align_up 4096 loc; (addrs, e) = put_inputs d ins; (_, loc') = put_inputs e orphaned
      in (addrs, d, e) # place loc' secs)"

definition link_kernel :: "(nat \<Rightarrow> input list) \<Rightarrow> objects \<Rightarrow> (nat list \<times> nat \<times> nat) list" where
  "link_kernel orphans objs = place 0x100000
     [(o_multiboot objs @ o_text objs, orphans 0), (o_rodata objs, orphans 1), (o_data objs, orphans 2),
      (o_common objs @ o_bss objs, orphans 3)]"

subsection \<open>Addresses\<close>

lemma align_up:
  assumes "0 < a"
  shows "n \<le> align_up a n" "a dvd align_up a n" "align_up a n < n + a"
proof -
  have "(n + (a - 1)) div a * a + (n + (a - 1)) mod a = n + (a - 1)" by simp
  moreover have "(n + (a - 1)) mod a < a" using assms by simp
  ultimately show "n \<le> align_up a n" "align_up a n < n + a" unfolding align_up_def by linarith+
  show "a dvd align_up a n" by (simp add: align_up_def)
qed

lemma put_inputs_range:
  assumes "list_all (\<lambda>(a, n). 0 < a) ins" "put_inputs loc ins = (addrs, e)"
  shows "length addrs = length ins \<and> loc \<le> e
    \<and> (\<forall>i < length ins. fst (ins ! i) dvd addrs ! i \<and> loc \<le> addrs ! i \<and> addrs ! i + snd (ins ! i) \<le> e)"
  using assms
proof (induction ins arbitrary: loc addrs e)
  case (Cons x ins)
  obtain a n where x: "x = (a, n)" by (cases x)
  let ?d = "align_up a loc"
  obtain as where as: "put_inputs (?d + n) ins = (as, e)" "addrs = ?d # as"
    using Cons.prems(2) x by (auto simp: Let_def split: prod.splits)
  have a: "0 < a" using Cons.prems(1) x by simp
  have IH: "length as = length ins" "?d + n \<le> e"
    "i < length ins \<Longrightarrow> fst (ins ! i) dvd as ! i \<and> ?d + n \<le> as ! i \<and> as ! i + snd (ins ! i) \<le> e" for i
    using Cons.IH [OF _ as(1)] Cons.prems(1) by auto
  have "fst ((x # ins) ! i) dvd addrs ! i \<and> loc \<le> addrs ! i \<and> addrs ! i + snd ((x # ins) ! i) \<le> e"
    if "i < length (x # ins)" for i
    using that IH(2) IH(3) [of "i - 1"] align_up [OF a, of loc] as(2) x by (cases i) auto
  then show ?case using IH(1,2) as(2) align_up(1) [OF a, of loc] by auto
qed simp

lemma place_sections:
  assumes "list_all (\<lambda>(ins, orphaned). list_all (\<lambda>(a, n). 0 < a) (ins @ orphaned)) secs"
  shows "length (place loc secs) = length secs
    \<and> list_all (\<lambda>(addrs, d, e). 4096 dvd d \<and> loc \<le> d \<and> d \<le> e) (place loc secs)
    \<and> sorted_wrt (\<lambda>(_, _, e) (_, d, _). e \<le> d) (place loc secs)"
  using assms
proof (induction secs arbitrary: loc)
  case (Cons sec secs)
  obtain ins orphaned where sec: "sec = (ins, orphaned)" by (cases sec)
  let ?d = "align_up 4096 loc"
  obtain addrs e where p: "put_inputs ?d ins = (addrs, e)" by fastforce
  obtain addrs' e' where q: "put_inputs e orphaned = (addrs', e')" by fastforce
  have d: "4096 dvd ?d" "loc \<le> ?d" using align_up [of 4096 loc] by simp_all
  have e: "?d \<le> e" "e \<le> e'" using put_inputs_range [OF _ p] put_inputs_range [OF _ q] Cons.prems sec by simp_all
  have IH: "length (place e' secs) = length secs" "list_all (\<lambda>(addrs, d, e). 4096 dvd d \<and> e' \<le> d \<and> d \<le> e) (place e' secs)"
    "sorted_wrt (\<lambda>(_, _, e) (_, d, _). e \<le> d) (place e' secs)"
    using Cons by simp_all
  then have "list_all (\<lambda>(addrs, d, e). 4096 dvd d \<and> loc \<le> d \<and> d \<le> e) (place e' secs)"
    using d(2) e by (auto simp: list_all_iff)
  moreover have "\<forall>y \<in> set (place e' secs). (\<lambda>(_, d, _). e \<le> d) y" using IH(2) e(2) by (auto simp: list_all_iff)
  ultimately show ?case
    using p q d e IH by (simp add: Let_def sec)
qed simp

text \<open>The whole image: four sections on page boundaries, one after the other, from one megabyte on.\<close>

definition inputs_ok :: "(nat \<Rightarrow> input list) \<Rightarrow> objects \<Rightarrow> bool" where
  "inputs_ok orphans objs \<longleftrightarrow> list_all (\<lambda>(a, n). 0 < a)
     (o_multiboot objs @ o_text objs @ o_rodata objs @ o_data objs @ o_common objs @ o_bss objs
      @ orphans 0 @ orphans 1 @ orphans 2 @ orphans 3)"

lemma link_kernel_sections:
  assumes "inputs_ok orphans objs"
  shows "length (link_kernel orphans objs) = 4"
    "list_all (\<lambda>(addrs, d, e). 4096 dvd d \<and> 0x100000 \<le> d \<and> d \<le> e) (link_kernel orphans objs)"
    "sorted_wrt (\<lambda>(_, _, e) (_, d, _). e \<le> d) (link_kernel orphans objs)"
proof -
  have "list_all (\<lambda>(ins, orphaned). list_all (\<lambda>(a, n). 0 < a) (ins @ orphaned))
      [(o_multiboot objs @ o_text objs, orphans 0), (o_rodata objs, orphans 1), (o_data objs, orphans 2),
       (o_common objs @ o_bss objs, orphans 3)]"
    using assms by (simp add: inputs_ok_def)
  from place_sections [OF this, of "0x100000"]
  show "length (link_kernel orphans objs) = 4"
    "list_all (\<lambda>(addrs, d, e). 4096 dvd d \<and> 0x100000 \<le> d \<and> d \<le> e) (link_kernel orphans objs)"
    "sorted_wrt (\<lambda>(_, _, e) (_, d, _). e \<le> d) (link_kernel orphans objs)"
    by (simp_all add: link_kernel_def)
qed

text \<open>The multiboot header of boot.S, three words, is the first of the image.\<close>

lemma header_first:
  assumes "o_multiboot objs = (4, 12) # r"
  shows "hd (fst (hd (link_kernel orphans objs))) = 0x100000"
proof -
  have "align_up 4096 0x100000 = 0x100000" "align_up 4 0x100000 = 0x100000" by (simp_all add: align_up_def)
  then show ?thesis using assms by (simp add: link_kernel_def Let_def split_beta)
qed

lemma bss_inputs:
  assumes "inputs_ok orphans objs" "link_kernel orphans objs ! 3 = (addrs, d, e)" "(o_common objs @ o_bss objs) ! i = (a, n)"
    and "i < length (o_common objs @ o_bss objs)"
  shows "a dvd addrs ! i" "0x100000 \<le> addrs ! i" "addrs ! i + n \<le> e"
proof -
  have l: "put_inputs d (o_common objs @ o_bss objs) = (addrs, e)"
    using assms(2) by (auto simp: link_kernel_def Let_def split_beta numeral_3_eq_3)
  have d: "0x100000 \<le> d"
    using link_kernel_sections(1,2) [OF assms(1)] assms(2) by (auto simp: list_all_length dest!: spec [of _ 3])
  have "list_all (\<lambda>(a, n). 0 < a) (o_common objs @ o_bss objs)" using assms(1) by (simp add: inputs_ok_def)
  from put_inputs_range [OF this l]
  show "a dvd addrs ! i" "0x100000 \<le> addrs ! i" "addrs ! i + n \<le> e"
    using assms(3,4) d by (auto dest!: spec [of _ i])
qed

lemma page_aligned:
  assumes "4096 dvd n" "n < 2 ^ 32"
  shows "(of_nat n :: u32) AND 0xFFF = 0"
proof -
  have "(of_nat n :: u32) AND mask 12 = take_bit 12 (of_nat n)" by (simp add: take_bit_eq_mask)
  also have "\<dots> = of_nat (n mod 4096)"
    using assms(2) by (simp add: take_bit_eq_mod word_unat_eq_iff unat_mod unat_of_nat32)
  finally show ?thesis using assms(1) by (simp add: mask_numeral dvd_imp_mod_0)
qed

subsection \<open>Configuration\<close>

fun anywhere :: "(string \<Rightarrow> bool) \<Rightarrow> string \<Rightarrow> bool" where
  "anywhere P [] \<longleftrightarrow> P []"
| "anywhere P (c # cs) \<longleftrightarrow> P (c # cs) \<or> anywhere P cs"

definition digit :: "char \<Rightarrow> bool" where
  "digit c \<longleftrightarrow> c \<in> set ''0123456789''"

definition word_char :: "char \<Rightarrow> bool" where
  "word_char c \<longleftrightarrow> digit c \<or> c = CHR ''_'' \<or>
     c \<in> set ''abcdefghijklmnopqrstuvwxyzABCDEFGHIJKLMNOPQRSTUVWXYZ''"

definition default_host :: string where
  "default_host = ''i686-elf''"

text \<open>\<open>i[[:digit:]]86-\<close> anywhere in the triplet, or else its leading word.\<close>

definition target_triplet_to_arch :: "string \<Rightarrow> string" where
  "target_triplet_to_arch host =
     (if anywhere (\<lambda>cs. length cs \<ge> 5 \<and> cs ! 0 = CHR ''i'' \<and> digit (cs ! 1) \<and> take 3 (drop 2 cs) = ''86-'') host then ''i386''
      else takeWhile word_char host)"

text \<open>\<open>-elf($|-)\<close>\<close>

definition elf_target :: "string \<Rightarrow> bool" where
  "elf_target host \<longleftrightarrow> anywhere (\<lambda>cs. take 4 cs = ''-elf'' \<and> (length cs = 4 \<or> cs ! 4 = CHR ''-'')) host"

definition config_CC :: "string \<Rightarrow> string \<Rightarrow> string" where
  "config_CC pwd host =
     host @ ''-gcc'' @ '' --sysroot='' @ pwd @ ''/sysroot'' @ (if elf_target host then '' -isystem=/usr/include'' else [])"

lemma default_configuration:
  "target_triplet_to_arch default_host = ''i386''" "elf_target default_host"
  by (simp_all add: target_triplet_to_arch_def elf_target_def default_host_def digit_def)

subsection \<open>Properties\<close>

text \<open>C18: the kernel as it is linked keeps running when paging is turned on. Let the image end below four
  megabytes, and let the page table and the stack be where the linker puts uninitialised data
  with the alignment the sources ask for, wherever it puts the sections that the script does not name. Then the multiboot header is at the first address of the
  image, the stack is 16-byte aligned and in the image, as \<open>_start\<close> needs it, and after \<open>setup_paging\<close>
  the processor translates every address of the image, up to the end of the uninitialised data, to itself.\<close>

theorem linked_kernel_stays_mapped:
  fixes s :: "('d, 'z) paging_scheme" and stack_bottom :: u32
  assumes "inputs_ok orphans objs" "o_multiboot objs = (4, 12) # r" "link_kernel orphans objs ! 3 = (addrs, d, e)" "e \<le> 0x400000"
    and "table < length (o_common objs @ o_bss objs)" "(o_common objs @ o_bss objs) ! table = (4096, 4096)"
    and "stack < length (o_common objs @ o_bss objs)" "(o_common objs @ o_bss objs) ! stack = (16, 16384)"
    and "pt = of_nat (addrs ! table)" "stack_bottom = of_nat (addrs ! stack)" "tables_ok s"
  shows "hd (fst (hd (link_kernel orphans objs))) = 0x100000 \<and> unat stack_bottom mod 16 = 0
    \<and> 0x100000 \<le> unat stack_bottom \<and> unat stack_bottom + 16384 \<le> e
    \<and> (\<exists>t. setup_paging B pd pt s = ret t \<and> (\<forall>a. 0x100000 \<le> unat a \<and> unat a < e \<longrightarrow> translate pd pt t a = Some a))"
proof -
  note t = bss_inputs [OF assms(1,3,6,5)] and k = bss_inputs [OF assms(1,3,8,7)]
  have lt: "addrs ! stack < 2 ^ 32" "addrs ! table < 2 ^ 32" using assms(4) k(3) t(3) by simp_all
  have "unat stack_bottom = addrs ! stack" unfolding assms(10) by (rule unat_of_nat32 [OF lt(1)])
  moreover have "pt AND 0xFFF = 0" unfolding assms(9) by (rule page_aligned [OF t(1) lt(2)])
  then obtain t where "setup_paging B pd pt s = ret t" "\<forall>a. translate pd pt t a = (if a < 0x400000 then Some a else None)"
    using setup_paging_maps [OF assms(11), of pt B pd] by blast
  ultimately show ?thesis
    using header_first [OF assms(2)] k assms(4) by (auto simp: word_less_nat_alt)
qed

text \<open>A kernel with small sections.\<close>

definition sample_objects :: objects where
  "sample_objects = \<lparr>o_multiboot = [(4, 12)], o_text = [(16, 40000)], o_rodata = [(32, 9000)], o_data = [(32, 700)],
     o_common = [], o_bss = [(16, 16384), (4096, 4096), (4096, 4096), (32, 12000)]\<rparr>"

definition sample_orphans :: "nat \<Rightarrow> input list" where
  "sample_orphans k = (if k = 1 then [(4, 2000)] else [])"

lemma sample_link: "link_kernel sample_orphans sample_objects ! 3 = ([0x10E000, 0x112000, 0x113000, 0x114000], 0x10E000, 0x116EE0)"
proof -
  have "align_up 4096 0x100000 = 0x100000" "align_up 4 0x100000 = 0x100000" "align_up 16 0x10000C = 0x100010"
    "align_up 4096 0x109C50 = 0x10A000" "align_up 32 0x10A000 = 0x10A000" "align_up 4 0x10C328 = 0x10C328" "align_up 4096 0x10CAF8 = 0x10D000"
    "align_up 32 0x10D000 = 0x10D000" "align_up 4096 0x10D2BC = 0x10E000" "align_up 16 0x10E000 = 0x10E000"
    "align_up 4096 0x112000 = 0x112000" "align_up 4096 0x113000 = 0x113000" "align_up 32 0x114000 = 0x114000"
    by (simp_all add: align_up_def)
  then show ?thesis by (simp add: link_kernel_def sample_objects_def sample_orphans_def Let_def)
qed

theorem linked_kernel_stays_mapped_witness:
  "\<exists>t. link_kernel sample_orphans sample_objects ! 3 = ([0x10E000, 0x112000, 0x113000, 0x114000], 0x10E000, 0x116EE0)
    \<and> setup_paging idle_bus 0x112000 0x113000 (boot_paging ()) = ret t \<and> translate 0x112000 0x113000 t 0x100000 = Some 0x100000"
proof -
  have "tables_ok (boot_paging ())"
    by (simp add: tables_ok_def boot_paging_def net.extend_def paging.fields_def)
  moreover have "inputs_ok sample_orphans sample_objects" "o_multiboot sample_objects = [(4, 12)]" "o_common sample_objects = []"
    "o_bss sample_objects = [(16, 16384), (4096, 4096), (4096, 4096), (32, 12000)]"
    by (simp_all add: inputs_ok_def sample_objects_def sample_orphans_def)
  ultimately obtain t where "setup_paging idle_bus 0x112000 0x113000 (boot_paging ()) = ret t"
      "\<forall>a. 0x100000 \<le> unat a \<and> unat a < 0x116EE0 \<longrightarrow> translate 0x112000 0x113000 t a = Some a"
    using linked_kernel_stays_mapped [OF _ _ sample_link, of "[]" 2 0 "0x113000" "0x10E000" "boot_paging ()" idle_bus "0x112000"]
    by auto
  then show ?thesis using sample_link by (intro exI [of _ t]) (simp del: unat_u32_less)
qed

end
