(* ===== verification/Switch.thy ===== *)
theory Switch
  imports Cpu
begin

unbundle bit_operations_syntax

section \<open>Task switching\<close>

text \<open>
  The context switch of \<^verbatim>\<open>kernel/arch/i386/switch.S\<close>, called as
  \<open>switchTask(&old->regs, &new->regs)\<close> on the structures \<open>Registers\<close> that
  \<^verbatim>\<open>kernel/arch/i386/tty.c\<close> declares. The instructions are listed as in the file and run on
  the processor of \<^verbatim>\<open>Cpu\<close>. The theorems show that the context of the caller is saved
  and the context of the other task takes over, and that a task that is switched back to
  continues at its return address with the registers it had.
\<close>

record Registers =
  r_eax :: u32
  r_ebx :: u32
  r_ecx :: u32
  r_edx :: u32
  r_esi :: u32
  r_edi :: u32
  r_esp :: u32
  r_ebp :: u32
  r_eip :: u32
  r_eflags :: u32
  r_cr3 :: u32

text \<open>The structure as it lies in memory: eleven double words in the order of the declaration.\<close>

definition load_regs :: "mem \<Rightarrow> u32 \<Rightarrow> Registers" where
  "load_regs m a =
     \<lparr>r_eax = peek32 m a, r_ebx = peek32 m (a + 4), r_ecx = peek32 m (a + 8),
      r_edx = peek32 m (a + 12), r_esi = peek32 m (a + 16), r_edi = peek32 m (a + 20),
      r_esp = peek32 m (a + 24), r_ebp = peek32 m (a + 28), r_eip = peek32 m (a + 32),
      r_eflags = peek32 m (a + 36), r_cr3 = peek32 m (a + 40)\<rparr>"

definition save_frame :: "instr list" where
  "save_frame = [Pusha, Pushf, Mov_from_cr3 EAX, Push EAX]"

definition save_context :: "instr list" where
  "save_context =
     [Mov (Mem 44 ESP) (Reg EAX),
      Mov (Reg EBX) (Mem 4 EAX),
      Mov (Reg ECX) (Mem 8 EAX),
      Mov (Reg EDX) (Mem 12 EAX),
      Mov (Reg ESI) (Mem 16 EAX),
      Mov (Reg EDI) (Mem 20 EAX),
      Mov (Mem 36 ESP) (Reg EBX),
      Mov (Mem 40 ESP) (Reg ECX),
      Mov (Mem 20 ESP) (Reg EDX),
      Add 4 EDX,
      Mov (Mem 16 ESP) (Reg ESI),
      Mov (Mem 4 ESP) (Reg EDI),
      Mov (Reg EBX) (Mem 0 EAX),
      Mov (Reg EDX) (Mem 24 EAX),
      Mov (Reg ESI) (Mem 28 EAX),
      Mov (Reg ECX) (Mem 32 EAX),
      Mov (Reg EDI) (Mem 36 EAX),
      Pop EBX,
      Mov (Reg EBX) (Mem 40 EAX),
      Push EBX]"

definition load_context :: "instr list" where
  "load_context =
     [Mov (Mem 48 ESP) (Reg EAX),
      Mov (Mem 4 EAX) (Reg EBX),
      Mov (Mem 8 EAX) (Reg ECX),
      Mov (Mem 12 EAX) (Reg EDX),
      Mov (Mem 16 EAX) (Reg ESI),
      Mov (Mem 20 EAX) (Reg EDI),
      Mov (Mem 28 EAX) (Reg EBP),
      Push EAX,
      Mov (Mem 36 EAX) (Reg EAX),
      Push EAX,
      Popf,
      Pop EAX,
      Mov (Mem 24 EAX) (Reg ESP),
      Push EAX,
      Mov (Mem 40 EAX) (Reg EAX),
      Mov_to_cr3 EAX,
      Pop EAX,
      Push EAX,
      Mov (Mem 32 EAX) (Reg EAX),
      Xchg (Mem 0 ESP) EAX,
      Mov (Mem 0 EAX) (Reg EAX),
      Ret]"

definition switchTask :: "instr list" where
  "switchTask = save_frame @ save_context @ load_context"

text \<open>
  What a call of \<^term>\<open>switchTask\<close> needs of the memory: the stack of the caller (its
  frame is 48 bytes below and 12 above the stack pointer), the two structures and the
  slot below the new stack pointer are mapped to themselves, before and after the change
  of the page tables where they are used on both sides, and do not overlap.
\<close>

definition arg :: "nat \<Rightarrow> cpu \<Rightarrow> u32" where
  "arg i s = peek32 (store s) (regs s ESP + 4 * of_nat i)"

definition switch_layout :: "cpu \<Rightarrow> bool" where
  "switch_layout s =
     (let old = arg 1 s; new = arg 2 s; frame = regs s ESP - 48; slot = r_esp (load_regs (store s) new) - 4
      in apart frame 60 old 44 \<and> apart frame 60 new 44 \<and> apart old 44 new 44
         \<and> apart slot 4 old 44 \<and> apart slot 4 new 44)"

definition switch_ready :: "mmu \<Rightarrow> cpu \<Rightarrow> bool" where
  "switch_ready M s =
     (let old = arg 1 s; new = arg 2 s; R = load_regs (store s) new;
          frame = regs s ESP - 48; slot = r_esp R - 4
      in mapped M (ctrl3 s) frame 60 \<and> mapped M (ctrl3 s) old 44 \<and> mapped M (ctrl3 s) new 44
         \<and> mapped M (ctrl3 s) slot 4 \<and> mapped M (r_cr3 R) slot 4 \<and> mapped M (r_cr3 R) new 44
         \<and> switch_layout s)"

text \<open>The context a call saves, and the state that a context describes.\<close>

definition context_of :: "cpu \<Rightarrow> Registers" where
  "context_of s =
     \<lparr>r_eax = regs s EAX, r_ebx = regs s EBX, r_ecx = regs s ECX, r_edx = regs s EDX,
      r_esi = regs s ESI, r_edi = regs s EDI, r_esp = regs s ESP + 4, r_ebp = regs s EBP,
      r_eip = peek32 (store s) (regs s ESP), r_eflags = flags_image (eflags s), r_cr3 = ctrl3 s\<rparr>"

definition resumed :: "u32 \<Rightarrow> Registers \<Rightarrow> cpu \<Rightarrow> bool" where
  "resumed old R s \<longleftrightarrow>
     regs s EAX = r_eax R \<and> regs s EBX = r_ebx R \<and> regs s ECX = r_ecx R \<and> regs s EDX = r_edx R
     \<and> regs s ESI = r_esi R \<and> regs s EDI = r_edi R \<and> regs s ESP = r_esp R \<and> regs s EBP = r_ebp R
     \<and> eip s = r_eip R \<and> eflags s = flags_loaded old (r_eflags R) \<and> ctrl3 s = r_cr3 R"

subsection \<open>The three parts\<close>

lemma run_append: "run M (xs @ ys) s = bnd (run M xs s) (run M ys)"
proof (induction xs arbitrary: s)
  case (Cons x xs)
  then have "run M (xs @ ys) = (\<lambda>s. bnd (run M xs s) (run M ys))" by blast
  then show ?case by (simp add: bnd_assoc)
qed simp

lemmas exec_defs = push32_def pop32_def set_reg_def load32_mapped store32_mapped

lemma save_frame_run:
  assumes "mapped M (ctrl3 s) p 60" "regs s ESP = p + 48"
  shows "run M save_frame s = ret (s\<lparr>regs := (regs s)(ESP := p + 8, EAX := ctrl3 s),
    store := poke32 (p + 8) (ctrl3 s) (poke32 (p + 12) (flags_image (eflags s))
      (poke32 (p + 16) (regs s EDI) (poke32 (p + 20) (regs s ESI) (poke32 (p + 24) (regs s EBP)
      (poke32 (p + 28) (p + 48) (poke32 (p + 32) (regs s EBX) (poke32 (p + 36) (regs s EDX)
      (poke32 (p + 40) (regs s ECX) (poke32 (p + 44) (regs s EAX) (store s))))))))))\<rparr>)"
  using assms(2) mapped_word [OF assms(1)]
  by (simp add: save_frame_def exec_defs offset_arith fun_upd_twist)

lemma save_context_run:
  assumes "mapped M (ctrl3 s) p 60" "mapped M (ctrl3 s) a 44" "apart p 60 a 44"
    and "regs s ESP = p + 8" "peek32 (store s) (p + 52) = a"
  shows "run M save_context s = ret (s\<lparr>regs := (regs s)(ESP := p + 8, EAX := a, EBX := peek32 (store s) (p + 8),
      ECX := peek32 (store s) (p + 48), EDX := peek32 (store s) (p + 28) + 4,
      ESI := peek32 (store s) (p + 24), EDI := peek32 (store s) (p + 12)),
    eflags := add_flags (eflags s) (peek32 (store s) (p + 28)) 4,
    store := poke32 (p + 8) (peek32 (store s) (p + 8)) (poke32 (a + 40) (peek32 (store s) (p + 8))
      (poke32 (a + 36) (peek32 (store s) (p + 12)) (poke32 (a + 32) (peek32 (store s) (p + 48))
      (poke32 (a + 28) (peek32 (store s) (p + 24)) (poke32 (a + 24) (peek32 (store s) (p + 28) + 4)
      (poke32 a (peek32 (store s) (p + 44)) (poke32 (a + 20) (regs s EDI) (poke32 (a + 16) (regs s ESI)
      (poke32 (a + 12) (regs s EDX) (poke32 (a + 8) (regs s ECX) (poke32 (a + 4) (regs s EBX)
      (store s))))))))))))\<rparr>)"
proof -
  have "apart a 44 p 60" using assms(3) by (simp add: apart_sym)
  note ap = apart_words [OF this] apart_words [OF this, of 0, simplified]
  show ?thesis
    using assms(4,5) mapped_word [OF assms(1)] mapped_word [OF assms(2)]
      mapped_word [OF assms(2), of 0]
    by (simp add: save_context_def exec_defs offset_arith peek32_poke32_apart ap fun_upd_twist)
qed

lemma flag_and: "push_bit k 1 AND m = 0 \<Longrightarrow> flag k P AND m = 0"
  by (simp add: flag_def)

lemma add_flags_loaded: "flags_loaded (add_flags f x y) v = flags_loaded f v"
proof -
  have "(f AND NOT 0x8D5) AND NOT 0x257FD5 = f AND NOT (0x257FD5 :: u32)"
    by (simp add: and.assoc flip: bit.de_Morgan_disj)
  then have "add_flags f x y AND NOT 0x257FD5 = f AND NOT 0x257FD5"
    by (simp add: add_flags_def bit.conj_disj_distrib2 flag_and)
  then show ?thesis by (simp add: flags_loaded_def)
qed

lemma load_context_run:
  assumes "mapped M (ctrl3 s) p 60" "mapped M (ctrl3 s) n 44" "apart p 60 n 44"
    and "regs s ESP = p + 8" "peek32 (store s) (p + 56) = n" "R = load_regs (store s) n"
    and "mapped M (ctrl3 s) q 4" "r_esp R = q + 4" "mapped M (r_cr3 R) q 4" "mapped M (r_cr3 R) n 44"
    and "apart q 4 n 44"
  shows "\<exists>t. run M load_context s = ret t \<and> resumed (eflags s) R t
    \<and> store t = poke32 q (r_eip R) (poke32 q n (poke32 q n (poke32 p (r_eflags R) (poke32 (p + 4) n (store s)))))"
proof -
  note ap = apart_words [OF assms(3)] apart_words [OF assms(3), of 0, simplified]
    apart_words [OF assms(3), of _ 0, simplified] apart_words [OF assms(3), of 0 0, simplified]
    apart_words [OF assms(11), of 0, simplified] apart_words [OF assms(11), of 0 0, simplified]
    peek32_poke32_offsets [of 0 _ p, simplified]
  show ?thesis
    using assms(4,5,7,8,9) mapped_word [OF assms(1)] mapped_word [OF assms(2)]
      mapped_word [OF assms(1), of 0] mapped_word [OF assms(2), of 0]
      mapped_word [OF assms(10)] mapped_word [OF assms(10), of 0]
    by (simp add: load_context_def exec_defs offset_arith peek32_poke32_apart ap peek32_poke32_offsets
      assms(6) load_regs_def resumed_def)
qed

subsection \<open>The whole switch\<close>

lemma apart_block:
  assumes "apart a n b k" "unat i + j \<le> n" "n \<le> 2 ^ 32"
  shows "apart (a + i) j b k"
  using assms in_block_shift [of a i j _ n] by (auto simp: apart_def)

lemma load_regs_poke:
  assumes "apart a 4 b 44"
  shows "load_regs (poke32 a v m) b = load_regs m b"
  using apart_words [OF assms, of 0] apart_words [OF assms, of 0 0]
  by (simp add: load_regs_def peek32_poke32_apart)

lemma load_regs_saved:
  "load_regs (poke32 (a + 40) v10 (poke32 (a + 36) v9 (poke32 (a + 32) v8 (poke32 (a + 28) v7
     (poke32 (a + 24) v6 (poke32 a v0 (poke32 (a + 20) v5 (poke32 (a + 16) v4 (poke32 (a + 12) v3
     (poke32 (a + 8) v2 (poke32 (a + 4) v1 m))))))))))) a =
   \<lparr>r_eax = v0, r_ebx = v1, r_ecx = v2, r_edx = v3, r_esi = v4, r_edi = v5, r_esp = v6,
    r_ebp = v7, r_eip = v8, r_eflags = v9, r_cr3 = v10\<rparr>"
  by (simp add: load_regs_def peek32_poke32_offsets peek32_poke32_offsets [of 0 _ a, simplified]
    peek32_poke32_offsets [of _ 0 a, simplified])

lemma outside_word:
  assumes "\<not> in_block a n x" "unat i + 4 \<le> n" "n \<le> 2 ^ 32"
  shows "poke32 (a + i) v m x = m x"
  using assms in_block_shift [of a i 4 x n] by (auto intro: poke32_outside)

lemma save_runs:
  assumes "mapped M (ctrl3 s) p 60" "mapped M (ctrl3 s) a 44" "apart p 60 a 44" "apart p 60 n 44"
    and "apart a 44 n 44" "regs s ESP = p + 48" "peek32 (store s) (p + 52) = a" "peek32 (store s) (p + 56) = n"
  obtains t where "run M (save_frame @ save_context) s = ret t" "ctrl3 t = ctrl3 s" "regs t ESP = p + 8"
    and "\<And>v. flags_loaded (eflags t) v = flags_loaded (eflags s) v" "peek32 (store t) (p + 56) = n"
    and "load_regs (store t) a = context_of s" "load_regs (store t) n = load_regs (store s) n"
    and "\<And>x. \<not> in_block p 60 x \<Longrightarrow> \<not> in_block a 44 x \<Longrightarrow> store t x = store s x"
proof -
  note p_n = apart_block [OF assms(4), of _ 4]
  note p_a = apart_block [OF assms(3), of _ 4]
  note a_n = apart_block [OF assms(5), of _ 4] apart_block [OF assms(5), of 0 4, simplified]
  have "apart a 44 p 60" using assms(3) by (simp add: apart_sym)
  note ap = apart_words [OF this] apart_words [OF this, of 0, simplified]
  obtain s1 where s1: "run M save_frame s = ret s1" "ctrl3 s1 = ctrl3 s" "eflags s1 = eflags s"
    "regs s1 = (regs s)(ESP := p + 8, EAX := ctrl3 s)"
    "store s1 = poke32 (p + 8) (ctrl3 s) (poke32 (p + 12) (flags_image (eflags s))
      (poke32 (p + 16) (regs s EDI) (poke32 (p + 20) (regs s ESI) (poke32 (p + 24) (regs s EBP)
      (poke32 (p + 28) (p + 48) (poke32 (p + 32) (regs s EBX) (poke32 (p + 36) (regs s EDX)
      (poke32 (p + 40) (regs s ECX) (poke32 (p + 44) (regs s EAX) (store s))))))))))"
    using save_frame_run [OF assms(1,6)] by simp
  have frame: "peek32 (store s1) (p + 52) = a" "peek32 (store s1) (p + 56) = n"
    "peek32 (store s1) (p + 8) = ctrl3 s" "peek32 (store s1) (p + 12) = flags_image (eflags s)"
    "peek32 (store s1) (p + 24) = regs s EBP" "peek32 (store s1) (p + 28) = p + 48"
    "peek32 (store s1) (p + 44) = regs s EAX" "peek32 (store s1) (p + 48) = peek32 (store s) (p + 48)"
    using assms(7,8) by (simp_all add: s1(5) peek32_poke32_offsets)
  obtain t where t: "run M save_context s1 = ret t" "ctrl3 t = ctrl3 s" "regs t ESP = p + 8"
    "eflags t = add_flags (eflags s) (p + 48) 4"
    "store t = poke32 (p + 8) (ctrl3 s) (poke32 (a + 40) (ctrl3 s)
      (poke32 (a + 36) (flags_image (eflags s)) (poke32 (a + 32) (peek32 (store s) (p + 48))
      (poke32 (a + 28) (regs s EBP) (poke32 (a + 24) (p + 52)
      (poke32 a (regs s EAX) (poke32 (a + 20) (regs s EDI) (poke32 (a + 16) (regs s ESI)
      (poke32 (a + 12) (regs s EDX) (poke32 (a + 8) (regs s ECX) (poke32 (a + 4) (regs s EBX)
      (store s1))))))))))))"
    using save_context_run [of M s1 p a] assms(1,2,3) frame s1(2,3,4) by (simp add: offset_arith)
  show ?thesis
    by (rule that [of t]) (simp_all add: run_append s1 t add_flags_loaded load_regs_poke p_n p_a a_n
      load_regs_saved context_of_def assms(6,8) offset_arith peek32_poke32_offsets peek32_poke32_apart ap
      outside_word outside_word [of a 44 _ 0, simplified])
qed

lemma switch_runs:
  assumes "switch_ready M s"
  shows "\<exists>t. run M switchTask s = ret t \<and> resumed (eflags s) (load_regs (store s) (arg 2 s)) t
    \<and> load_regs (store t) (arg 1 s) = context_of s
    \<and> (\<forall>x. \<not> in_block (regs s ESP - 48) 60 x \<and> \<not> in_block (arg 1 s) 44 x
         \<and> \<not> in_block (r_esp (load_regs (store s) (arg 2 s)) - 4) 4 x \<longrightarrow> store t x = store s x)"
proof -
  define p a n where "p = regs s ESP - 48" and "a = arg 1 s" and "n = arg 2 s"
  define R where "R = load_regs (store s) n"
  define q where "q = r_esp R - 4"
  have ready: "mapped M (ctrl3 s) p 60" "mapped M (ctrl3 s) a 44" "mapped M (ctrl3 s) n 44"
    "mapped M (ctrl3 s) q 4" "mapped M (r_cr3 R) q 4" "mapped M (r_cr3 R) n 44"
    "apart p 60 a 44" "apart p 60 n 44" "apart a 44 n 44" "apart q 4 a 44" "apart q 4 n 44"
    using assms by (simp_all add: switch_ready_def switch_layout_def Let_def p_def a_def n_def R_def q_def)
  have esp: "regs s ESP = p + 48" and q: "r_esp R = q + 4" by (simp_all add: p_def q_def)
  have args: "peek32 (store s) (p + 52) = a" "peek32 (store s) (p + 56) = n"
    by (simp_all add: a_def n_def arg_def esp offset_arith)
  obtain s2 where s2: "run M (save_frame @ save_context) s = ret s2" "ctrl3 s2 = ctrl3 s"
    "regs s2 ESP = p + 8" "\<And>v. flags_loaded (eflags s2) v = flags_loaded (eflags s) v"
    "peek32 (store s2) (p + 56) = n" "load_regs (store s2) a = context_of s" "load_regs (store s2) n = R"
    "\<And>x. \<not> in_block p 60 x \<Longrightarrow> \<not> in_block a 44 x \<Longrightarrow> store s2 x = store s x"
    using save_runs [OF ready(1,2,7,8,9) esp args] unfolding R_def by blast
  obtain t where t: "run M load_context s2 = ret t" "resumed (eflags s2) R t"
    "store t = poke32 q (r_eip R) (poke32 q n (poke32 q n (poke32 p (r_eflags R) (poke32 (p + 4) n (store s2)))))"
    using load_context_run [of M s2 p n R q] ready s2(2,3,5,7) q by auto
  have "run M switchTask s = ret t"
    unfolding switchTask_def append_assoc [symmetric]
    by (simp only: run_append [of M "save_frame @ save_context"] s2(1) bnd_ret t(1))
  moreover have "resumed (eflags s) R t"
    using t(2) by (simp add: resumed_def s2(4))
  moreover have "load_regs (store t) a = context_of s"
    using apart_block [OF ready(7), of 0 4] apart_block [OF ready(7), of _ 4]
    by (simp add: t(3) s2(6) load_regs_poke ready(10))
  moreover have "store t x = store s x"
    if "\<not> in_block p 60 x" "\<not> in_block a 44 x" "\<not> in_block q 4 x" for x
    using that by (simp add: t(3) s2(8) outside_word outside_word [of p 60 x 0, simplified] poke32_outside)
  ultimately show ?thesis
    unfolding p_def [symmetric] a_def [symmetric] n_def [symmetric] R_def [symmetric] q_def [symmetric]
    by blast
qed

text \<open>The flags that \<open>PUSHF\<close> stores and \<open>POPF\<close> loads come back.\<close>

lemma flags_restored: "flags_loaded old (flags_image f) AND 0x247FD5 = f AND 0x247FD5"
proof -
  have "(NOT 0x257FD5 AND 0x247FD5 :: u32) = 0" "(0x00FCFFFF AND 0x247FD5 :: u32) = 0x247FD5"
    by simp_all
  then show ?thesis
    by (simp add: flags_loaded_def flags_image_def bit.conj_disj_distrib2 and.assoc)
qed

lemma switch_back_runs:
  assumes "switch_ready M s" "run M switchTask s = ret t" "switch_ready M u" "arg 2 u = arg 1 s"
    and "load_regs (store u) (arg 1 s) = load_regs (store t) (arg 1 s)"
  shows "\<exists>v. run M switchTask u = ret v
    \<and> (\<forall>r. regs v r = (if r = ESP then regs s ESP + 4 else regs s r))
    \<and> eip v = peek32 (store s) (regs s ESP) \<and> ctrl3 v = ctrl3 s
    \<and> eflags v AND 0x247FD5 = eflags s AND 0x247FD5"
proof -
  have "load_regs (store u) (arg 2 u) = context_of s"
    using switch_runs [OF assms(1)] assms(2,4,5) by auto
  then obtain v where "run M switchTask u = ret v" "resumed (eflags u) (context_of s) v"
    using switch_runs [OF assms(3)] by auto
  moreover have "regs v r = (if r = ESP then regs s ESP + 4 else regs s r)" for r
    using \<open>resumed (eflags u) (context_of s) v\<close>
    by (cases r) (simp_all add: resumed_def context_of_def)
  ultimately show ?thesis
    by (auto simp: resumed_def context_of_def flags_restored)
qed

text \<open>Two tasks of a small kernel: their structures, a stack for each, all mapped to themselves.\<close>

definition flat :: mmu where
  "flat c a = Some a"

definition first_call :: cpu where
  "first_call =
     \<lparr>regs = (\<lambda>r. case r of ESP \<Rightarrow> 0x8000 | EBX \<Rightarrow> 0x42 | _ \<Rightarrow> 7), eip = 0, eflags = 0x202, ctrl3 = 0x5000,
      store = poke32 0x8000 0xC0DE (poke32 0x8004 0x1000 (poke32 0x8008 0x2000
        (poke32 0x2018 0x9000 (poke32 0x2020 0xBEEF (poke32 0x2028 0x6000 (\<lambda>_. 0))))))\<rparr>"

definition second_call :: "cpu \<Rightarrow> cpu" where
  "second_call t = t\<lparr>regs := (regs t)(ESP := 0x8800),
     store := poke32 0x8804 0x2000 (poke32 0x8808 0x1000 (store t))\<rparr>"

lemma mapped_flat: "mapped flat c a n"
  by (simp add: mapped_def flat_def)

lemma apart_numerals:
  "unat a + n \<le> unat b \<and> unat b + k \<le> 2 ^ 32 \<or> unat b + k \<le> unat a \<and> unat a + n \<le> 2 ^ 32 \<Longrightarrow> apart a n b k"
  using apart_below [of a n b k] apart_below [of b k a n] by auto

lemma first_call_args: "arg 1 first_call = 0x1000" "arg 2 first_call = 0x2000"
  "r_esp (load_regs (store first_call) 0x2000) = 0x9000"
  by (simp_all add: arg_def first_call_def load_regs_def peek32_poke32_apart apart_numerals)

lemma first_call_ready: "switch_ready flat first_call"
  unfolding switch_ready_def switch_layout_def Let_def first_call_args
  by (simp add: mapped_flat apart_numerals) (simp add: first_call_def apart_numerals)

lemma second_call_ready:
  assumes "run flat switchTask first_call = ret t"
  shows "switch_ready flat (second_call t)" "arg 2 (second_call t) = arg 1 first_call"
    "load_regs (store (second_call t)) (arg 1 first_call) = load_regs (store t) (arg 1 first_call)"
proof -
  have saved: "load_regs (store t) 0x1000 = context_of first_call"
    using switch_runs [OF first_call_ready, unfolded first_call_args] assms by auto
  have args: "arg 1 (second_call t) = 0x2000" "arg 2 (second_call t) = 0x1000"
    by (simp_all add: arg_def second_call_def peek32_poke32_apart apart_numerals)
  then show "arg 2 (second_call t) = arg 1 first_call" by (simp only: first_call_args)
  have kept: "load_regs (store (second_call t)) 0x1000 = load_regs (store t) 0x1000"
    by (simp add: second_call_def load_regs_poke apart_numerals)
  then show "load_regs (store (second_call t)) (arg 1 first_call) = load_regs (store t) (arg 1 first_call)"
    by (simp only: first_call_args)
  have "r_esp (context_of first_call) = 0x8004"
    by (simp add: context_of_def first_call_def)
  then show "switch_ready flat (second_call t)"
    unfolding switch_ready_def switch_layout_def Let_def args kept saved
    by (simp add: mapped_flat apart_numerals) (simp add: second_call_def apart_numerals)
qed

subsection \<open>Initialisation and finalisation sections\<close>

text \<open>
  \<^verbatim>\<open>crti.S\<close> and \<^verbatim>\<open>crtn.S\<close> open and close the functions \<open>_init\<close> and \<open>_fini\<close>; the
  compiler's object files put their code in between, which is the parameter \<open>body\<close>. Code that
  keeps the stack pointer and the two words of the frame returns to the caller with the
  caller's frame pointer.
\<close>

definition crt_prologue :: "instr list" where
  "crt_prologue = [Push EBP, Mov (Reg ESP) (Reg EBP)]"

definition crt_epilogue :: "instr list" where
  "crt_epilogue = [Pop EBP, Ret]"

definition init_section :: "instr list \<Rightarrow> instr list" where
  "init_section body = crt_prologue @ body @ crt_epilogue"

lemma init_section_returns:
  assumes "regs s ESP = p + 4" "mapped M (ctrl3 s) p 8"
    and "run M body (s\<lparr>regs := (regs s)(ESP := p, EBP := p), store := poke32 p (regs s EBP) (store s)\<rparr>) = ret t"
    and "regs t ESP = p" "ctrl3 t = ctrl3 s" "peek32 (store t) p = regs s EBP"
    and "peek32 (store t) (p + 4) = peek32 (store s) (p + 4)"
  shows "\<exists>u. run M (init_section body) s = ret u \<and> regs u EBP = regs s EBP
    \<and> regs u ESP = regs s ESP + 4 \<and> eip u = peek32 (store s) (regs s ESP)"
proof -
  have "run M crt_prologue s = ret (s\<lparr>regs := (regs s)(ESP := p, EBP := p), store := poke32 p (regs s EBP) (store s)\<rparr>)"
    using assms(1) mapped_word [OF assms(2), of 0] by (simp add: crt_prologue_def exec_defs)
  moreover have "run M crt_epilogue t = ret (t\<lparr>regs := (regs t)(ESP := p + 8, EBP := regs s EBP),
      eip := peek32 (store s) (p + 4)\<rparr>)"
    using assms(4,5,6,7) mapped_word [OF assms(2), of 0] mapped_word [OF assms(2), of 4]
    by (simp add: crt_epilogue_def exec_defs offset_arith fun_upd_twist)
  ultimately show ?thesis
    using assms(1,3) by (simp add: init_section_def run_append offset_arith)
qed

subsection \<open>Properties\<close>

text \<open>
  C10: A call of \<^verbatim>\<open>switchTask\<close> saves the context of the caller in the first structure and
  continues with the registers, stack, flags, page tables and instruction pointer that the
  second structure holds. Memory outside the caller's frame, the first structure and the word
  below the new stack pointer is unchanged.
\<close>

theorem switchTask_switches_context:
  assumes "switch_ready M s"
  shows "\<exists>t. run M switchTask s = ret t \<and> resumed (eflags s) (load_regs (store s) (arg 2 s)) t
    \<and> load_regs (store t) (arg 1 s) = context_of s
    \<and> (\<forall>x. \<not> in_block (regs s ESP - 48) 60 x \<and> \<not> in_block (arg 1 s) 44 x
         \<and> \<not> in_block (r_esp (load_regs (store s) (arg 2 s)) - 4) 4 x \<longrightarrow> store t x = store s x)"
  by (rule switch_runs [OF assms])

theorem switchTask_switches_context_witness:
  "switch_ready flat first_call \<and> (\<exists>t. run flat switchTask first_call = ret t \<and> regs t ESP = 0x9000
     \<and> eip t = 0xBEEF \<and> ctrl3 t = 0x6000 \<and> r_eip (load_regs (store t) 0x1000) = 0xC0DE)"
proof -
  have "load_regs (store first_call) 0x2000 =
      \<lparr>r_eax = 0, r_ebx = 0, r_ecx = 0, r_edx = 0, r_esi = 0, r_edi = 0, r_esp = 0x9000, r_ebp = 0,
       r_eip = 0xBEEF, r_eflags = 0, r_cr3 = 0x6000\<rparr>"
    by (simp add: first_call_def load_regs_def peek32_poke32_apart apart_numerals)
      (simp add: peek32_def le32_def)
  moreover have "r_eip (context_of first_call) = 0xC0DE"
    by (simp add: context_of_def first_call_def)
  ultimately show ?thesis
    using switchTask_switches_context [OF first_call_ready, unfolded first_call_args] first_call_ready
    by (auto simp: resumed_def)
qed

text \<open>
  C11: A task that was switched away from and is switched back to, with its structure intact,
  continues at its return address with every register it had at the call, the stack pointer past
  the return address, its page tables, and its flags.
\<close>

theorem switch_back_resumes_task:
  assumes "switch_ready M s" "run M switchTask s = ret t" "switch_ready M u" "arg 2 u = arg 1 s"
    and "load_regs (store u) (arg 1 s) = load_regs (store t) (arg 1 s)"
  shows "\<exists>v. run M switchTask u = ret v
    \<and> (\<forall>r. regs v r = (if r = ESP then regs s ESP + 4 else regs s r))
    \<and> eip v = peek32 (store s) (regs s ESP) \<and> ctrl3 v = ctrl3 s
    \<and> eflags v AND 0x247FD5 = eflags s AND 0x247FD5"
  using assms by (rule switch_back_runs)

theorem switch_back_resumes_task_witness:
  "\<exists>t v. run flat switchTask first_call = ret t \<and> run flat switchTask (second_call t) = ret v
     \<and> regs v EBX = 0x42 \<and> regs v ESP = 0x8004 \<and> eip v = 0xC0DE \<and> ctrl3 v = 0x5000"
proof -
  obtain t where t: "run flat switchTask first_call = ret t"
    using switch_runs [OF first_call_ready] by auto
  from switch_back_resumes_task [OF first_call_ready t second_call_ready [OF t]]
  show ?thesis
    using t by (auto simp: first_call_def)
qed

end
