(* ===== verification/Bitcount.thy ===== *)
theory Bitcount
  imports Prelude
begin

unbundle bit_operations_syntax

section \<open>Population count\<close>

text \<open>
  The population counts of \<^verbatim>\<open>libc/include/sys/bitcount.h\<close>, which add up the bits of a word
  inside the word itself: pairs, then nibbles, then bytes. Both variants of the 64-bit
  function are here, the one for a 64-bit \<open>long\<close> and the one for the i386. The theorem shows
  that each of them is the number of bits set.
\<close>

definition bitcount16 :: "u16 \<Rightarrow> u16" where
  "bitcount16 x =
     (let x = (x AND 0x5555) + drop_bit 1 (x AND 0xaaaa);
          x = (x AND 0x3333) + drop_bit 2 (x AND 0xcccc);
          x = (x + drop_bit 4 x) AND 0x0f0f;
          x = (x + drop_bit 8 x) AND 0x00ff
      in x)"

definition bitcount32 :: "u32 \<Rightarrow> u32" where
  "bitcount32 x =
     (let x = (x AND 0x55555555) + drop_bit 1 (x AND 0xaaaaaaaa);
          x = (x AND 0x33333333) + drop_bit 2 (x AND 0xcccccccc);
          x = (x + drop_bit 4 x) AND 0x0f0f0f0f;
          x = x + drop_bit 8 x;
          x = (x + drop_bit 16 x) AND 0x000000ff
      in x)"

definition bitcount64_lp64 :: "u64 \<Rightarrow> u64" where
  "bitcount64_lp64 x =
     (let x = (x AND 0x5555555555555555) + drop_bit 1 (x AND 0xaaaaaaaaaaaaaaaa);
          x = (x AND 0x3333333333333333) + drop_bit 2 (x AND 0xcccccccccccccccc);
          x = (x + drop_bit 4 x) AND 0x0f0f0f0f0f0f0f0f;
          x = x + drop_bit 8 x;
          x = x + drop_bit 16 x;
          x = (x + drop_bit 32 x) AND 0x000000ff
      in x)"

definition bitcount64 :: "u64 \<Rightarrow> u64" where
  "bitcount64 x = ucast (bitcount32 (ucast (drop_bit 32 x)) + bitcount32 (ucast x))"

text \<open>The reference: the number of positions at which the word has a bit.\<close>

definition population :: "'a :: len word \<Rightarrow> nat" where
  "population x = length (filter (bit x) [0..<LENGTH('a)])"

subsection \<open>Numbers as sequences of fields\<close>

text \<open>
  A number cut into fields of \<open>k\<close> bits, lowest first. Masking, shifting by a field and adding
  act on the fields as long as no field overflows.
\<close>

definition fields :: "nat \<Rightarrow> nat list \<Rightarrow> nat" where
  "fields k ds = horner_sum id (2 ^ k) ds"

fun plus_fields :: "nat list \<Rightarrow> nat list \<Rightarrow> nat list" where
  "plus_fields (x # xs) (y # ys) = (x + y) # plus_fields xs ys"
| "plus_fields xs [] = xs"
| "plus_fields [] ys = ys"

fun evens :: "'a list \<Rightarrow> 'a list" where
  "evens (x # y # r) = x # evens r"
| "evens [x] = [x]"
| "evens [] = []"

fun pair_sums :: "nat list \<Rightarrow> nat list" where
  "pair_sums (x # y # r) = (x + y) # pair_sums r"
| "pair_sums xs = xs"

text \<open>The mask that keeps every other of \<open>2 * n\<close> fields.\<close>

definition low_fields :: "nat \<Rightarrow> nat \<Rightarrow> nat" where
  "low_fields k n = fields (2 * k) (replicate n (2 ^ k - 1))"

lemma fields_simps [simp]: "fields k [] = 0" "fields k (d # ds) = d + 2 ^ k * fields k ds"
  by (simp_all add: fields_def)

lemma and_cons:
  assumes "a < 2 ^ k" "b < (2 :: nat) ^ k"
  shows "(a + 2 ^ k * x) AND (b + 2 ^ k * y) = (a AND b) + 2 ^ k * (x AND y)"
proof -
  have cut: "take_bit k (c + 2 ^ k * z) = c" "drop_bit k (c + 2 ^ k * z) = z" if "c < 2 ^ k" for c z :: nat
    using that by (simp_all add: take_bit_eq_mod drop_bit_eq_div)
  show ?thesis
    using bits_ident [of k "(a + 2 ^ k * x) AND (b + 2 ^ k * y)"] assms
    by (simp add: cut push_bit_eq_mult) (metis add.commute mult.commute)
qed

lemma fields_plus: "fields k xs + fields k ys = fields k (plus_fields xs ys)"
  by (induction xs ys rule: plus_fields.induct) (simp_all add: add.assoc add.left_commute flip: distrib_left)

lemma fields_less: "(\<And>d. d \<in> set ds \<Longrightarrow> d < 2 ^ k) \<Longrightarrow> fields k ds < 2 ^ (k * length ds)"
proof (induction ds)
  case (Cons d ds)
  then have "d < 2 ^ k" "fields k ds + 1 \<le> 2 ^ (k * length ds)" by (simp_all add: Suc_le_eq)
  then have "d + 2 ^ k * fields k ds < 2 ^ k * (fields k ds + 1)" by simp
  also have "\<dots> \<le> 2 ^ k * 2 ^ (k * length ds)"
    using \<open>fields k ds + 1 \<le> _\<close> by (intro mult_le_mono2)
  finally show ?case by (simp add: power_add)
qed simp

lemma fields_drop:
  assumes "\<And>d. d \<in> set ds \<Longrightarrow> d < 2 ^ k"
  shows "drop_bit (k * n) (fields k ds) = fields k (drop n ds)"
  using assms
proof (induction n arbitrary: ds)
  case (Suc n)
  show ?case
  proof (cases ds)
    case (Cons d r)
    then have "drop_bit k (fields k ds) = fields k r"
      using Suc.prems [of d] by (simp add: drop_bit_eq_div)
    moreover have "drop_bit (k * n) (drop_bit k (fields k ds)) = drop_bit (k * Suc n) (fields k ds)"
      by (simp add: drop_bit_drop_bit add.commute)
    ultimately show ?thesis
      using Suc.IH [of r] Suc.prems Cons by simp
  qed simp
qed simp

lemma two_fields:
  assumes "x < 2 ^ k" "y < (2 :: nat) ^ k"
  shows "x + 2 ^ k * y < 2 ^ (2 * k)" "2 ^ k - 1 < (2 :: nat) ^ (2 * k)"
  using fields_less [of "[x, y]" k] assms
  by (auto simp: mult_2 intro: less_le_trans [of _ "2 ^ k"])

lemma fields_mask:
  assumes "\<And>d. d \<in> set ds \<Longrightarrow> d < 2 ^ k" "length ds \<le> 2 * n"
  shows "fields k ds AND low_fields k n = fields (2 * k) (evens ds)"
  using assms
proof (induction ds arbitrary: n rule: evens.induct)
  case (1 x y r)
  then obtain m where m: "n = Suc m" by (cases n) auto
  have xy: "x < 2 ^ k" "y < 2 ^ k" using 1(2) by simp_all
  have "(x + 2 ^ k * y) AND (2 ^ k - 1) = x"
    unfolding mask_eq_exp_minus_1 [symmetric] take_bit_eq_mask [symmetric]
    using xy by (simp add: take_bit_eq_mod)
  moreover have "fields k (x # y # r) = (x + 2 ^ k * y) + 2 ^ (2 * k) * fields k r"
    by (simp add: distrib_left power_add mult_2)
  moreover have "low_fields k n = (2 ^ k - 1) + 2 ^ (2 * k) * low_fields k m"
    by (simp add: low_fields_def m)
  ultimately show ?case
    using and_cons [OF two_fields [OF xy]] 1 by (simp add: m del: fields_simps) simp
next
  case (2 x)
  then obtain m where m: "n = Suc m" by (cases n) auto
  have x: "x < 2 ^ k" "0 < (2 :: nat) ^ k" using "2"(1) by simp_all
  have "x AND (2 ^ k - 1) = x"
    unfolding mask_eq_exp_minus_1 [symmetric] take_bit_eq_mask [symmetric]
    using x by (simp add: take_bit_eq_mod)
  then show ?case
    using and_cons [OF two_fields [OF x], of 0] by (simp add: low_fields_def m)
qed simp

lemma evens_Cons: "evens (y # r) = y # evens (tl r)"
  by (cases r) simp_all

lemma evens_pairs: "plus_fields (evens ds) (evens (tl ds)) = pair_sums ds"
  by (induction ds rule: pair_sums.induct) (simp_all add: evens_Cons)

lemma plus_fields_Nil [simp]: "plus_fields xs [] = xs" "plus_fields [] ys = ys"
  by (cases xs, simp_all) (cases ys, simp_all)

lemma evens_plus: "evens (plus_fields xs ys) = plus_fields (evens xs) (evens ys)"
proof (induction xs arbitrary: ys rule: evens.induct)
  case (1 x y r)
  show ?case
  proof (cases ys rule: evens.cases)
    case (1 u v t)
    then show ?thesis using "1.IH" [of t] by simp
  qed simp_all
next
  case (2 x)
  then show ?case by (cases ys rule: evens.cases) simp_all
qed simp

lemma plus_fields_bound:
  assumes "\<And>d. d \<in> set xs \<Longrightarrow> d \<le> b" "\<And>d. d \<in> set ys \<Longrightarrow> d \<le> c"
  shows "d \<in> set (plus_fields xs ys) \<Longrightarrow> d \<le> b + c"
  using assms by (induction xs ys rule: plus_fields.induct) (auto intro: add_mono trans_le_add1 trans_le_add2)

lemma length_plus_fields [simp]: "length (plus_fields xs ys) = max (length xs) (length ys)"
  by (induction xs ys rule: plus_fields.induct) auto

lemma pair_sums_bound:
  assumes "\<And>d. d \<in> set ds \<Longrightarrow> d \<le> b"
  shows "d \<in> set (pair_sums ds) \<Longrightarrow> d \<le> b + b"
  using assms by (induction ds rule: pair_sums.induct) (auto intro: add_mono trans_le_add1)

lemma length_pair_sums: "length ds = 2 * n \<Longrightarrow> length (pair_sums ds) = n"
proof (induction ds arbitrary: n rule: pair_sums.induct)
  case (1 x y r)
  then show ?case by (cases n) simp_all
qed simp_all

lemma sum_pair_sums [simp]: "sum_list (pair_sums ds) = sum_list ds"
  by (induction ds rule: pair_sums.induct) simp_all

subsection \<open>The steps of the algorithms\<close>

text \<open>\<open>holds x k b ds\<close>: the word \<open>x\<close> consists of the fields \<open>ds\<close> of \<open>k\<close> bits, each at most \<open>b\<close>.\<close>

definition holds :: "'a :: len word \<Rightarrow> nat \<Rightarrow> nat \<Rightarrow> nat list \<Rightarrow> bool" where
  "holds x k b ds \<longleftrightarrow> unat x = fields k ds \<and> (\<forall>d \<in> set ds. d \<le> b) \<and> k * length ds = LENGTH('a)"

lemma holds_bits:
  fixes x :: "'a :: len word"
  shows "holds x 1 1 (map (\<lambda>i. of_bool (bit x i)) [0..<LENGTH('a)])"
proof -
  have "fields 1 (map (\<lambda>i. of_bool (bit x i)) [0..<LENGTH('a)]) =
      horner_sum of_bool 2 (map (bit (unat x)) [0..<LENGTH('a)])"
    by (simp add: fields_def horner_sum_foldr foldr_map comp_def bit_unsigned_iff)
  also have "\<dots> = unat x"
    unfolding horner_sum_bit_eq_take_bit by (rule take_bit_nat_eq_self) (rule unsigned_less)
  finally show ?thesis by (simp add: holds_def)
qed

lemma unat_add_fields:
  fixes x y :: "'a :: len word"
  assumes "unat x + unat y = fields k ds" "\<And>d. d \<in> set ds \<Longrightarrow> d < 2 ^ k" "k * length ds \<le> LENGTH('a)"
  shows "unat (x + y) = fields k ds"
proof -
  have "fields k ds < 2 ^ LENGTH('a)"
    using fields_less [of ds k] assms(2,3) by (meson less_le_trans one_le_numeral power_increasing)
  with assms(1) show ?thesis by (simp add: unat_word_ariths)
qed

lemma word_pairs:
  fixes x :: "'a :: len word"
  assumes "holds x k b ds" "b < 2 ^ k" "b + b < 2 ^ (2 * k)" "length ds = 2 * n"
    and "unat lo = low_fields k n" "drop_bit k hi = lo"
  shows "holds ((x AND lo) + drop_bit k (x AND hi)) (2 * k) (b + b) (pair_sums ds)"
proof -
  have d: "d < 2 ^ k" if "d \<in> set ds" for d using assms(1,2) that by (auto simp: holds_def intro: le_less_trans)
  then have tl: "d < 2 ^ k" if "d \<in> set (tl ds)" for d using that by (cases ds) auto
  have x: "unat x = fields k ds" "k * length ds = LENGTH('a)" using assms(1) by (simp_all add: holds_def)
  have "unat (x AND lo) = fields (2 * k) (evens ds)"
    using fields_mask [OF d, where n = n] assms(4,5) x by (simp add: unsigned_and_eq)
  moreover have "unat (drop_bit k (x AND hi)) = fields (2 * k) (evens (tl ds))"
    using fields_mask [OF tl, where n = n] fields_drop [OF d, where n = 1] assms(4,5,6) x
    by (simp add: unsigned_and_eq drop_bit_and unat_drop_bit_eq drop_Suc)
  moreover have "\<forall>e \<in> set (pair_sums ds). e \<le> b + b"
    using assms(1) pair_sums_bound [of ds b] by (auto simp: holds_def)
  ultimately show ?thesis
    using unat_add_fields [of "x AND lo" "drop_bit k (x AND hi)" "2 * k" "pair_sums ds"] assms(3,4) x
    by (auto simp: holds_def fields_plus evens_pairs length_pair_sums intro: le_less_trans)
qed

lemma shift_add:
  fixes x :: "'a :: len word"
  assumes "holds x k b ds" "b + b < 2 ^ k"
  shows "holds (x + drop_bit (k * m) x) k (b + b) (plus_fields ds (drop m ds))"
proof -
  have x: "unat x = fields k ds" "k * length ds = LENGTH('a)" "\<And>d. d \<in> set ds \<Longrightarrow> d \<le> b"
    using assms(1) by (simp_all add: holds_def)
  have "d < 2 ^ k" if "d \<in> set ds" for d using x(3) [OF that] assms(2) by simp
  then have "unat (drop_bit (k * m) x) = fields k (drop m ds)"
    using fields_drop [of ds k m] x by (simp add: unat_drop_bit_eq)
  moreover have "e \<le> b + b" if "e \<in> set (plus_fields ds (drop m ds))" for e
    using that x(3) plus_fields_bound [of ds b "drop m ds" b] by (auto dest: in_set_dropD)
  ultimately show ?thesis
    using unat_add_fields [of x "drop_bit (k * m) x" k "plus_fields ds (drop m ds)"] assms(2) x
    by (auto simp: holds_def fields_plus intro: le_less_trans)
qed

lemma word_neighbours:
  fixes x :: "'a :: len word"
  assumes "holds x k b ds" "b + b < 2 ^ k" "length ds = 2 * n" "unat lo = low_fields k n"
  shows "holds ((x + drop_bit k x) AND lo) (2 * k) (b + b) (pair_sums ds)"
proof -
  have s: "holds (x + drop_bit k x) k (b + b) (plus_fields ds (tl ds))"
    using shift_add [OF assms(1,2), of 1] by (simp add: drop_Suc)
  have "evens (plus_fields ds (tl ds)) = pair_sums ds"
    by (simp add: evens_plus evens_pairs)
  moreover have "\<forall>e \<in> set (pair_sums ds). e \<le> b + b"
    using assms(1) pair_sums_bound [of ds b] by (auto simp: holds_def)
  ultimately show ?thesis
    using fields_mask [of "plus_fields ds (tl ds)" k n] s assms
    by (auto simp: holds_def unsigned_and_eq length_pair_sums intro: le_less_trans)
qed

lemma last_byte:
  fixes x :: "'a :: len word"
  assumes "holds x 8 b (d # ds)" "b < 256" "(0xff :: 'a word) = mask 8"
  shows "unat (x AND 0xff) = d"
proof -
  have "unat x = d + 256 * fields 8 ds" "d < 256" using assms(1,2) by (simp_all add: holds_def)
  then have "unat x mod 256 = d" by simp
  then show ?thesis
    unfolding assms(3) take_bit_eq_mask [symmetric] unsigned_take_bit_eq by (simp add: take_bit_eq_mod)
qed

subsection \<open>The counts\<close>

lemma population_sum:
  "population (x :: 'a :: len word) = sum_list (map (\<lambda>i. of_bool (bit x i)) [0..<LENGTH('a)])"
proof -
  have "length (filter P xs) = sum_list (map (\<lambda>i. of_bool (P i)) xs)" for P and xs :: "nat list"
    by (induction xs) simp_all
  then show ?thesis by (simp add: population_def)
qed

lemma bytes_counted:
  fixes x :: "'a :: len word"
  assumes "LENGTH('a) = 8 * n"
    and "unat l1 = low_fields 1 (4 * n)" "drop_bit 1 h1 = l1"
    and "unat l2 = low_fields 2 (2 * n)" "drop_bit 2 h2 = l2" "unat l4 = low_fields 4 n"
  defines "y \<equiv> (x AND l1) + drop_bit 1 (x AND h1)"
  defines "z \<equiv> (y AND l2) + drop_bit 2 (y AND h2)"
  shows "\<exists>ds. holds ((z + drop_bit 4 z) AND l4) 8 8 ds \<and> length ds = n \<and> sum_list ds = population x"
proof -
  let ?b = "map (\<lambda>i. of_bool (bit x i)) [0..<LENGTH('a)] :: nat list"
  have y: "holds y 2 2 (pair_sums ?b)"
    using word_pairs [OF holds_bits, of x "4 * n" l1 h1] assms(1,2,3) by (simp add: y_def numeral_2_eq_2)
  have l: "length (pair_sums ?b) = 4 * n" using assms(1) by (intro length_pair_sums) simp
  have z: "holds z 4 4 (pair_sums (pair_sums ?b))"
    using word_pairs [OF y, of "2 * n" l2 h2] l assms(4,5) by (simp add: z_def)
  have l': "length (pair_sums (pair_sums ?b)) = 2 * n" using l by (intro length_pair_sums [of "pair_sums ?b"]) simp
  have "holds ((z + drop_bit 4 z) AND l4) 8 8 (pair_sums (pair_sums (pair_sums ?b)))"
    using word_neighbours [OF z, of n l4] l' assms(6) by simp
  moreover have "length (pair_sums (pair_sums (pair_sums ?b))) = n"
    using l' by (rule length_pair_sums)
  ultimately show ?thesis by (auto simp: population_sum)
qed

lemmas low_fields_simps = low_fields_def replicate_numeral

lemma add_2_bytes:
  fixes w :: u16
  assumes "holds w 8 8 ds" "length ds = 2"
  shows "unat ((w + drop_bit 8 w) AND 0xff) = sum_list ds"
proof -
  obtain a b where ds: "ds = [a, b]" using assms(2) by (auto simp: numeral_2_eq_2 length_Suc_conv)
  have "holds (w + drop_bit 8 w) 8 16 [a + b, b]"
    using shift_add [OF assms(1), of 1] by (simp add: ds)
  from last_byte [OF this] show ?thesis by (simp add: ds mask_numeral)
qed

lemma add_4_bytes:
  fixes w :: u32
  assumes "holds w 8 8 ds" "length ds = 4"
  shows "unat (((w + drop_bit 8 w) + drop_bit 16 (w + drop_bit 8 w)) AND 0xff) = sum_list ds"
proof -
  obtain a b c d where ds: "ds = [a, b, c, d]" using assms(2) by (auto simp: eval_nat_numeral length_Suc_conv)
  have "holds (w + drop_bit 8 w) 8 16 [a + b, b + c, c + d, d]"
    using shift_add [OF assms(1), of 1] by (simp add: ds)
  from shift_add [OF this, of 2]
  have "holds ((w + drop_bit 8 w) + drop_bit 16 (w + drop_bit 8 w)) 8 32
      [a + b + (c + d), b + c + d, c + d, d]" by simp
  from last_byte [OF this] show ?thesis by (simp add: ds mask_numeral)
qed

lemma add_8_bytes:
  fixes w :: u64
  assumes "holds w 8 8 ds" "length ds = 8"
  defines "x \<equiv> w + drop_bit 8 w"
  defines "y \<equiv> x + drop_bit 16 x"
  shows "unat ((y + drop_bit 32 y) AND 0xff) = sum_list ds"
proof -
  obtain a b c d e f g h where ds: "ds = [a, b, c, d, e, f, g, h]"
    using assms(2) by (auto simp: eval_nat_numeral length_Suc_conv)
  have "holds x 8 16 [a + b, b + c, c + d, d + e, e + f, f + g, g + h, h]"
    using shift_add [OF assms(1), of 1] by (simp add: ds x_def)
  from shift_add [OF this, of 2] have "holds y 8 32 [a + b + (c + d), b + c + (d + e), c + d + (e + f),
      d + e + (f + g), e + f + (g + h), f + g + h, g + h, h]" by (simp add: y_def)
  from shift_add [OF this, of 4] have "holds (y + drop_bit 32 y) 8 64 [a + b + (c + d) + (e + f + (g + h)),
      b + c + (d + e) + (f + g + h), c + d + (e + f) + (g + h), d + e + (f + g) + h, e + f + (g + h),
      f + g + h, g + h, h]" by simp
  from last_byte [OF this] show ?thesis by (simp add: ds mask_numeral)
qed

lemma bitcount16_population: "unat (bitcount16 x) = population x"
  using bytes_counted [of 2 "0x5555" "0xaaaa" "0x3333" "0xcccc" "0x0f0f" x] add_2_bytes
  unfolding bitcount16_def Let_def by (fastforce simp: low_fields_simps simp del: drop_bit_and)

lemma bitcount32_population: "unat (bitcount32 x) = population x"
  using bytes_counted [of 4 "0x55555555" "0xaaaaaaaa" "0x33333333" "0xcccccccc" "0x0f0f0f0f" x] add_4_bytes
  unfolding bitcount32_def Let_def by (fastforce simp: low_fields_simps simp del: drop_bit_and)

lemma bitcount64_lp64_population: "unat (bitcount64_lp64 x) = population x"
  using bytes_counted [of 8 "0x5555555555555555" "0xaaaaaaaaaaaaaaaa" "0x3333333333333333"
    "0xcccccccccccccccc" "0x0f0f0f0f0f0f0f0f" x] add_8_bytes
  unfolding bitcount64_lp64_def Let_def by (fastforce simp: low_fields_simps simp del: drop_bit_and)

lemma population_le: "population (x :: 'a :: len word) \<le> LENGTH('a)"
  using length_filter_le [of "bit x" "[0..<LENGTH('a)]"] by (simp add: population_def)

lemma population_halves:
  fixes x :: u64
  shows "population x = population (ucast (drop_bit 32 x) :: u32) + population (ucast x :: u32)"
proof -
  have "[0..<64] = [0..<32] @ map ((+) 32) [0..<32]"
    by code_simp
  then have "population x = length (filter (bit x) [0..<32]) + length (filter (bit x \<circ> (+) 32) [0..<32])"
    by (simp add: population_def filter_map)
  moreover have "filter (bit x) [0..<32] = filter (bit (ucast x :: u32)) [0..<32]"
    by (rule filter_cong) (simp_all add: bit_simps)
  moreover have "filter (bit x \<circ> (+) 32) [0..<32] = filter (bit (ucast (drop_bit 32 x) :: u32)) [0..<32]"
    by (rule filter_cong) (simp_all add: bit_simps)
  ultimately show ?thesis by (simp add: population_def)
qed

lemma bitcount64_population: "unat (bitcount64 x) = population x"
proof -
  let ?h = "bitcount32 (ucast (drop_bit 32 x))" and ?l = "bitcount32 (ucast x)"
  have "unat ?h + unat ?l = population x"
    by (simp add: bitcount32_population population_halves [of x])
  moreover have "population x \<le> 64"
    using population_le [of x] by simp
  ultimately have "unat (?h + ?l) = population x"
    by (simp add: unat_word_ariths)
  with \<open>population x \<le> 64\<close> show ?thesis
    unfolding bitcount64_def unsigned_ucast_eq by (subst take_bit_nat_eq_self) simp_all
qed

text \<open>
  C27: Each population count of the C library is the number of bits set in its argument: the
  16-bit and the 32-bit count, and both 64-bit counts, the one that works inside one 64-bit word and
  the one the i386 uses, which adds the counts of the two halves.
\<close>

theorem bitcounts_count_bits:
  "unat (bitcount16 w) = population w \<and> unat (bitcount32 d) = population d
   \<and> unat (bitcount64 q) = population q \<and> bitcount64_lp64 q = bitcount64 q"
  by (simp add: bitcount16_population bitcount32_population bitcount64_population
    bitcount64_lp64_population word_unat_eq_iff)

end
