(* ===== verification/Endian.thy ===== *)
theory Endian
  imports Prelude
begin

unbundle bit_operations_syntax

section \<open>Byte order\<close>

text \<open>
  The functions of \<^verbatim>\<open>libc/include/sys/endian.h\<close> that read and write integers in memory in a
  given byte order, whatever the alignment. A pointer is an address of the flat memory; the
  writers return the memory they leave. The lemmas describe each of them as a block of
  bytes, from which the round trips follow.
\<close>

definition be16dec :: "mem \<Rightarrow> u32 \<Rightarrow> u16" where
  "be16dec m p = push_bit 8 (ucast (m p)) OR ucast (m (p + 1))"

definition be32dec :: "mem \<Rightarrow> u32 \<Rightarrow> u32" where
  "be32dec m p =
     push_bit 24 (ucast (m p)) OR push_bit 16 (ucast (m (p + 1))) OR push_bit 8 (ucast (m (p + 2)))
     OR ucast (m (p + 3))"

definition be64dec :: "mem \<Rightarrow> u32 \<Rightarrow> u64" where
  "be64dec m p = push_bit 32 (ucast (be32dec m p)) OR ucast (be32dec m (p + 4))"

definition le16dec :: "mem \<Rightarrow> u32 \<Rightarrow> u16" where
  "le16dec m p = push_bit 8 (ucast (m (p + 1))) OR ucast (m p)"

definition le32dec :: "mem \<Rightarrow> u32 \<Rightarrow> u32" where
  "le32dec m p =
     push_bit 24 (ucast (m (p + 3))) OR push_bit 16 (ucast (m (p + 2))) OR push_bit 8 (ucast (m (p + 1)))
     OR ucast (m p)"

definition le64dec :: "mem \<Rightarrow> u32 \<Rightarrow> u64" where
  "le64dec m p = push_bit 32 (ucast (le32dec m (p + 4))) OR ucast (le32dec m p)"

definition be16enc :: "u32 \<Rightarrow> u16 \<Rightarrow> mem \<Rightarrow> mem" where
  "be16enc p u m = m(p := ucast (drop_bit 8 u AND 0xff), p + 1 := ucast (u AND 0xff))"

definition be32enc :: "u32 \<Rightarrow> u32 \<Rightarrow> mem \<Rightarrow> mem" where
  "be32enc p u m =
     m(p := ucast (drop_bit 24 u AND 0xff), p + 1 := ucast (drop_bit 16 u AND 0xff),
       p + 2 := ucast (drop_bit 8 u AND 0xff), p + 3 := ucast (u AND 0xff))"

definition be64enc :: "u32 \<Rightarrow> u64 \<Rightarrow> mem \<Rightarrow> mem" where
  "be64enc p u m = be32enc (p + 4) (ucast (u AND 0xffffffff)) (be32enc p (ucast (drop_bit 32 u)) m)"

definition le16enc :: "u32 \<Rightarrow> u16 \<Rightarrow> mem \<Rightarrow> mem" where
  "le16enc p u m = m(p := ucast (u AND 0xff), p + 1 := ucast (drop_bit 8 u AND 0xff))"

definition le32enc :: "u32 \<Rightarrow> u32 \<Rightarrow> mem \<Rightarrow> mem" where
  "le32enc p u m =
     m(p := ucast (u AND 0xff), p + 1 := ucast (drop_bit 8 u AND 0xff),
       p + 2 := ucast (drop_bit 16 u AND 0xff), p + 3 := ucast (drop_bit 24 u AND 0xff))"

definition le64enc :: "u32 \<Rightarrow> u64 \<Rightarrow> mem \<Rightarrow> mem" where
  "le64enc p u m = le32enc (p + 4) (ucast (drop_bit 32 u)) (le32enc p (ucast (u AND 0xffffffff)) m)"

subsection \<open>The functions as blocks of bytes\<close>

lemma ucast_low_byte: "ucast (w AND 0xff :: u32) = (ucast w :: u8)"
proof -
  have m: "(0xff :: u32) = mask 8" by (simp add: mask_eq_exp_minus_1)
  show ?thesis unfolding m by (auto simp: bit_simps intro: bit_word_eqI)
qed

lemma ucast_low_word: "ucast (w AND 0xffffffff :: u64) = (ucast w :: u32)"
proof -
  have m: "(0xffffffff :: u64) = mask 32" by (simp add: mask_eq_exp_minus_1)
  show ?thesis unfolding m by (auto simp: bit_simps intro: bit_word_eqI)
qed

lemma mem_write_4:
  "mem_write m p [a, b, c, d] = m(p := a, p + 1 := b, p + 2 := c, p + 3 := d)"
  using poke32_bytes [of p "le32 a b c d" m] bytes32_le32 [of a b c d]
  by (simp add: poke32_def) (simp add: bytes32_def)

lemma mem_write_2: "mem_write m p [a, b] = m(p := a, p + 1 := b)"
proof
  fix x
  have "unat (x - p) < 2 \<longleftrightarrow> x = p \<or> x = p + 1"
    using unat_diff_eq [of 0 x p] unat_diff_eq [of 1 x p] by auto
  then show "mem_write m p [a, b] x = (m(p := a, p + 1 := b)) x"
    by (auto simp: mem_write_def)
qed

lemma enc_bytes:
  "le16enc p w m = mem_write m p (bytes16 w)" "be16enc p w m = mem_write m p (rev (bytes16 w))"
  "le32enc p d m = mem_write m p (bytes32 d)" "be32enc p d m = mem_write m p (rev (bytes32 d))"
  by (simp_all add: le16enc_def be16enc_def le32enc_def be32enc_def bytes16_def bytes32_def
    mem_write_2 mem_write_4 ucast_low_byte)

lemma dec_bytes:
  "le16dec m p = le16 (m p) (m (p + 1))" "be16dec m p = le16 (m (p + 1)) (m p)"
  "le32dec m p = le32 (m p) (m (p + 1)) (m (p + 2)) (m (p + 3))"
  "be32dec m p = le32 (m (p + 3)) (m (p + 2)) (m (p + 1)) (m p)"
  by (simp_all add: le16dec_def be16dec_def le32dec_def be32dec_def le16_def le32_def ac_simps)

subsection \<open>Round trips\<close>

lemma dec_enc16: "le16dec (le16enc p w m) p = w" "be16dec (be16enc p w m) p = w"
  by (simp_all add: dec_bytes enc_bytes bytes16_def mem_write_2 le16_bytes16)

lemma dec_enc32: "le32dec (le32enc p d m) p = d" "be32dec (be32enc p d m) p = d"
  by (simp_all add: dec_bytes enc_bytes bytes32_def mem_write_4 le32_bytes32)

lemma dec_enc_other:
  "le32dec (le32enc (p + 4) d m) p = le32dec m p" "be32dec (be32enc (p + 4) d m) p = be32dec m p"
  by (simp_all add: dec_bytes enc_bytes bytes32_def mem_write_4)

lemma word_halves: "push_bit 32 (ucast (ucast (drop_bit 32 u) :: u32)) OR ucast (ucast u :: u32) = (u :: u64)"
  by (rule bit_word_eqI) (auto simp: bit_simps)

lemma dec_enc64: "le64dec (le64enc p q m) p = q" "be64dec (be64enc p q m) p = q"
  by (simp_all add: le64dec_def le64enc_def be64dec_def be64enc_def dec_enc32 dec_enc_other
    ucast_low_word word_halves)

lemma mem_read_8: "mem_read m p 8 = mem_read m p 4 @ mem_read m (p + 4) 4"
  using mem_read_append [of m p 4 4] by simp

lemma read_enc32: "mem_read (le32enc p d m) p 4 = bytes32 d" "mem_read (be32enc p d m) p 4 = rev (bytes32 d)"
  using mem_read_write_same [of "bytes32 d" m p] mem_read_write_same [of "rev (bytes32 d)" m p]
  by (simp_all add: enc_bytes)

lemma read_enc32_other:
  "mem_read (le32enc (p + 4) d m) p 4 = mem_read m p 4" "mem_read (be32enc (p + 4) d m) p 4 = mem_read m p 4"
  by (simp_all add: enc_bytes mem_read_def eval_nat_numeral) (simp_all add: bytes32_def mem_write_4)

lemma big_little_reversed:
  "mem_read (be64enc p q m) p 8 = rev (mem_read (le64enc p q m) p 8)"
  by (simp add: mem_read_8 be64enc_def le64enc_def read_enc32 read_enc32_other ucast_low_word)

subsection \<open>The contract of an encoder and its decoder\<close>

text \<open>
  An encoder of values of \<open>width\<close> bytes writes only its block, its decoder reads only its block and
  returns what was written. A sequence of values stored one after the other is then read back value by value.
\<close>

locale byte_codec =
  fixes enc :: "u32 \<Rightarrow> 'v \<Rightarrow> mem \<Rightarrow> mem" and dec :: "mem \<Rightarrow> u32 \<Rightarrow> 'v" and width :: nat
  assumes dec_enc: "dec (enc p v m) p = v"
    and enc_outside: "\<not> in_block p width x \<Longrightarrow> enc p v m x = m x"
    and dec_local: "(\<And>x. in_block p width x \<Longrightarrow> m x = m' x) \<Longrightarrow> dec m p = dec m' p"
begin

lemma dec_enc_apart: "apart p width q width \<Longrightarrow> dec (enc p v m) q = dec m q"
  by (rule dec_local) (auto simp: apart_def intro: enc_outside)

lemma dec_enc_all:
  assumes "width * length vs \<le> 2 ^ 32" "i < length vs"
  shows "dec (fold (\<lambda>(i, v). enc (p + of_nat (width * i)) v) (enumerate 0 vs) m) (p + of_nat (width * i)) = vs ! i"
  using assms
proof (induction vs arbitrary: i rule: rev_induct)
  case (snoc v vs)
  let ?at = "\<lambda>i. p + of_nat (width * i) :: u32"
  have "apart (?at (length vs)) width (?at i) width" if "i < length vs"
  proof -
    have "width * i + width \<le> width * length vs" using mult_le_mono2 [of "Suc i" "length vs" width] that by simp
    then have "apart (?at i) width (?at (length vs)) width"
      using snoc.prems(1) by (intro apart_strides) simp_all
    then show ?thesis by (auto simp: apart_def)
  qed
  then show ?case
    using snoc dec_enc dec_enc_apart by (cases "i = length vs") (auto simp: enumerate_append_eq nth_append)
qed simp

end

lemma in_block_parts:
  "in_block p 2 x \<longleftrightarrow> x = p \<or> x = p + 1" "in_block p 8 x \<longleftrightarrow> in_block p 4 x \<or> in_block (p + 4) 4 x"
  "in_block p 4 p" "in_block p 4 (p + 1)" "in_block p 4 (p + 2)" "in_block p 4 (p + 3)"
proof -
  define y where "y = x - p"
  have "unat y = 1 \<longleftrightarrow> y = 1" using word_unat_eq_iff [of y 1] by simp
  then have "unat y < 2 \<longleftrightarrow> y = 0 \<or> y = 1" by (auto simp: less_2_cases_iff unat_eq_0)
  then show "in_block p 2 x \<longleftrightarrow> x = p \<or> x = p + 1"
    unfolding in_block_def y_def by (auto simp: algebra_simps)
  have "unat (y - 4) = (if 4 \<le> unat y then unat y - 4 else 2 ^ 32 + unat y - 4)"
    by (simp add: unat_sub_if_size word_size word_le_nat_alt)
  moreover have "x - (p + 4) = y - 4" by (simp add: y_def)
  ultimately show "in_block p 8 x \<longleftrightarrow> in_block p 4 x \<or> in_block (p + 4) 4 x"
    unfolding in_block_def y_def [symmetric] by (simp only:) auto
qed (simp_all add: in_block_def)

lemma dec_local16:
  assumes "\<And>x. in_block p 2 x \<Longrightarrow> m x = m' x"
  shows "le16dec m p = le16dec m' p" "be16dec m p = be16dec m' p"
  using assms [of p] assms [of "p + 1"] by (simp_all add: dec_bytes in_block_parts(1))

lemma dec_local32:
  assumes "\<And>x. in_block p 4 x \<Longrightarrow> m x = m' x"
  shows "le32dec m p = le32dec m' p" "be32dec m p = be32dec m' p"
  using assms [OF in_block_parts(3)] assms [OF in_block_parts(4)] assms [OF in_block_parts(5)] assms [OF in_block_parts(6)]
  by (simp_all add: dec_bytes)

interpretation le16: byte_codec le16enc le16dec 2
  by unfold_locales (rule dec_enc16, simp add: enc_bytes mem_write_out, rule dec_local16)

interpretation be16: byte_codec be16enc be16dec 2
  by unfold_locales (rule dec_enc16, simp add: enc_bytes mem_write_out, rule dec_local16)

interpretation le32: byte_codec le32enc le32dec 4
  by unfold_locales (rule dec_enc32, simp add: enc_bytes mem_write_out, rule dec_local32)

interpretation be32: byte_codec be32enc be32dec 4
  by unfold_locales (rule dec_enc32, simp add: enc_bytes mem_write_out, rule dec_local32)

interpretation le64: byte_codec le64enc le64dec 8
proof
  fix m m' :: mem and p :: u32
  assume "\<And>x. in_block p 8 x \<Longrightarrow> m x = m' x"
  then show "le64dec m p = le64dec m' p"
    using le32.dec_local [of p m m'] le32.dec_local [of "p + 4" m m'] by (simp add: le64dec_def in_block_parts)
qed (rule dec_enc64, simp add: le64enc_def le32.enc_outside in_block_parts)

interpretation be64: byte_codec be64enc be64dec 8
proof
  fix m m' :: mem and p :: u32
  assume "\<And>x. in_block p 8 x \<Longrightarrow> m x = m' x"
  then show "be64dec m p = be64dec m' p"
    using be32.dec_local [of p m m'] be32.dec_local [of "p + 4" m m'] by (simp add: be64dec_def in_block_parts)
qed (rule dec_enc64, simp add: be64enc_def be32.enc_outside in_block_parts)

end
