(* ===== verification/Macros.thy ===== *)
theory Macros
  imports Prelude
begin

unbundle bit_operations_syntax

section \<open>Macros of the system headers\<close>

text \<open>
  The macros and inline functions of the C library's headers that compute: bit maps,
  counting and rounding (\<^verbatim>\<open>sys/param.h\<close>), page arithmetic (\<^verbatim>\<open>machine/param.h\<close>), device numbers
  (\<^verbatim>\<open>sys/types.h\<close>), process statuses (\<^verbatim>\<open>sys/wait.h\<close>) and signal sets (\<^verbatim>\<open>sys/_sigset.h\<close>). An
  unsigned macro argument is a 32-bit word, a signed one an integer; a byte array is a list
  with checked accesses.
\<close>

subsection \<open>Bit maps\<close>

definition NBBY :: nat where "NBBY = 8"

definition setbit :: "u8 list \<Rightarrow> nat \<Rightarrow> u8 list comp" where
  "setbit a i = bnd (aget a (i div NBBY)) (\<lambda>b. aput a (i div NBBY) (b OR push_bit (i mod NBBY) 1))"

definition clrbit :: "u8 list \<Rightarrow> nat \<Rightarrow> u8 list comp" where
  "clrbit a i = bnd (aget a (i div NBBY)) (\<lambda>b. aput a (i div NBBY) (b AND NOT (push_bit (i mod NBBY) 1)))"

definition isset :: "u8 list \<Rightarrow> nat \<Rightarrow> u8 comp" where
  "isset a i = bnd (aget a (i div NBBY)) (\<lambda>b. ret (b AND push_bit (i mod NBBY) 1))"

definition isclr :: "u8 list \<Rightarrow> nat \<Rightarrow> bool comp" where
  "isclr a i = bnd (aget a (i div NBBY)) (\<lambda>b. ret (b AND push_bit (i mod NBBY) 1 = 0))"

subsection \<open>Counting and rounding\<close>

definition howmany :: "u32 \<Rightarrow> u32 \<Rightarrow> u32 comp" where
  "howmany x y = (if y = 0 then stuck DivByZero else ret ((x + (y - 1)) div y))"

definition rounddown :: "u32 \<Rightarrow> u32 \<Rightarrow> u32 comp" where
  "rounddown x y = (if y = 0 then stuck DivByZero else ret (x div y * y))"

definition roundup :: "u32 \<Rightarrow> u32 \<Rightarrow> u32 comp" where
  "roundup x y = (if y = 0 then stuck DivByZero else ret ((x + (y - 1)) div y * y))"

definition powerof2 :: "u32 \<Rightarrow> bool" where
  "powerof2 x \<longleftrightarrow> (x - 1) AND x = 0"

definition MIN_of :: "int \<Rightarrow> int \<Rightarrow> int" where
  "MIN_of a b = (if a < b then a else b)"

definition MAX_of :: "int \<Rightarrow> int \<Rightarrow> int" where
  "MAX_of a b = (if a > b then a else b)"

text \<open>The registers the alignment is for have 32 bits.\<close>

definition ALIGNBYTES :: u32 where "ALIGNBYTES = 4 - 1"

definition ALIGN_up :: "u32 \<Rightarrow> u32" where
  "ALIGN_up p = (p + ALIGNBYTES) AND NOT ALIGNBYTES"

subsection \<open>Pages\<close>

definition PAGE_SHIFT :: nat where "PAGE_SHIFT = 12"
definition PAGE_SIZE :: u32 where "PAGE_SIZE = push_bit PAGE_SHIFT 1"
definition PAGE_MASK :: u32 where "PAGE_MASK = PAGE_SIZE - 1"

definition trunc_page :: "u32 \<Rightarrow> u32" where
  "trunc_page x = x AND NOT PAGE_MASK"

definition round_page :: "u32 \<Rightarrow> u32" where
  "round_page x = (x + PAGE_MASK) AND NOT PAGE_MASK"

definition atop :: "u32 \<Rightarrow> u32" where
  "atop x = drop_bit PAGE_SHIFT x"

definition ptoa :: "u32 \<Rightarrow> u32" where
  "ptoa x = push_bit PAGE_SHIFT x"

definition pgtok :: "u32 \<Rightarrow> u32" where
  "pgtok x = x * (PAGE_SIZE div 1024)"

definition ctob :: "u32 \<Rightarrow> u32" where
  "ctob x = push_bit PAGE_SHIFT x"

definition btoc :: "u32 \<Rightarrow> u32" where
  "btoc x = drop_bit PAGE_SHIFT (x + PAGE_MASK)"

definition DEV_BSHIFT :: nat where "DEV_BSHIFT = 9"

definition ctodb :: "u32 \<Rightarrow> u32" where
  "ctodb db = push_bit (PAGE_SHIFT - DEV_BSHIFT) db"

definition dbtoc :: "u32 \<Rightarrow> u32" where
  "dbtoc db = drop_bit (PAGE_SHIFT - DEV_BSHIFT) (db + (ctodb 1 - 1))"

definition i386_btop :: "u32 \<Rightarrow> u32" where
  "i386_btop x = drop_bit PAGE_SHIFT x"

definition i386_ptob :: "u32 \<Rightarrow> u32" where
  "i386_ptob x = push_bit PAGE_SHIFT x"

text \<open>Disk block numbers and byte offsets are signed 64-bit numbers. The argument of the first macro is
  taken as unsigned, in 32 bits or in 64 where it is that wide; the second shifts a signed number.\<close>

definition btodb32 :: "u32 \<Rightarrow> int" where
  "btodb32 bytes = uint (drop_bit DEV_BSHIFT bytes)"

definition btodb64 :: "u64 \<Rightarrow> int" where
  "btodb64 bytes = uint (drop_bit DEV_BSHIFT bytes)"

definition dbtob :: "int \<Rightarrow> int comp" where
  "dbtob db = (if db < 0 \<or> 2 ^ 63 \<le> push_bit DEV_BSHIFT db then stuck Overflow else ret (push_bit DEV_BSHIFT db))"

subsection \<open>Device numbers\<close>

text \<open>A device number has 64 bits; the \<open>int\<close> numbers are given by their 32 bits.\<close>

definition major :: "u64 \<Rightarrow> u32" where
  "major d = ucast ((drop_bit 32 d AND 0xffffff00) OR (drop_bit 8 d AND 0xff))"

definition minor :: "u64 \<Rightarrow> u32" where
  "minor d = ucast ((drop_bit 24 d AND 0xff00) OR (d AND 0xffff00ff))"

definition makedev :: "u32 \<Rightarrow> u32 \<Rightarrow> u64" where
  "makedev M m =
     push_bit 32 (ucast (M AND 0xffffff00)) OR ucast (push_bit 8 (M AND 0xff)) OR
     push_bit 24 (ucast (m AND 0xff00)) OR ucast (m AND 0xffff00ff)"

subsection \<open>Process statuses\<close>

definition WCOREFLAG :: int where "WCOREFLAG = 0x80"
definition WSTATUS :: "int \<Rightarrow> int" where "WSTATUS x = x AND 0x7F"
definition WSTOPPED :: int where "WSTOPPED = 0x7F"
definition WIFSTOPPED :: "int \<Rightarrow> bool" where "WIFSTOPPED x \<longleftrightarrow> WSTATUS x = WSTOPPED"
definition WSTOPSIG :: "int \<Rightarrow> int" where "WSTOPSIG x = drop_bit 8 x"
definition WIFSIGNALED :: "int \<Rightarrow> bool" where
  "WIFSIGNALED x \<longleftrightarrow> WSTATUS x \<noteq> WSTOPPED \<and> WSTATUS x \<noteq> 0 \<and> x \<noteq> 0x13"
definition WTERMSIG :: "int \<Rightarrow> int" where "WTERMSIG x = WSTATUS x"
definition WIFEXITED :: "int \<Rightarrow> bool" where "WIFEXITED x \<longleftrightarrow> WSTATUS x = 0"
definition WEXITSTATUS :: "int \<Rightarrow> int" where "WEXITSTATUS x = drop_bit 8 x"
definition WIFCONTINUED :: "int \<Rightarrow> bool" where "WIFCONTINUED x \<longleftrightarrow> x = 0x13"
definition WCOREDUMP :: "int \<Rightarrow> int" where "WCOREDUMP x = x AND WCOREFLAG"

text \<open>A left shift of an \<open>int\<close> that is negative or leaves the range is undefined.\<close>

definition shl_int :: "int \<Rightarrow> nat \<Rightarrow> int comp" where
  "shl_int v k = (if v < 0 then stuck Overflow else c_int (push_bit k v))"

definition W_EXITCODE :: "int \<Rightarrow> int \<Rightarrow> int comp" where
  "W_EXITCODE code sig = bnd (shl_int code 8) (\<lambda>v. ret (v OR sig))"

definition W_STOPCODE :: "int \<Rightarrow> int comp" where
  "W_STOPCODE sig = bnd (shl_int sig 8) (\<lambda>v. ret (v OR WSTOPPED))"

definition KW_EXITCODE :: "int \<Rightarrow> int \<Rightarrow> int comp" where
  "KW_EXITCODE code sig = W_EXITCODE (code AND 0xff) sig"

subsection \<open>Signal sets\<close>

definition SIG_WORDS :: nat where "SIG_WORDS = 4"
definition SIG_MAXSIG :: int where "SIG_MAXSIG = 128"
definition SIG_IDX :: "int \<Rightarrow> int" where "SIG_IDX sig = sig - 1"
definition SIG_WORD :: "int \<Rightarrow> int" where "SIG_WORD sig = drop_bit 5 (SIG_IDX sig)"
definition SIG_BIT :: "int \<Rightarrow> u32" where "SIG_BIT sig = push_bit (nat (SIG_IDX sig AND 31)) 1"
definition SIG_VALID :: "int \<Rightarrow> bool" where "SIG_VALID sig \<longleftrightarrow> sig \<le> SIG_MAXSIG \<and> 0 < sig"

text \<open>The mask of one of the first 31 signals; a shift out of the range of an \<open>int\<close> is undefined.\<close>

definition sigmask :: "int \<Rightarrow> int comp" where
  "sigmask m = (if m - 1 < 0 \<or> 31 < m - 1 then stuck BadShift else shl_int 1 (nat (m - 1)))"

subsection \<open>Bit maps as sets\<close>

definition bits_of :: "u8 list \<Rightarrow> nat set" where
  "bits_of a = {i. i div 8 < length a \<and> bit (a ! (i div 8)) (i mod 8)}"

lemma bit_index:
  fixes i j :: nat
  shows "i = j \<longleftrightarrow> i div 8 = j div 8 \<and> i mod 8 = j mod 8"
  by (metis div_mult_mod_eq)

lemma bits_of_update:
  assumes "i div 8 < length a" "\<And>k. k < 8 \<Longrightarrow> bit b k = (if k = i mod 8 then v else bit (a ! (i div 8)) k)"
  shows "bits_of (a[i div 8 := b]) = (if v then insert i (bits_of a) else bits_of a - {i})"
proof -
  have "j \<in> bits_of (a[i div 8 := b]) \<longleftrightarrow> (if j = i then v else j \<in> bits_of a)" for j
  proof (cases "j div 8 = i div 8")
    case True
    then show ?thesis
      using assms(1) assms(2) [of "j mod 8"] bit_index [of j i] by (simp add: bits_of_def)
  next
    case False
    then show ?thesis by (auto simp: bits_of_def)
  qed
  then show ?thesis by (auto simp: set_eq_iff)
qed

lemma setbit_bits:
  assumes "i < 8 * length a"
  shows "\<exists>b. setbit a i = ret b \<and> length b = length a \<and> bits_of b = insert i (bits_of a)"
proof -
  have "i div 8 < length a" using assms by simp
  moreover from this have "bits_of (a[i div 8 := a ! (i div 8) OR push_bit (i mod 8) 1]) = insert i (bits_of a)"
    using bits_of_update [OF \<open>i div 8 < length a\<close>, of "a ! (i div 8) OR push_bit (i mod 8) 1" True]
    by (auto simp: bit_simps)
  ultimately show ?thesis by (simp add: setbit_def NBBY_def comp_simps)
qed

lemma clrbit_bits:
  assumes "i < 8 * length a"
  shows "\<exists>b. clrbit a i = ret b \<and> length b = length a \<and> bits_of b = bits_of a - {i}"
proof -
  have "i div 8 < length a" using assms by simp
  moreover from this have "bits_of (a[i div 8 := a ! (i div 8) AND NOT (push_bit (i mod 8) 1)]) = bits_of a - {i}"
    using bits_of_update [OF \<open>i div 8 < length a\<close>, of "a ! (i div 8) AND NOT (push_bit (i mod 8) 1)" False]
    by (auto simp: bit_simps)
  ultimately show ?thesis by (simp add: clrbit_def NBBY_def comp_simps)
qed

lemma isset_bits:
  assumes "i < 8 * length a"
  shows "\<exists>v. isset a i = ret v \<and> (v \<noteq> 0 \<longleftrightarrow> i \<in> bits_of a)" "isclr a i = ret (i \<notin> bits_of a)"
proof -
  have "i div 8 < length a" using assms by simp
  then show "\<exists>v. isset a i = ret v \<and> (v \<noteq> 0 \<longleftrightarrow> i \<in> bits_of a)" "isclr a i = ret (i \<notin> bits_of a)"
    using assms by (simp_all add: isset_def isclr_def NBBY_def comp_simps and_exp_eq_0_iff_not_bit bits_of_def)
qed

lemma bit_out_of_range:
  assumes "8 * length a \<le> i"
  shows "setbit a i = stuck OutOfBounds" "clrbit a i = stuck OutOfBounds" "isset a i = stuck OutOfBounds"
proof -
  have "\<not> i div 8 < length a" using assms by (simp add: not_less less_eq_div_iff_mult_less_eq)
  then show "setbit a i = stuck OutOfBounds" "clrbit a i = stuck OutOfBounds" "isset a i = stuck OutOfBounds"
    by (simp_all add: setbit_def clrbit_def isset_def NBBY_def aget_def)
qed

text \<open>A bit map is a finite set of numbers below its size: what a client of the four macros relies on.\<close>

locale bit_map =
  fixes capacity :: "'m \<Rightarrow> nat" and elems :: "'m \<Rightarrow> nat set"
    and add remove :: "'m \<Rightarrow> nat \<Rightarrow> 'm comp" and absent :: "'m \<Rightarrow> nat \<Rightarrow> bool comp"
  assumes add_elem: "i < capacity m \<Longrightarrow> \<exists>n. add m i = ret n \<and> capacity n = capacity m \<and> elems n = insert i (elems m)"
    and remove_elem: "i < capacity m \<Longrightarrow> \<exists>n. remove m i = ret n \<and> capacity n = capacity m \<and> elems n = elems m - {i}"
    and absent_elem: "i < capacity m \<Longrightarrow> absent m i = ret (i \<notin> elems m)"
begin

lemma add_range:
  assumes "lo + n \<le> capacity m"
  shows "\<exists>u. for_loop lo n (\<lambda>i m. add m i) m = ret u \<and> capacity u = capacity m \<and> elems u = elems m \<union> {lo..<lo + n}"
proof (rule for_loop_inv [where P = "\<lambda>j u. capacity u = capacity m \<and> elems u = elems m \<union> {lo..<j}"])
  fix j u
  assume "lo \<le> j" "j < lo + n" "capacity u = capacity m \<and> elems u = elems m \<union> {lo..<j}"
  then show "\<exists>v. add u j = ret v \<and> capacity v = capacity m \<and> elems v = elems m \<union> {lo..<Suc j}"
    using add_elem [of j u] assms by (auto simp: atLeastLessThanSuc)
qed simp

lemma add_remove:
  assumes "i < capacity m" "i \<notin> elems m"
  shows "\<exists>n k. add m i = ret n \<and> absent n i = ret False \<and> remove n i = ret k \<and> elems k = elems m"
proof -
  obtain n where n: "add m i = ret n" "capacity n = capacity m" "elems n = insert i (elems m)"
    using add_elem [OF assms(1)] by blast
  then show ?thesis using remove_elem [of i n] absent_elem [of i n] assms by auto
qed

end

interpretation byte_map: bit_map "\<lambda>a. 8 * length a" bits_of setbit clrbit isclr
  by unfold_locales (use setbit_bits clrbit_bits isset_bits(2) in auto)

subsection \<open>Rounding\<close>

lemma unat_pred: "y \<noteq> 0 \<Longrightarrow> unat (y - 1 :: u32) = unat y - 1"
  by (simp add: unat_minus_one)

lemma howmany_ceiling:
  assumes "y \<noteq> 0" "unat x + unat y \<le> 2 ^ 32"
  shows "\<exists>n. howmany x y = ret n \<and> unat x \<le> unat n * unat y \<and> (\<forall>k. unat x \<le> k * unat y \<longrightarrow> unat n \<le> k)"
proof -
  define a b where "a = unat x" and "b = unat y"
  have b: "0 < b" using assms(1) by (simp add: b_def unat_gt_0)
  have "a + (b - 1) < 2 ^ 32" using assms(2) b by (simp add: a_def b_def)
  then have n: "unat ((x + (y - 1)) div y) = (a + (b - 1)) div b"
    using assms by (simp add: unat_div unat_word_ariths unat_pred a_def b_def)
  have "a \<le> (a + (b - 1)) div b * b"
    using b div_mult_mod_eq [of "a + (b - 1)" b] mod_less_divisor [OF b, of "a + (b - 1)"] by linarith
  moreover have "(a + (b - 1)) div b \<le> k" if "a \<le> k * b" for k
  proof -
    have "a + (b - 1) < Suc k * b" using that b by simp
    then have "(a + (b - 1)) div b < Suc k" using b by (simp add: less_mult_imp_div_less)
    then show ?thesis by simp
  qed
  ultimately show ?thesis
    using assms(1) n by (simp add: howmany_def a_def b_def)
qed

lemma top_bit: "2 ^ h \<le> n \<Longrightarrow> n < 2 ^ Suc h \<Longrightarrow> bit (n :: nat) h"
proof -
  assume "2 ^ h \<le> n" "n < 2 ^ Suc h"
  then have "n div 2 ^ h = 1" by (simp add: div_nat_eqI)
  then show ?thesis by (simp add: bit_iff_odd)
qed

lemma unat_power_exact: "k < 32 \<Longrightarrow> unat (2 ^ k :: u32) = 2 ^ k"
  using power_strict_increasing [of k 32 "2 :: nat"] unat_of_nat32 [of "2 ^ k"] by simp

lemma powerof2_iff: "powerof2 x \<longleftrightarrow> x = 0 \<or> (\<exists>k < 32. x = 2 ^ k)"
proof
  assume p: "powerof2 x"
  show "x = 0 \<or> (\<exists>k < 32. x = 2 ^ k)"
  proof (cases "x = 0")
    case False
    then obtain h where h: "2 ^ h \<le> unat x" "unat x < 2 ^ Suc h"
      using ex_power_ivl1 [of 2 "unat x"] by (auto simp: unat_gt_0 Suc_le_eq)
    have "h < 32"
    proof (rule ccontr)
      assume "\<not> h < 32"
      then have "(2 :: nat) ^ 32 \<le> 2 ^ h" by (intro power_increasing) simp_all
      with h(1) unat_u32_less [of x] show False by (simp del: unat_u32_less)
    qed
    have "unat x = 2 ^ h"
    proof (rule ccontr)
      assume "unat x \<noteq> 2 ^ h"
      then have "bit (unat x - 1) h" using h by (intro top_bit) auto
      then have "bit (unat (x - 1)) h" using False by (simp add: unat_pred)
      moreover have "bit (unat x) h" using h by (rule top_bit)
      ultimately have "bit ((x - 1) AND x) h"
        by (simp add: bit_and_iff bit_unsigned_iff)
      with p show False by (simp add: powerof2_def)
    qed
    then have "x = 2 ^ h" using \<open>h < 32\<close> by (simp add: word_unat_eq_iff unat_power_exact)
    with \<open>h < 32\<close> show ?thesis by blast
  qed simp
next
  assume "x = 0 \<or> (\<exists>k < 32. x = 2 ^ k)"
  then show "powerof2 x"
  proof
    assume "\<exists>k < 32. x = 2 ^ k"
    then obtain k where "x = 2 ^ k" by blast
    then have "(x - 1) AND x = take_bit k (2 ^ k)"
      by (simp add: take_bit_eq_mask mask_eq_exp_minus_1 and.commute)
    moreover have "take_bit k (2 ^ k :: u32) = 0" by (rule bit_word_eqI) (simp add: bit_simps)
    ultimately show ?thesis by (simp add: powerof2_def)
  qed (simp add: powerof2_def)
qed

lemma page_mask: "PAGE_MASK = mask 12"
  by (simp add: PAGE_MASK_def PAGE_SIZE_def PAGE_SHIFT_def mask_eq_exp_minus_1)

lemma trunc_page_atop: "trunc_page x = ptoa (atop x)" "unat (trunc_page x) = unat x div 4096 * 4096"
proof -
  have *: "trunc_page x = push_bit 12 (drop_bit 12 x)"
    by (rule bit_word_eqI) (auto simp: trunc_page_def page_mask bit_simps)
  then show "trunc_page x = ptoa (atop x)" by (simp add: ptoa_def atop_def PAGE_SHIFT_def)
  have "unat x div 4096 * 4096 \<le> unat x" by simp
  then have "unat x div 4096 * 4096 < 4294967296" using unat_u32_less [of x] by (rule le_less_trans)
  then show "unat (trunc_page x) = unat x div 4096 * 4096"
    unfolding * by (simp add: push_bit_eq_mult drop_bit_eq_div unat_word_ariths unat_div)
qed

lemma round_page_roundup: "roundup x PAGE_SIZE = ret (round_page x)" "round_page x = ptoa (btoc x)"
proof -
  have r: "round_page x = trunc_page (x + PAGE_MASK)"
    by (simp add: round_page_def trunc_page_def)
  then show "round_page x = ptoa (btoc x)" by (simp add: trunc_page_atop ptoa_def atop_def btoc_def)
  have "(x + 4095) div 4096 * 4096 = trunc_page (x + 4095)"
    using trunc_page_atop(1) [of "x + 4095"]
    by (simp add: ptoa_def atop_def PAGE_SHIFT_def push_bit_eq_mult drop_bit_eq_div)
  then show "roundup x PAGE_SIZE = ret (round_page x)"
    by (simp add: r roundup_def PAGE_SIZE_def PAGE_SHIFT_def page_mask mask_numeral)
qed

lemma align_register: "unat (ALIGN_up p) mod 4 = 0" "unat p \<le> 2 ^ 32 - 4 \<Longrightarrow> p \<le> ALIGN_up p \<and> unat (ALIGN_up p) < unat p + 4"
proof -
  have m: "ALIGNBYTES = mask 2" by (simp add: ALIGNBYTES_def mask_numeral)
  have "2 \<le> n \<Longrightarrow> Suc (Suc (n - 2)) = n" for n by simp
  then have "q AND NOT (mask 2) = push_bit 2 (drop_bit 2 q)" for q :: u32
    by (intro bit_word_eqI) (auto simp: bit_simps not_less)
  then have "ALIGN_up p = push_bit 2 (drop_bit 2 (p + 3))"
    unfolding ALIGN_up_def m by (simp add: mask_numeral)
  moreover have "unat (p + 3) div 4 * 4 < 4294967296"
    using unat_u32_less [of "p + 3"] by (rule le_less_trans [rotated]) simp
  ultimately have u: "unat (ALIGN_up p) = unat (p + 3) div 4 * 4"
    by (simp add: push_bit_eq_mult drop_bit_eq_div unat_word_ariths unat_div)
  then show "unat (ALIGN_up p) mod 4 = 0" by simp
  assume p: "unat p \<le> 2 ^ 32 - 4"
  then have "unat (p + 3) = unat p + 3" by (simp add: unat_word_ariths)
  then show "p \<le> ALIGN_up p \<and> unat (ALIGN_up p) < unat p + 4" using u by (simp add: word_le_nat_alt) linarith
qed

text \<open>Bytes, disk blocks and pages: a whole number of blocks survives the way there and back.\<close>

lemma blocks_round_trip:
  assumes "0 \<le> db" "db < 2 ^ 54"
  shows "\<exists>b. dbtob db = ret b \<and> btodb64 (of_int b) = db"
proof -
  define b where "b = db * 512"
  have "uint (word_of_int b :: u64) = b"
    using assms by (simp add: uint_word_of_int b_def del: of_int_mult)
  then have "btodb64 (word_of_int b) = db"
    by (simp add: btodb64_def DEV_BSHIFT_def drop_bit_eq_div uint_div b_def del: of_int_mult)
  moreover have "dbtob db = ret b"
    using assms by (simp add: dbtob_def DEV_BSHIFT_def push_bit_eq_mult b_def)
  ultimately show ?thesis by blast
qed

lemma btodb_widths: "btodb32 x = btodb64 (ucast x)"
proof -
  have "uint (ucast x :: u64) = uint x" by (rule uint_up_ucast) (simp add: is_up)
  then show ?thesis by (simp add: btodb32_def btodb64_def drop_bit_eq_div uint_div DEV_BSHIFT_def)
qed

subsection \<open>Device numbers, statuses and signal sets\<close>

lemma dev_masks:
  "(0xffffff00 :: u32) = NOT (mask 8)" "(0xff :: u32) = mask 8" "(0xff00 :: u32) = push_bit 8 (mask 8)"
  "(0xffff00ff :: u32) = NOT (push_bit 8 (mask 8))"
  "(0xffffff00 :: u64) = push_bit 8 (mask 24)" "(0xff :: u64) = mask 8" "(0xff00 :: u64) = push_bit 8 (mask 8)"
  "(0xffff00ff :: u64) = push_bit 16 (mask 16) OR mask 8"
  by (simp_all add: mask_numeral)

lemma major_makedev: "major (makedev M m) = M"
proof (rule bit_word_eqI)
  fix n
  assume "n < LENGTH(32)"
  then consider "n < 8" | "8 \<le> n" "n < 32" by fastforce
  then show "bit (major (makedev M m)) n = bit M n"
    unfolding major_def makedev_def dev_masks by cases (auto simp: bit_simps less_diff_conv2 le_diff_conv2)
qed

lemma minor_makedev: "minor (makedev M m) = m"
proof (rule bit_word_eqI)
  fix n
  assume "n < LENGTH(32)"
  then consider "n < 8" | "8 \<le> n" "n < 16" | "16 \<le> n" "n < 32" by fastforce
  then show "bit (minor (makedev M m)) n = bit m n"
    unfolding minor_def makedev_def dev_masks by cases (auto simp: bit_simps less_diff_conv2 le_diff_conv2)
qed

lemma makedev_major_minor: "makedev (major d) (minor d) = d"
proof (rule bit_word_eqI)
  fix n
  assume "n < LENGTH(64)"
  then consider "n < 8" | "8 \<le> n" "n < 16" | "16 \<le> n" "n < 32" | "32 \<le> n" "n < 40" | "40 \<le> n" "n < 64"
    by fastforce
  then show "bit (makedev (major d) (minor d)) n = bit d n"
    unfolding major_def minor_def makedev_def dev_masks by cases (auto simp: bit_simps less_diff_conv2 le_diff_conv2)
qed

lemma WSTATUS_take_bit: "WSTATUS x = take_bit 7 x"
  by (simp add: WSTATUS_def take_bit_eq_mask mask_numeral)

lemma status_fields:
  assumes "0 \<le> v" "v < 2 ^ 23" "0 \<le> s" "s < 256"
  shows "shl_int v 8 = ret (push_bit 8 v)" "drop_bit 8 (push_bit 8 v OR s) = v"
    "WSTATUS (push_bit 8 v OR s) = WSTATUS s"
proof -
  show "shl_int v 8 = ret (push_bit 8 v)"
    using assms(1,2) by (simp add: shl_int_def c_int_def push_bit_eq_mult)
  have "drop_bit 8 s = 0" using assms(3,4) by (simp add: drop_bit_eq_div)
  moreover have "drop_bit 8 (push_bit 8 v) = v" by (simp add: drop_bit_push_bit_int)
  ultimately show "drop_bit 8 (push_bit 8 v OR s) = v" by (simp add: drop_bit_or)
  have "take_bit 7 (push_bit 8 v) = 0" by (simp add: take_bit_push_bit)
  then show "WSTATUS (push_bit 8 v OR s) = WSTATUS s"
    by (simp add: WSTATUS_take_bit take_bit_or)
qed

lemma exit_status:
  assumes "0 \<le> code" "code < 2 ^ 23"
  shows "\<exists>x. W_EXITCODE code 0 = ret x \<and> WIFEXITED x \<and> WEXITSTATUS x = code"
  using status_fields [OF assms, of 0]
  by (simp add: W_EXITCODE_def WIFEXITED_def WEXITSTATUS_def WSTATUS_def)

lemma signal_status:
  assumes "0 < sig" "sig < 127" "sig \<noteq> 0x13"
  shows "\<exists>x. W_EXITCODE 0 sig = ret x \<and> WIFSIGNALED x \<and> WTERMSIG x = sig \<and> WCOREDUMP x = 0"
proof -
  have t: "take_bit 7 sig = sig" using assms by (simp add: take_bit_int_eq_self)
  then have "sig AND 0x80 = (sig AND 0x7F) AND 0x80"
    by (simp add: take_bit_eq_mask mask_numeral)
  then have "sig AND 0x80 = 0" by (simp add: and.assoc)
  with t show ?thesis
    using status_fields [of 0 sig] assms
    by (simp add: W_EXITCODE_def WIFSIGNALED_def WTERMSIG_def WSTATUS_take_bit WSTOPPED_def WCOREDUMP_def WCOREFLAG_def)
qed

lemma stop_status:
  assumes "0 \<le> sig" "sig < 2 ^ 23"
  shows "\<exists>x. W_STOPCODE sig = ret x \<and> WIFSTOPPED x \<and> WSTOPSIG x = sig"
  using status_fields [OF assms, of "0x7F"]
  by (simp add: W_STOPCODE_def WIFSTOPPED_def WSTOPSIG_def WSTATUS_def WSTOPPED_def)

lemma kernel_exit_status:
  "\<exists>x. KW_EXITCODE code 0 = ret x \<and> WIFEXITED x \<and> WEXITSTATUS x = code mod 256"
proof -
  have "code AND 0xff = code mod 256"
    using take_bit_eq_mask [of 8 code] by (simp add: mask_numeral take_bit_eq_mod)
  then show ?thesis using exit_status [of "code AND 0xff"] by (simp add: KW_EXITCODE_def)
qed

text \<open>Every status is exactly one of exited, killed, stopped and continued.\<close>

lemma status_kinds:
  "length (filter (\<lambda>P. P x) [WIFEXITED, WIFSIGNALED, WIFSTOPPED, WIFCONTINUED]) = 1"
proof (cases "x = 0x13")
  case True
  then show ?thesis
    by (simp add: WIFEXITED_def WIFSIGNALED_def WIFSTOPPED_def WIFCONTINUED_def WSTATUS_def WSTOPPED_def)
qed (simp add: WIFEXITED_def WIFSIGNALED_def WIFSTOPPED_def WIFCONTINUED_def WSTOPPED_def)

lemma signal_position:
  assumes "SIG_VALID sig"
  shows "0 \<le> SIG_WORD sig" "SIG_WORD sig < int SIG_WORDS" "SIG_BIT sig \<noteq> 0"
    "sig = 32 * SIG_WORD sig + (SIG_IDX sig AND 31) + 1"
proof -
  have m: "SIG_IDX sig AND 31 = SIG_IDX sig mod 32"
    using take_bit_eq_mask [of 5 "SIG_IDX sig"] by (simp add: mask_numeral take_bit_eq_mod)
  have v: "0 \<le> SIG_IDX sig" "SIG_IDX sig < 128"
    using assms by (simp_all add: SIG_VALID_def SIG_MAXSIG_def SIG_IDX_def)
  then show "0 \<le> SIG_WORD sig" "SIG_WORD sig < int SIG_WORDS"
    by (simp_all add: SIG_WORD_def SIG_WORDS_def drop_bit_eq_div)
  have "nat (SIG_IDX sig AND 31) < 32" unfolding m by simp
  then show "SIG_BIT sig \<noteq> 0"
    by (simp add: SIG_BIT_def word_unat_eq_iff unat_power_exact)
  show "sig = 32 * SIG_WORD sig + (SIG_IDX sig AND 31) + 1"
    using mult_div_mod_eq [of 32 "SIG_IDX sig"]
    unfolding m SIG_WORD_def drop_bit_eq_div by (simp add: SIG_IDX_def)
qed

subsection \<open>Properties\<close>

text \<open>The bit-map macros implement a set of numbers: within the array, \<^verbatim>\<open>setbit\<close> inserts,
  \<^verbatim>\<open>clrbit\<close> removes, and \<^verbatim>\<open>isset\<close> and \<^verbatim>\<open>isclr\<close> test membership.
\<close>

lemma bitmap_implements_set:
  assumes "i < 8 * length a"
  shows "(\<exists>b. setbit a i = ret b \<and> length b = length a \<and> bits_of b = insert i (bits_of a))
    \<and> (\<exists>b. clrbit a i = ret b \<and> length b = length a \<and> bits_of b = bits_of a - {i})
    \<and> (\<exists>v. isset a i = ret v \<and> (v \<noteq> 0 \<longleftrightarrow> i \<in> bits_of a)) \<and> isclr a i = ret (i \<notin> bits_of a)"
  using setbit_bits [OF assms] clrbit_bits [OF assms] isset_bits [OF assms] by blast

text \<open>Device numbers and process statuses survive their encodings: \<^verbatim>\<open>makedev\<close> and
  \<^verbatim>\<open>major\<close>, \<^verbatim>\<open>minor\<close> are inverse to each other in both directions, an exit code that fits comes back
  from its status, and every status is exactly one of exited, killed, stopped and continued.
\<close>

lemma header_encodings_round_trip:
  "major (makedev M m) = M \<and> minor (makedev M m) = m \<and> makedev (major d) (minor d) = d
   \<and> (\<exists>x. KW_EXITCODE code 0 = ret x \<and> WIFEXITED x \<and> WEXITSTATUS x = code mod 256)
   \<and> length (filter (\<lambda>P. P y) [WIFEXITED, WIFSIGNALED, WIFSTOPPED, WIFCONTINUED]) = 1"
  using major_makedev minor_makedev makedev_major_minor kernel_exit_status status_kinds by blast

end
