(* ===== verification/Uart.thy ===== *)
theory Uart
  imports Prelude
begin

unbundle bit_operations_syntax

section \<open>The memory-mapped serial port\<close>

text \<open>
  The driver at the head of \<^verbatim>\<open>kernel/arch/i386/tty.c\<close> for a PL011 serial port, whose registers
  are words of the address space. The device behind them is a parameter, as the bus is
  for the ports: a record of the two volatile accesses on a device state of any type. The wait
  for room in the transmitter need not end, so it is a partial function.
\<close>

record 'd mmio =
  mm_read :: "u32 \<Rightarrow> 'd \<Rightarrow> u32 \<times> 'd"
  mm_write :: "u32 \<Rightarrow> u32 \<Rightarrow> 'd \<Rightarrow> 'd"

definition UART0_BASE :: u32 where "UART0_BASE = 0x101f0000"
definition UART0DR :: u32 where "UART0DR = UART0_BASE + 0x00"
definition UART0FR :: u32 where "UART0FR = UART0_BASE + 0x18"
definition UART0IBRD :: u32 where "UART0IBRD = UART0_BASE + 0x24"
definition UART0FBRD :: u32 where "UART0FBRD = UART0_BASE + 0x28"
definition UART0LCRH :: u32 where "UART0LCRH = UART0_BASE + 0x2C"
definition UART0CR :: u32 where "UART0CR = UART0_BASE + 0x30"

definition uart_init :: "'d mmio \<Rightarrow> 'd \<Rightarrow> 'd" where
  "uart_init D d =
     (let d = mm_write D UART0CR 0 d;
          d = mm_write D UART0IBRD 1 d;
          d = mm_write D UART0FBRD 40 d;
          d = mm_write D UART0LCRH (push_bit 5 1 OR push_bit 6 1) d
      in mm_write D UART0CR (push_bit 0 1 OR push_bit 8 1 OR push_bit 9 1) d)"

partial_function (option) uart_wait :: "'d mmio \<Rightarrow> 'd \<Rightarrow> 'd comp" where
  "uart_wait D d =
     (let (v, d) = mm_read D UART0FR d in if v AND push_bit 5 1 \<noteq> 0 then uart_wait D d else ret d)"

declare uart_wait.simps [code]

text \<open>A \<open>char\<close> is signed, so it is sign-extended to the width of the data register.\<close>

definition uart_putc :: "'d mmio \<Rightarrow> u8 \<Rightarrow> 'd \<Rightarrow> 'd comp" where
  "uart_putc D c d = bnd (uart_wait D d) (\<lambda>d. ret (mm_write D UART0DR (scast c) d))"

function uart_puts :: "'d mmio \<Rightarrow> u8 list \<Rightarrow> nat \<Rightarrow> 'd \<Rightarrow> 'd comp" where
  "uart_puts D str i d =
     bnd (aget str i) (\<lambda>c.
       if i < length str \<and> c \<noteq> 0 then bnd (uart_putc D c d) (uart_puts D str (i + 1)) else ret d)"
  by auto

termination
  by (relation "measure (\<lambda>(D, str, i, d). length str - i)") auto

declare uart_puts.simps [simp del]

subsection \<open>The device\<close>

text \<open>
  \<open>uart_on D busy sent\<close>: \<open>D\<close> is a serial port. While its transmitter is full the flag register
  reads with bit 5, for \<open>busy d\<close> more reads; a write to the data register sends the low byte.
\<close>

definition uart_on :: "'d mmio \<Rightarrow> ('d \<Rightarrow> nat) \<Rightarrow> ('d \<Rightarrow> u8 list) \<Rightarrow> bool" where
  "uart_on D busy sent \<longleftrightarrow>
     (\<forall>d. (bit (fst (mm_read D UART0FR d)) 5 \<longleftrightarrow> busy d > 0)
        \<and> busy (snd (mm_read D UART0FR d)) = busy d - 1
        \<and> sent (snd (mm_read D UART0FR d)) = sent d)
     \<and> (\<forall>d v. busy d = 0 \<longrightarrow> sent (mm_write D UART0DR v d) = sent d @ [ucast v])"

lemma flag_bit: "(v :: u32) AND 32 = 0 \<longleftrightarrow> \<not> bit v 5"
  using and_exp_eq_0_iff_not_bit [of v 5] by simp

lemma uart_wait_returns:
  assumes "uart_on D busy sent"
  shows "\<exists>t. uart_wait D d = ret t \<and> busy t = 0 \<and> sent t = sent d"
proof (induction "busy d" arbitrary: d)
  case 0
  then show ?case
    using assms by (subst uart_wait.simps) (simp add: uart_on_def case_prod_beta Let_def flag_bit)
next
  case (Suc n)
  let ?d = "snd (mm_read D UART0FR d)"
  have d: "bit (fst (mm_read D UART0FR d)) 5" "n = busy ?d" "sent ?d = sent d"
    using assms Suc(2) by (simp_all add: uart_on_def flip: Suc(2))
  then have "uart_wait D d = uart_wait D ?d"
    by (subst uart_wait.simps) (simp add: case_prod_beta Let_def flag_bit)
  then show ?case using Suc(1) [OF d(2)] d(3) by simp
qed

lemma ucast_scast_u8: "ucast (scast (c :: u8) :: u32) = c"
  by (rule bit_word_eqI) (simp add: bit_simps)

lemma uart_putc_sends:
  assumes "uart_on D busy sent"
  shows "\<exists>t. uart_putc D c d = ret t \<and> sent t = sent d @ [c]"
proof -
  obtain t where "uart_wait D d = ret t" "busy t = 0" "sent t = sent d"
    using uart_wait_returns [OF assms] by blast
  then show ?thesis
    using assms by (simp add: uart_putc_def uart_on_def ucast_scast_u8)
qed

lemma uart_puts_sends:
  assumes "uart_on D busy sent" "0 \<notin> set xs"
  shows "\<exists>t. uart_puts D (pre @ xs @ 0 # rest) (length pre) d = ret t \<and> sent t = sent d @ xs"
  using assms(2)
proof (induction xs arbitrary: pre d)
  case Nil
  then show ?case by (subst uart_puts.simps) (simp add: aget_ret)
next
  case (Cons x xs)
  obtain e where e: "uart_putc D x d = ret e" "sent e = sent d @ [x]"
    using uart_putc_sends [OF assms(1)] by blast
  have "uart_puts D (pre @ (x # xs) @ 0 # rest) (length pre) d =
      uart_puts D ((pre @ [x]) @ xs @ 0 # rest) (length (pre @ [x])) e"
    using Cons.prems e(1) by (subst uart_puts.simps) (simp add: aget_ret)
  then show ?case using Cons.IH [of "pre @ [x]" e] Cons.prems e(2) by auto
qed

text \<open>
  What the initialisation programs: the divisor 1 + 40/64 and a line control word of 0x60, which
  selects eight bits but leaves the FIFO enable bit (bit 4) clear.
\<close>

lemma uart_init_writes:
  "uart_init D d = mm_write D 0x101f0030 0x301 (mm_write D 0x101f002C 0x60 (mm_write D 0x101f0028 40
     (mm_write D 0x101f0024 1 (mm_write D 0x101f0030 0 d))))" "\<not> bit (0x60 :: u32) 4"
  by (simp_all add: uart_init_def Let_def UART0CR_def UART0IBRD_def UART0FBRD_def UART0LCRH_def UART0_BASE_def)

text \<open>
  C28: Writing a string to the memory-mapped serial port returns and sends the characters before the
  terminator, in order and each once, however long the transmitter is busy between them.
\<close>

theorem uart_puts_sends_text:
  assumes "uart_on D busy sent" "0 \<notin> set xs"
  shows "\<exists>t. uart_puts D (xs @ 0 # rest) 0 d = ret t \<and> sent t = sent d @ xs"
  using uart_puts_sends [OF assms, of "[]"] by simp

text \<open>A port that is busy for three reads after each byte.\<close>

definition slow_port :: "(nat \<times> u8 list) mmio" where
  "slow_port =
     \<lparr>mm_read = (\<lambda>a d. if a = UART0FR then (if fst d > 0 then 0x20 else 0, (fst d - 1, snd d)) else (0, d)),
      mm_write = (\<lambda>a v d. if a = UART0DR then (3, snd d @ [ucast v]) else d)\<rparr>"

theorem uart_puts_sends_text_witness:
  "uart_on slow_port fst snd \<and> (\<exists>t. uart_puts slow_port [79, 75, 0] 0 (1, []) = ret t \<and> snd t = [79, 75])"
proof -
  have "uart_on slow_port fst snd" by (simp add: uart_on_def slow_port_def)
  then show ?thesis using uart_puts_sends_text [of slow_port fst snd "[79, 75]" "[]" "(1, [])"] by simp
qed

end
