(* ===== verification/Spec2Isabelle.thy ===== *)
theory Spec2Isabelle
  imports FatPut FatList Graphics Build Switch Bitcount Endian Macros Uart
begin

text \<open>
  \<^bold>\<open>PotatoOS, a model of the kernel and its properties.\<close>

  PotatoOS is a small 32-bit kernel in C and assembly. Its code is in these places: \<^verbatim>\<open>kernel/arch/i386/tty.c\<close>
  holds the console, the drivers and the shell and is entered at \<open>kernel_main\<close> from \<^verbatim>\<open>boot.S\<close>, beside
  which \<^verbatim>\<open>switch.S\<close> has a task switch;
  \<^verbatim>\<open>kernel/arch/i386/FAT.c\<close> is a FAT file system on a polled ATA disk, with its helpers in
  \<^verbatim>\<open>kernel/arch/i386/lib_c.c\<close>; \<^verbatim>\<open>libc\<close> is the C library it is linked with, with system headers that
  have inline functions and macros. All file names here are
  relative to \<^verbatim>\<open>src\<close>. Each definition carries the name of the C function it translates, with
  the suffix \<open>_tty\<close> where two functions of the sources, or an Isabelle command, have the same name; loops
  and branches of a long function are definitions of their own beside it.

  \<^bold>\<open>How the program is represented.\<close>

  \<^item> The state is one extensible record that grows along the imports: \<open>hw\<close> (the devices and the memory) is
    extended by \<open>tty\<close> (the console), and from there on one branch by \<open>fat\<close> (the variables of
    FAT.c) and another by \<open>rtc\<close>, \<open>net\<close>, \<open>paging\<close>, \<open>drives\<close> and \<open>kern\<close> (the variables of tty.c). An operation
    is defined on the scheme of the record it needs and so runs on every state above it.
  \<^item> The machine behind the ports is a parameter: a record \<open>bus\<close> of four functions on a device state of any
    type. What the code relies on of a device is a predicate on the bus, stated where it is used:
    \<open>crtc\<close> (cursor registers), \<open>ata_on\<close> (the disk, with any latency below its retry limit),
    \<open>uart_ready\<close>, \<open>cmos\<close> (the clock), \<open>ready_after\<close> and \<open>data_ready\<close> (the disk of the drive table), \<open>card_log\<close> (the
    network card), \<open>key_ready\<close>. Each has a concrete bus that satisfies it.
    The memory-mapped UART has its own two functions and the predicate \<open>uart_on\<close>.
  \<^item> Assembly runs on a processor (\<open>cpu\<close>: registers, flags, page directory register, memory) as a list of
    instructions. How linear addresses become physical is a parameter (\<open>mmu\<close>); a page that is not present is the
    fault \<open>PageFault\<close>.
  \<^item> A computation is a value of \<open>(fault + 'a) option\<close>: \<open>ret x\<close> returns, \<open>stuck e\<close> has run into undefined
    behaviour of C, and \<open>None\<close> never returns. Busy waits, \<open>while (1)\<close> and the recursion along a cluster chain are
    \<^theory_text>\<open>partial_function (option)\<close>, so that a claim that they return is a claim with content. Loops
    with a bound are structural recursion or have a termination proof; there is no fuel
    except in \<open>alloc_loop\<close>, whose count is the number of clusters that the C loop compares with.
  \<^item> A fault stands for an access outside an array, a null pointer, a division by zero, a missing variadic
    argument, a signed overflow: wherever the result depends on what the sources do not
    determine. Where the layout is fixed by the code, as for the drive table with its packed boot
    sector, the bytes are modelled and the overrun of \<open>read_boot_sector\<close> is computed. Where it is the choice of the
    compiler or the linker, what lies behind the object is a parameter: \<open>FATInitialize\<close> copies 422 bytes behind
    \<open>bootsect\<close>, and \<open>write_file\<close> one byte behind its block buffer; \<open>spill\<close> is what these bytes do, and \<open>spares\<close> is the
    hypothesis that they leave the variables of the driver alone. Local arrays that are read before
    they are written are parameters (\<open>stale\<close>), as is the value of the undefined shift in
    \<open>beep\<close>. A number passed where a \<open>char*\<close> is expected is an address of memory.
  \<^item> Integers keep their width: \<open>u8\<close>, \<open>u16\<close>, \<open>u32\<close> are words and wrap as in C; \<open>int\<close> is a HOL integer where the values
    are small by construction, and checked with \<open>c_int\<close> where they come from a caller.

  \<^bold>\<open>The theories.\<close>

  \<^item> \<open>Prelude\<close>: computations and their laws, loops, C arrays and strings, the byte memory, little endian words,
    and the locale \<open>writer\<close> for operations with an invariant and a frame.
  \<^item> \<open>Bus\<close>: port instructions and busy waits, with the rule for when a busy wait returns.
  \<^item> \<open>CString\<close> (libc/string, and the string functions of tty.c): memmove for every overlap, the
    string functions against list functions, strtok, and all that \<open>strncpy\<close> writes, with the byte it clears too many.
  \<^item> \<open>LibC\<close> (lib_c.c): serial input and output, number printing and reading.
  \<^item> \<open>FatName\<close>: the 8.3 name conversions of FAT.c; a stored name that is shown and typed again finds itself.
  \<^item> \<open>Terminal\<close>: the console. \<open>terminal_putchar\<close> refines an abstract console of 2000 cells with a cursor; the
    invariant \<open>tty_ok\<close>, the frame of every output operation, the hardware cursor, the boot log, and the
    locale \<open>client\<close>: what a component sees of its own state is not changed by output. Every later component of tty.c
    interprets it on its fields.
  \<^item> \<open>Stdio\<close>: printf, puts and abort of the library; printf agrees with a character-by-character
    reference and keeps the console well formed for every format.
  \<^item> \<open>Ata\<close>: the disk driver. Locale \<open>block_device\<close> states what a file system needs of a disk and is interpreted on
    \<open>int13h_read\<close> and \<open>int13h_write\<close>; the round trip of sector runs, whatever memory holds at the read, and giving
    up on a dead drive. The device takes the flush command right after the last word, as the driver sends it.
  \<^item> \<open>FatTable\<close>: boot sector, table entries, allocation and clusters. Locale \<open>alloc_table\<close> abstracts the table as a
    map and is interpreted on \<open>FATRead\<close> and \<open>FATWrite\<close>; allocation takes the first free cluster; the geometry that
    \<open>FATInitialize\<close> computes; what a diagnostic message shows (\<open>uttered\<close>).
  \<^item> \<open>FatDir\<close>: directories. \<open>directorySearch\<close> is a lookup in the list of entries along the cluster chain; a volume
    that \<open>FATInitialize\<close> has opened is one that the file operations work on.
  \<^item> \<open>FatFile\<close>: \<open>getFile\<close> reads exactly the file its path leads to; the errors of \<open>getFile\<close> and
    \<open>putFile\<close>.
  \<^item> \<open>FatList\<close>: \<open>directoryList\<close> prints the listing of the entries on the disk, a text defined without the code; in a
    cluster whose last entry is shown it does not stop at the end of the cluster.
  \<^item> \<open>FatWrite\<close>: the write loop of \<open>putFile\<close>. What it stores along newly linked clusters is what the read loop
    of \<open>getFile\<close> returns: the body without the byte behind each full cluster. Other files are not touched.
  \<^item> \<open>FatPut\<close>: \<open>putFile\<close> as a whole, from the search for the name over the entry to the data, and the file that
    \<open>getFile\<close> finds afterwards; the clusters of the other files are kept.
  \<^item> \<open>Rtc\<close>: the clock; on a stable chip the time read is the time of the chip.
  \<^item> \<open>Net\<close>: byte order, the Internet checksum as a one's complement sum, the exact port writes
    of a ping, bounds of reception.
  \<^item> \<open>Paging\<close>: the page tables, with the page walk of the processor; an identity mapping of 4 MB,
    under which \<open>send_ping\<close> faults.
  \<^item> \<open>Graphics\<close>: pixels, lines, boxes and text in a framebuffer.
  \<^item> \<open>Drive\<close>: the second file system of tty.c on the bytes of its drive table; mounting a drive from the block the
    device delivers, and the record and the table entry that \<open>write_file\<close> leaves.
  \<^item> \<open>Console\<close>: keyboard, speaker, reboot, panic, shutdown and the setup screens; halting never returns.
  \<^item> \<open>Shell\<close>: line editing refines an abstract line editor and never faults without the colour key; the
    states the shell reaches (an inductive relation) never have a file system; what goes wrong with the colour key and
    with a format as a command.
  \<^item> \<open>Session\<close>: the shell refines an interpreter on the line typed so far and the console: what each key shows, what the
    commands without a device answer, and the prompt after them. The interpreter has no step where the
    shell faults or leaves, so a session that it runs is one without a fault.
  \<^item> \<open>Kernel\<close>: \<open>kernel_main\<close> composes everything; it gets to the prompt and never returns.
  \<^item> \<open>Cpu\<close>: the instructions that the assembly files use, and memory accesses that are mapped to themselves.
  \<^item> \<open>Switch\<close> (switch.S, crti.S, crtn.S): \<open>switchTask\<close> saves the caller's context and continues the other
    task; a task switched back to continues with its registers.
  \<^item> \<open>Boot\<close> (boot.S): the multiboot header, the stack, and \<open>_start\<close> up to the prompt, where a session starts.
  \<^item> \<open>Build\<close> (linker.ld, and what the scripts compute): the layout of the image, wherever the linker
    puts the sections that the script does not name; it discharges the alignment
    of the stack and of the page table that \<open>Boot\<close> and \<open>Paging\<close> ask for, and the image stays mapped.
  \<^item> \<open>Uart\<close>: the memory-mapped serial port of tty.c; the text is sent in order, however long the device is busy.
  \<^item> \<open>Bitcount\<close>, \<open>Endian\<close>, \<open>Macros\<close> (libc/include): the word-parallel bit counts equal a count of the bits;
    locale \<open>byte_codec\<close> is the contract of an encoder and its decoder, interpreted on the six pairs of byte order
    functions; locale \<open>bit_map\<close> is a set of numbers and is interpreted on the bit map macros; the encodings of
    device numbers, exit states and disk blocks are inverted by their decoders.
  \<^item> This theory: tasks switch under the page tables that the kernel sets up, and the network order of tty.c is the
    big endian order of \<^verbatim>\<open>sys/endian.h\<close>.

  \<^bold>\<open>What is not modelled.\<close>

  \<^item> Delay loops, and \<open>cli\<close> and \<open>hlt\<close> as instructions: they only take time, or end in a halt that is modelled as
    a loop without exit. Interrupts are never enabled by the code.
  \<^item> The memory the processor sees is the physical memory also after paging is turned on. \<open>Paging\<close> shows that this
    is right below 4 MB; every fixed address of the boot path is there. \<open>send_ping\<close> uses an address that is not,
    and has the translation as a parameter.
  \<^item> The stub \<open>int32\<close>, whose body is empty, and the type \<open>Task\<close>, which nothing uses: no code creates a task, so
    \<open>switchTask\<close> is verified for any two structures it may be called on.
  \<^item> The rest of the headers: types, constants, prototypes of functions that are not in the sources, and macros and
    inline functions over structures that are not declared there. Macros that compute are modelled.
  \<^item> The tools that the build scripts run, the linker itself, and driver code that is commented out.
  \<^item> Code that a wild write has overwritten: a fault ends the run of the model.
\<close>

unbundle bit_operations_syntax

section \<open>Tasks under the page tables of the kernel\<close>

text \<open>
  The memory management unit after \<open>setup_paging\<close>: the page walk of \<open>Paging\<close> for each value of
  the page directory register.
\<close>

definition kernel_mmu :: "u32 \<Rightarrow> u32 \<Rightarrow> ('d, 'z) paging_scheme \<Rightarrow> mmu" where
  "kernel_mmu pd pt t = (\<lambda>c. translate pd pt (t\<lparr>cr3 := c\<rparr>))"

text \<open>A block below four megabytes that does not touch the page directory or the page table.\<close>

definition low_block :: "u32 \<Rightarrow> u32 \<Rightarrow> u32 \<Rightarrow> nat \<Rightarrow> bool" where
  "low_block pd pt a n \<longleftrightarrow> unat a + n \<le> 0x400000 \<and> apart a n pd 4096 \<and> apart a n pt 4096"

definition kernel_call :: "u32 \<Rightarrow> u32 \<Rightarrow> cpu \<Rightarrow> bool" where
  "kernel_call pd pt c =
     (let R = load_regs (store c) (arg 2 c)
      in ctrl3 c = pd \<and> r_cr3 R = pd \<and> low_block pd pt (regs c ESP - 48) 60 \<and> low_block pd pt (arg 1 c) 44
         \<and> low_block pd pt (arg 2 c) 44 \<and> low_block pd pt (r_esp R - 4) 4 \<and> switch_layout c)"

lemma kernel_mmu_low:
  fixes s :: "('d, 'z) paging_scheme"
  assumes "tables_ok s" "pt AND 0xFFF = 0" "setup_paging B pd pt s = ret t" "low_block pd pt a n"
  shows "mapped (kernel_mmu pd pt t) pd a n"
  unfolding mapped_def
proof (intro allI impI)
  fix i
  assume "i < n"
  have t: "cr0 t AND 0x80000000 \<noteq> 0" "\<And>a. translate pd pt t a = (if a < 0x400000 then Some a else None)"
    using setup_paging_maps [OF assms(1,2), of B pd] assms(3) by auto
  then have "cr3 t = pd" using t(2) [of 0] by (auto simp: translate_def Let_def split: if_splits)
  then have "kernel_mmu pd pt t pd = translate pd pt t" by (auto simp: kernel_mmu_def)
  moreover have "unat (of_nat i :: u32) = i" "unat a + i < 0x400000"
    using assms(4) \<open>i < n\<close> by (auto simp: low_block_def unat_of_nat take_bit_nat_eq_self)
  then have "a + of_nat i < 0x400000"
    by (simp add: word_less_nat_alt unat_word_ariths)
  ultimately show "kernel_mmu pd pt t pd (a + of_nat i) = Some (a + of_nat i)"
    by (simp add: t(2))
qed

lemma kernel_call_ready:
  fixes s :: "('d, 'z) paging_scheme"
  assumes "tables_ok s" "pt AND 0xFFF = 0" "setup_paging B pd pt s = ret t" "kernel_call pd pt c"
  shows "switch_ready (kernel_mmu pd pt t) c"
  using assms(4) kernel_mmu_low [OF assms(1-3)]
  by (simp add: kernel_call_def switch_ready_def Let_def)

lemma low_block_tables:
  assumes "low_block pd pt a n" "in_block pd 4096 x \<or> in_block pt 4096 x"
  shows "\<not> in_block a n x"
  using assms by (auto simp: low_block_def apart_def)

section \<open>Network byte order\<close>

text \<open>\<open>htons\<close> and \<open>htonl\<close> of tty.c on a little endian machine store what the encoders of
  \<^verbatim>\<open>sys/endian.h\<close> store in big endian order.\<close>

lemma network_order:
  "le16enc p (htons u) m = be16enc p u m" "le32enc p (htonl v) m = be32enc p v m"
  by (simp_all add: enc_bytes htons_bytes htonl_bytes)

section \<open>Properties\<close>

text \<open>C12: tasks switch under the page tables that the kernel sets up. After \<open>setup_paging\<close>, a call
  of \<open>switchTask\<close> between two tasks that share the page directory and have their structures and
  stacks below four megabytes, away from each other and from the tables, saves the caller, continues
  the other task and leaves the memory of the page directory and the page table as it is.\<close>

theorem kernel_tasks_switch:
  fixes s :: "('d, 'z) paging_scheme"
  assumes "tables_ok s" "pt AND 0xFFF = 0" "setup_paging B pd pt s = ret t" "kernel_call pd pt c"
  shows "\<exists>d. run (kernel_mmu pd pt t) switchTask c = ret d \<and> resumed (eflags c) (load_regs (store c) (arg 2 c)) d
    \<and> load_regs (store d) (arg 1 c) = context_of c
    \<and> (\<forall>x. in_block pd 4096 x \<or> in_block pt 4096 x \<longrightarrow> store d x = store c x)"
proof -
  have blocks: "low_block pd pt (regs c ESP - 48) 60" "low_block pd pt (arg 1 c) 44"
    "low_block pd pt (r_esp (load_regs (store c) (arg 2 c)) - 4) 4"
    using assms(4) by (simp_all add: kernel_call_def Let_def)
  show ?thesis
    using switch_runs [OF kernel_call_ready [OF assms]] low_block_tables [OF blocks(1)]
      low_block_tables [OF blocks(2)] low_block_tables [OF blocks(3)] by blast
qed

definition kernel_task :: cpu where
  "kernel_task = first_call\<lparr>ctrl3 := 0x6000\<rparr>"

lemma kernel_task_call: "kernel_call 0x6000 0xA000 kernel_task"
proof -
  have args: "arg 1 kernel_task = 0x1000" "arg 2 kernel_task = 0x2000"
    "load_regs (store kernel_task) 0x2000 = load_regs (store first_call) 0x2000"
    using first_call_args(1,2) by (simp_all add: kernel_task_def arg_def)
  have "r_cr3 (load_regs (store first_call) 0x2000) = 0x6000"
    by (simp add: first_call_def load_regs_def peek32_poke32_apart apart_numerals)
  then show ?thesis
    unfolding kernel_call_def switch_layout_def Let_def args first_call_args(3)
    by (simp add: low_block_def apart_numerals) (simp add: kernel_task_def first_call_def apart_numerals)
qed

theorem kernel_tasks_switch_witness:
  "\<exists>t d. setup_paging idle_bus 0x6000 0xA000 (boot_paging ()) = ret t
     \<and> run (kernel_mmu 0x6000 0xA000 t) switchTask kernel_task = ret d \<and> eip d = 0xBEEF"
proof -
  have ok: "tables_ok (boot_paging ())" "(0xA000 :: u32) AND 0xFFF = 0"
    by (simp_all add: tables_ok_def boot_paging_def net.extend_def paging.fields_def)
  obtain t where t: "setup_paging idle_bus 0x6000 0xA000 (boot_paging ()) = ret t"
    using setup_paging_maps [OF ok, of idle_bus "0x6000"] by blast
  have "arg 2 kernel_task = 0x2000" "r_eip (load_regs (store kernel_task) 0x2000) = 0xBEEF"
    using first_call_args(2)
    by (simp_all add: kernel_task_def arg_def first_call_def load_regs_def peek32_poke32_apart apart_numerals)
  with t kernel_tasks_switch [OF ok t kernel_task_call] show ?thesis
    by (auto simp: resumed_def)
qed

end
